(* ===== verification/Supp_Prelude.thy ===== *)
theory Supp_Prelude
  imports Complex_Main "HOL-Library.Word" "HOL-Library.AList" "HOL-Library.Sublist"
    "HOL-Library.Multiset"
begin

text \<open>
  Shared ground of the development: the types that stand for Go's base types, the functions of
  Go's standard library that the sources under \<^verbatim>\<open>src/\<close> use (\<^verbatim>\<open>strings\<close>,
  \<^verbatim>\<open>unicode.IsSpace\<close>, \<^verbatim>\<open>strconv.Itoa\<close>, \<^verbatim>\<open>path/filepath\<close>), and the generic
  lemmas on lists, options and association lists that the component theories share.

  A Go \<^verbatim>\<open>string\<close> is a byte sequence, and so is \<^typ>\<open>string\<close>; a Go map that is iterated
  is an association list with distinct keys; a \<^verbatim>\<open>time.Time\<close> is the number of
  nanoseconds since the Unix epoch and a \<^verbatim>\<open>time.Duration\<close> a number of nanoseconds,
  both as \<^typ>\<open>int\<close>; \<^verbatim>\<open>uint64\<close> counters are \<^typ>\<open>64 word\<close> and wrap.
\<close>

section \<open>Types and collections\<close>

type_synonym bytes = string
type_synonym time = int
type_synonym duration = int
type_synonym u8 = "8 word"
type_synonym u16 = "16 word"
type_synonym u32 = "32 word"
type_synonym u64 = "64 word"
type_synonym ('k, 'v) gomap = "('k \<times> 'v) list"
type_synonym fs = "string \<rightharpoonup> bytes"

named_theorems go_defs \<open>definitions of the standard-library functions\<close>
named_theorems wf_intros \<open>introduction rules for well-formedness invariants\<close>
named_theorems step_defs \<open>definitions of the operations of a component\<close>

text \<open>A result \<open>Inl e\<close> is an error and \<open>Inr x\<close> a value.\<close>

abbreviation isr :: "'e + 'a \<Rightarrow> bool" where
  "isr r \<equiv> \<not> isl r"

abbreviation Second :: duration where
  "Second \<equiv> 1000000000"

abbreviation Hour :: duration where
  "Hour \<equiv> 3600000000000"

section \<open>Bytes and strings\<close>

definition isASCII :: "string \<Rightarrow> bool" where
  "isASCII s = list_all (\<lambda>c. (of_char c :: int) < 128) s"

definition ascii_lower :: "char \<Rightarrow> char" where
  "ascii_lower c =
     (let n = (of_char c :: int) in if 65 \<le> n \<and> n \<le> 90 then char_of (n + 32) else c)"

text \<open>
  \<^verbatim>\<open>strings.ToLower\<close>: the ASCII fast path is written out; \<open>uni\<close> stands for the
  Unicode case tables, which decide strings with a byte above 127.
\<close>

definition go_ToLower :: "(string \<Rightarrow> string) \<Rightarrow> string \<Rightarrow> string" where
  "go_ToLower uni s = (if isASCII s then map ascii_lower s else uni s)"

definition HasPrefix :: "string \<Rightarrow> string \<Rightarrow> bool" where
  "HasPrefix s p = prefix p s"

definition TrimPrefix :: "string \<Rightarrow> string \<Rightarrow> string" where
  "TrimPrefix s p = (if prefix p s then drop (length p) s else s)"

definition TrimSuffix :: "string \<Rightarrow> string \<Rightarrow> string" where
  "TrimSuffix s p = (if suffix p s then take (length s - length p) s else s)"

definition go_Trim :: "string \<Rightarrow> string \<Rightarrow> string" where
  "go_Trim s cs =
     rev (dropWhile (\<lambda>c. c \<in> set cs) (rev (dropWhile (\<lambda>c. c \<in> set cs) s)))"

fun go_Contains :: "string \<Rightarrow> string \<Rightarrow> bool" where
  "go_Contains [] p = (p = [])"
| "go_Contains (c # s) p = (prefix p (c # s) \<or> go_Contains s p)"

fun go_Split :: "char \<Rightarrow> string \<Rightarrow> string list" where
  "go_Split sep [] = [[]]"
| "go_Split sep (c # s) =
     (if c = sep then [] # go_Split sep s
      else (case go_Split sep s of [] \<Rightarrow> [[c]] | l # ls \<Rightarrow> (c # l) # ls))"

fun go_Join :: "string \<Rightarrow> string list \<Rightarrow> string" where
  "go_Join sep [] = []"
| "go_Join sep [x] = x"
| "go_Join sep (x # y # xs) = x @ sep @ go_Join sep (y # xs)"

text \<open>\<^verbatim>\<open>strings.IndexByte\<close> and \<^verbatim>\<open>LastIndexByte\<close>; \<open>None\<close> is the result -1.\<close>

fun IndexByte :: "string \<Rightarrow> char \<Rightarrow> nat option" where
  "IndexByte [] c = None"
| "IndexByte (x # s) c = (if x = c then Some 0 else map_option Suc (IndexByte s c))"

definition LastIndexByte :: "string \<Rightarrow> char \<Rightarrow> nat option" where
  "LastIndexByte s c = map_option (\<lambda>i. length s - 1 - i) (IndexByte (rev s) c)"

text \<open>
  The UTF-8 encodings of the runes for which \<^verbatim>\<open>unicode.IsSpace\<close> holds. No encoding is a
  proper part of another one and their first bytes never occur inside a rune, so matching them
  on bytes agrees with Go's rune-wise scan.
\<close>

definition space_seqs :: "string list" where
  "space_seqs =
     [[CHR 0x09], [CHR 0x0A], [CHR 0x0B], [CHR 0x0C], [CHR 0x0D], [CHR 0x20],
      [CHR 0xC2, CHR 0x85], [CHR 0xC2, CHR 0xA0], [CHR 0xE1, CHR 0x9A, CHR 0x80],
      [CHR 0xE2, CHR 0x80, CHR 0x80], [CHR 0xE2, CHR 0x80, CHR 0x81], [CHR 0xE2, CHR 0x80, CHR 0x82],
      [CHR 0xE2, CHR 0x80, CHR 0x83], [CHR 0xE2, CHR 0x80, CHR 0x84], [CHR 0xE2, CHR 0x80, CHR 0x85],
      [CHR 0xE2, CHR 0x80, CHR 0x86], [CHR 0xE2, CHR 0x80, CHR 0x87], [CHR 0xE2, CHR 0x80, CHR 0x88],
      [CHR 0xE2, CHR 0x80, CHR 0x89], [CHR 0xE2, CHR 0x80, CHR 0x8A], [CHR 0xE2, CHR 0x80, CHR 0xA8],
      [CHR 0xE2, CHR 0x80, CHR 0xA9], [CHR 0xE2, CHR 0x80, CHR 0xAF], [CHR 0xE2, CHR 0x81, CHR 0x9F],
      [CHR 0xE3, CHR 0x80, CHR 0x80]]"

definition space_len :: "string \<Rightarrow> nat" where
  "space_len s = (case find (\<lambda>q. prefix q s) space_seqs of None \<Rightarrow> 0 | Some q \<Rightarrow> length q)"

definition space_len_rev :: "string \<Rightarrow> nat" where
  "space_len_rev s =
     (case find (\<lambda>q. prefix (rev q) s) space_seqs of None \<Rightarrow> 0 | Some q \<Rightarrow> length q)"

text \<open>\<open>drop_spaces len s\<close> removes leading space runes, \<open>len\<close> giving the width of one.\<close>

function drop_spaces :: "(string \<Rightarrow> nat) \<Rightarrow> string \<Rightarrow> string" where
  "drop_spaces len s =
     (if len s = 0 \<or> s = [] then s else drop_spaces len (drop (len s) s))"
  by pat_completeness auto
termination
  by (relation "measure (\<lambda>(len, s). length s)") auto

declare drop_spaces.simps [simp del]

definition TrimSpace :: "string \<Rightarrow> string" where
  "TrimSpace s = rev (drop_spaces space_len_rev (rev (drop_spaces space_len s)))"

text \<open>\<^verbatim>\<open>strings.Fields\<close>, scanning with the field read so far (reversed).\<close>

function fields_from :: "string \<Rightarrow> string \<Rightarrow> string list" where
  "fields_from cur s =
     (if s = [] then (if cur = [] then [] else [rev cur])
      else if space_len s = 0 then fields_from (hd s # cur) (tl s)
      else (if cur = [] then [] else [rev cur]) @ fields_from [] (drop (space_len s) s))"
  by pat_completeness auto
termination
  by (relation "measure (\<lambda>(cur, s). length s)") auto

declare fields_from.simps [simp del]

definition go_Fields :: "string \<Rightarrow> string list" where
  "go_Fields s = fields_from [] s"

text \<open>\<^verbatim>\<open>strconv.Itoa\<close> and the \<^verbatim>\<open>%d\<close> verb.\<close>

function itoa_pos :: "int \<Rightarrow> string" where
  "itoa_pos n =
     (if n < 10 then [char_of (48 + n)] else itoa_pos (n div 10) @ [char_of (48 + n mod 10)])"
  by pat_completeness auto
termination
  by (relation "measure nat") auto

declare itoa_pos.simps [simp del]

definition itoa :: "int \<Rightarrow> string" where
  "itoa i = (if i < 0 then CHR ''-'' # itoa_pos (- i) else itoa_pos i)"

lemmas [go_defs] =
  HasPrefix_def TrimPrefix_def TrimSuffix_def go_Trim_def LastIndexByte_def TrimSpace_def
  go_Fields_def itoa_def

section \<open>Time, paths, readers\<close>

text \<open>\<^verbatim>\<open>time.Time{}\<close>, year 1; \<^verbatim>\<open>Time.Sub\<close> saturates at the bounds of a duration.\<close>

definition zero_time :: time where
  "zero_time = - 62135596800 * 1000000000"

definition time_Sub :: "time \<Rightarrow> time \<Rightarrow> duration" where
  "time_Sub a b = max (- 9223372036854775808) (min 9223372036854775807 (a - b))"

text \<open>
  A background loop: \<^verbatim>\<open>for\<close> around a \<^verbatim>\<open>select\<close> between a channel that ends the
  loop and its tickers. The result is the state and whether the loop has returned; without a
  further event it waits.
\<close>

datatype 'e loop_event = Done | Tick 'e

fun select_loop :: "('e \<Rightarrow> 's \<Rightarrow> 's) \<Rightarrow> 's \<Rightarrow> 'e loop_event list \<Rightarrow> 's \<times> bool" where
  "select_loop body s [] = (s, False)"
| "select_loop body s (Done # evs) = (s, True)"
| "select_loop body s (Tick e # evs) = select_loop body (body e s) evs"

text \<open>\<^verbatim>\<open>filepath.Clean\<close> and \<^verbatim>\<open>filepath.Join\<close> on Unix; the stack holds components reversed.\<close>

definition clean_step :: "bool \<Rightarrow> string \<Rightarrow> string list \<Rightarrow> string list" where
  "clean_step rooted c st =
     (if c = [] \<or> c = ''.'' then st
      else if c = ''..'' then
        (case st of
           [] \<Rightarrow> if rooted then [] else [c]
         | upper # below \<Rightarrow> if upper = ''..'' then c # st else below)
      else c # st)"

definition filepath_Clean :: "string \<Rightarrow> string" where
  "filepath_Clean p =
     (if p = [] then ''.''
      else
        let rooted = (hd p = CHR ''/'');
            body = go_Join ''/'' (rev (fold (clean_step rooted) (go_Split CHR ''/'' p) []))
        in if rooted then CHR ''/'' # body else if body = [] then ''.'' else body)"

definition filepath_Join :: "string list \<Rightarrow> string" where
  "filepath_Join elems =
     (case dropWhile (\<lambda>e. e = []) elems of [] \<Rightarrow> [] | es \<Rightarrow> filepath_Clean (go_Join ''/'' es))"

text \<open>The path that \<^verbatim>\<open>http.ServeMux\<close> redirects to, unless it is the path of the request.\<close>

definition mux_clean :: "string \<Rightarrow> string" where
  "mux_clean p =
     (let p = (if p \<noteq> '''' \<and> hd p = CHR ''/'' then p else CHR ''/'' # p); c = filepath_Clean p
      in if last p = CHR ''/'' \<and> c \<noteq> ''/'' then c @ ''/'' else c)"

text \<open>\<^verbatim>\<open>io.ReadAll(io.LimitReader(r, n))\<close>.\<close>

definition limit_read :: "int \<Rightarrow> bytes \<Rightarrow> bytes" where
  "limit_read n b = (if int (length b) \<le> n then b else take (nat n) b)"

section \<open>Lemmas on splitting and joining\<close>

lemma select_loop_invariant:
  assumes "\<And>e s. P s \<Longrightarrow> P (body e s)"
  shows "P s \<Longrightarrow> P (fst (select_loop body s evs))"
proof (induction evs arbitrary: s)
  case (Cons ev evs)
  then show ?case using assms by (cases ev) auto
qed simp

lemma select_loop_done:
  "select_loop body s (map Tick es @ Done # evs) = (fold body es s, True)"
  "select_loop body s (map Tick es) = (fold body es s, False)"
  by (induction es arbitrary: s) auto

lemma go_Split_not_Nil [simp]: "go_Split c s \<noteq> []"
  by (cases s) (auto split: list.split)

lemma go_Split_no_sep: "l \<in> set (go_Split c s) \<Longrightarrow> c \<notin> set l"
  by (induction s arbitrary: l) (auto split: if_splits list.splits)

lemma go_Split_subset: "l \<in> set (go_Split c s) \<Longrightarrow> set l \<subseteq> set s"
  by (induction s arbitrary: l) (fastforce split: if_splits list.splits)+

lemma go_Join_Cons:
  "xs \<noteq> [] \<Longrightarrow> go_Join sep (x # xs) = x @ sep @ go_Join sep xs"
  by (cases xs) auto

lemma go_Join_Split [simp]: "go_Join [c] (go_Split c s) = s"
proof (induction s)
  case Nil
  then show ?case by simp
next
  case (Cons x s)
  obtain l ls where "go_Split c s = l # ls"
    using go_Split_not_Nil by (cases "go_Split c s") blast+
  with Cons show ?case by (cases ls) (auto simp: go_Join_Cons)
qed

lemma go_Split_plain: "c \<notin> set s \<Longrightarrow> go_Split c s = [s]"
  by (induction s) auto

lemma go_Split_append: "c \<notin> set s \<Longrightarrow> go_Split c (s @ c # t) = s # go_Split c t"
  by (induction s) auto

lemma go_Split_Join:
  "ls \<noteq> [] \<Longrightarrow> \<forall>l \<in> set ls. c \<notin> set l \<Longrightarrow> go_Split c (go_Join [c] ls) = ls"
proof (induction ls)
  case (Cons l ls)
  show ?case
  proof (cases ls)
    case Nil
    with Cons.prems show ?thesis by (simp add: go_Split_plain)
  next
    case (Cons l' ls')
    with Cons.IH Cons.prems show ?thesis by (simp add: go_Join_Cons go_Split_append)
  qed
qed simp

lemma hd_go_Split: "s \<noteq> [] \<Longrightarrow> hd s \<noteq> c \<Longrightarrow> hd (go_Split c s) \<noteq> []"
  by (cases s) (auto split: list.split)

lemma last_go_Split: "s \<noteq> [] \<Longrightarrow> last s \<noteq> c \<Longrightarrow> last (go_Split c s) \<noteq> []"
proof (induction s)
  case (Cons x s)
  then show ?case
    by (cases s) (auto split: list.split if_splits)
qed simp

lemma set_go_Join: "set (go_Join sep ls) \<subseteq> set sep \<union> (\<Union>l \<in> set ls. set l)"
  by (induction sep ls rule: go_Join.induct) auto

lemma hd_go_Join: "ls \<noteq> [] \<Longrightarrow> hd ls \<noteq> [] \<Longrightarrow> hd (go_Join sep ls) = hd (hd ls)"
  by (cases ls; cases "tl ls") auto

lemma go_Join_not_Nil: "ls \<noteq> [] \<Longrightarrow> hd ls \<noteq> [] \<Longrightarrow> go_Join sep ls \<noteq> []"
  by (cases ls; cases "tl ls") auto

lemma last_go_Join: "ls \<noteq> [] \<Longrightarrow> last ls \<noteq> [] \<Longrightarrow> last (go_Join sep ls) = last (last ls)"
proof (induction ls)
  case (Cons l ls)
  show ?case
  proof (cases "ls = []")
    case False
    with Cons.prems have ne: "go_Join sep ls \<noteq> []"
      by (induction sep ls rule: go_Join.induct) auto
    with False Cons show ?thesis by (simp add: go_Join_Cons)
  qed simp
qed simp

section \<open>Trimming names that need none\<close>

text \<open>
  An ordinary byte of a host name: printable ASCII, not upper case, not the label separator.
\<close>

definition plain_char :: "char \<Rightarrow> bool" where
  "plain_char c =
     (let n = (of_char c :: int) in 32 < n \<and> n < 127 \<and> n \<noteq> 46 \<and> \<not> (65 \<le> n \<and> n \<le> 90))"

definition plain_label :: "string \<Rightarrow> bool" where
  "plain_label l = (l \<noteq> [] \<and> list_all plain_char l)"

lemma plain_char_no_dot: "plain_char c \<Longrightarrow> c \<noteq> CHR ''.''"
  by (auto simp: plain_char_def)

lemma plain_label_no_dot: "plain_label l \<Longrightarrow> CHR ''.'' \<notin> set l"
  by (auto simp: plain_label_def list_all_iff dest: plain_char_no_dot)

lemma ascii_lower_plain: "plain_char c \<Longrightarrow> ascii_lower c = c"
  by (auto simp: plain_char_def ascii_lower_def Let_def)

lemma ascii_lower_dot [simp]: "ascii_lower CHR ''.'' = CHR ''.''"
  by (simp add: ascii_lower_def)

text \<open>Code equations that look at one byte before they try the table of space runes.\<close>

definition may_space :: "char \<Rightarrow> bool" where
  "may_space c \<longleftrightarrow>
     digit7 c \<or> c \<in> {CHR 0x09, CHR 0x0A, CHR 0x0B, CHR 0x0C, CHR 0x0D, CHR 0x20}"

lemma space_seqs_may: "q \<in> set space_seqs \<Longrightarrow> q \<noteq> [] \<and> may_space (hd q) \<and> may_space (last q)"
  by (auto simp: space_seqs_def may_space_def)

lemma find_space_None:
  assumes "\<not> may_space c"
  shows "find (\<lambda>q. prefix q (c # s)) space_seqs = None"
    and "find (\<lambda>q. prefix (rev q) (c # s)) space_seqs = None"
proof -
  have "\<not> prefix q (c # s) \<and> \<not> prefix (rev q) (c # s)" if "q \<in> set space_seqs" for q
    using space_seqs_may [OF that] assms
    by (auto simp: prefix_Cons hd_rev [symmetric] dest: arg_cong [where f = hd])
  then show "find (\<lambda>q. prefix q (c # s)) space_seqs = None"
    and "find (\<lambda>q. prefix (rev q) (c # s)) space_seqs = None"
    by (auto simp: find_None_iff)
qed

lemma find_space_Nil: "find (\<lambda>q. q = []) space_seqs = None"
  by (simp add: find_None_iff space_seqs_def)

lemma space_len_code [code]:
  "space_len s = (case s of [] \<Rightarrow> 0 | c # t \<Rightarrow> if \<not> may_space c then 0 else
     (case find (\<lambda>q. prefix q s) space_seqs of None \<Rightarrow> 0 | Some q \<Rightarrow> length q))"
  by (auto simp: space_len_def find_space_None find_space_Nil split: list.split)

lemma space_len_rev_code [code]:
  "space_len_rev s = (case s of [] \<Rightarrow> 0 | c # t \<Rightarrow> if \<not> may_space c then 0 else
     (case find (\<lambda>q. prefix (rev q) s) space_seqs of None \<Rightarrow> 0 | Some q \<Rightarrow> length q))"
  by (auto simp: space_len_rev_def find_space_None find_space_Nil split: list.split)

lemma digit7_ascii: "(of_char c :: int) < 128 \<longleftrightarrow> \<not> digit7 c"
  by (cases c) (auto simp: of_char_Char)

lemma isASCII_code [code]: "isASCII s = list_all (\<lambda>c. \<not> digit7 c) s"
  by (simp add: isASCII_def digit7_ascii)

lemma space_len_0: "\<not> may_space c \<Longrightarrow> space_len (c # s) = 0 \<and> space_len_rev (c # s) = 0"
  by (simp add: space_len_def space_len_rev_def find_space_None)

lemma TrimSpace_ends:
  assumes "s \<noteq> []" and "\<not> may_space (hd s)" and "\<not> may_space (last s)"
  shows "TrimSpace s = s"
proof -
  have f: "drop_spaces space_len s = s"
    using assms(1,2) space_len_0 by (cases s) (auto simp: drop_spaces.simps)
  have "drop_spaces space_len_rev (rev s) = rev s"
    using assms(1,3) space_len_0 by (cases s rule: rev_cases) (auto simp: drop_spaces.simps)
  with f show ?thesis by (simp add: TrimSpace_def)
qed

lemma plain_not_space: "plain_char c \<Longrightarrow> \<not> may_space c"
  using digit7_ascii [of c] by (auto simp: plain_char_def may_space_def Let_def)

lemma TrimSpace_plain_ends:
  "s \<noteq> [] \<Longrightarrow> plain_char (hd s) \<Longrightarrow> plain_char (last s) \<Longrightarrow> TrimSpace s = s"
  by (simp add: TrimSpace_ends plain_not_space)

lemma fields_from_word:
  "\<forall>c \<in> set s. \<not> may_space c \<Longrightarrow>
     fields_from cur s = (if cur = [] \<and> s = [] then [] else [rev cur @ s])"
proof (induction s arbitrary: cur)
  case (Cons c s)
  then show ?case by (subst fields_from.simps) (simp add: space_len_0)
qed (simp add: fields_from.simps)

lemma fields_from_space:
  assumes "\<forall>c \<in> set s. \<not> may_space c"
  shows "fields_from cur (s @ CHR '' '' # t) =
    (if cur = [] \<and> s = [] then [] else [rev cur @ s]) @ fields_from [] t"
  using assms
proof (induction s arbitrary: cur)
  case Nil
  have "space_len (CHR '' '' # t) = 1"
    by (simp add: space_len_def space_seqs_def)
  then show ?case by (subst fields_from.simps) simp
next
  case (Cons c s)
  then show ?case by (subst fields_from.simps) (simp add: space_len_0)
qed

lemma go_Fields_two:
  "\<forall>c \<in> set s \<union> set t. \<not> may_space c \<Longrightarrow> s \<noteq> [] \<Longrightarrow> t \<noteq> [] \<Longrightarrow>
     go_Fields (s @ CHR '' '' # t) = [s, t]"
  by (simp add: go_Fields_def fields_from_space fields_from_word)

lemma go_Trim_ends:
  assumes "s \<noteq> []" and "hd s \<notin> set cs" and "last s \<notin> set cs"
  shows "go_Trim s cs = s"
proof -
  have f: "dropWhile (\<lambda>c. c \<in> set cs) s = s"
    using assms(1,2) by (cases s) auto
  have "dropWhile (\<lambda>c. c \<in> set cs) (rev s) = rev s"
    using assms(1,3) by (cases s rule: rev_cases) auto
  with f show ?thesis by (simp add: go_Trim_def)
qed

lemma dropWhile_ends:
  "hd (dropWhile P s) \<in> set s \<and> \<not> P (hd (dropWhile P s))" if "dropWhile P s \<noteq> []"
  using that hd_dropWhile [of P s] hd_in_set [OF that] set_dropWhileD by fast

lemma go_Trim_props:
  assumes "go_Trim s cs \<noteq> []"
  shows "hd (go_Trim s cs) \<notin> set cs" and "last (go_Trim s cs) \<notin> set cs"
proof -
  let ?P = "\<lambda>c. c \<in> set cs"
  let ?a = "dropWhile ?P s"
  let ?b = "dropWhile ?P (rev ?a)"
  have t: "go_Trim s cs = rev ?b" by (simp add: go_Trim_def)
  with assms have b: "?b \<noteq> []" by simp
  then have a: "?a \<noteq> []" by (cases "?a = []") simp_all
  have "\<not> ?P (hd ?b)" using dropWhile_ends [OF b] by simp
  then show "last (go_Trim s cs) \<notin> set cs" using b t by (simp add: last_rev)
  have "suffix ?b (rev ?a)" by (simp add: suffix_dropWhile)
  then obtain zs where "rev ?a = zs @ ?b" by (rule suffixE)
  then have "last ?b = last (rev ?a)" using b by (metis last_appendR)
  then have "hd (rev ?b) = hd ?a" using a b by (simp add: hd_rev last_rev)
  moreover have "\<not> ?P (hd ?a)" using dropWhile_ends [OF a] by simp
  ultimately show "hd (go_Trim s cs) \<notin> set cs" using t by simp
qed

section \<open>Images of set comprehensions\<close>

lemma image_setcompr1: "f ` {g t | t. P t} = {f (g t) | t. P t}"
  by blast

lemma image_setcompr2: "f ` {g t l | t l. P t l} = {f (g t l) | t l. P t l}"
  by blast

lemma image_setcompr3: "f ` {g t l u | t l u. P t l u} = {f (g t l u) | t l u. P t l u}"
  by blast

section \<open>Association lists\<close>

lemma map_of_AList_update [simp]: "map_of (AList.update k v m) = (map_of m)(k \<mapsto> v)"
  by (rule AList.update_conv')

lemma distinct_keys_update [wf_intros]:
  "distinct (map fst m) \<Longrightarrow> distinct (map fst (AList.update k v m))"
  by (rule distinct_update)

lemma set_update_distinct:
  "distinct (map fst m) \<Longrightarrow>
     set (AList.update k v m) = insert (k, v) {p \<in> set m. fst p \<noteq> k}"
proof (induction m)
  case (Cons p m)
  then show ?case by (cases p) force
qed simp

lemma first_sep_eq:
  "a @ x # b = a' @ x # b' \<Longrightarrow> x \<notin> set a \<Longrightarrow> x \<notin> set a' \<Longrightarrow> a = a' \<and> b = b'"
proof (induction a arbitrary: a')
  case Nil
  then show ?case by (cases a') auto
next
  case (Cons y a)
  then show ?case by (cases a') auto
qed

section \<open>Lists with distinct keys\<close>

lemma filter_distinct_map:
  "distinct (map f xs) \<Longrightarrow> w \<in> set xs \<Longrightarrow> filter (\<lambda>v. f v = f w) xs = [w]"
  by (induction xs) (auto simp: filter_empty_conv image_iff)

lemma find_distinct_map:
  "distinct (map f xs) \<Longrightarrow> w \<in> set xs \<Longrightarrow> find (\<lambda>v. f v = f w) xs = Some w"
  by (induction xs) auto

lemma map_of_map_find: "map_of (map (\<lambda>w. (f w, g w)) xs) k = map_option g (find (\<lambda>w. f w = k) xs)"
  by (induction xs) auto

lemma find_map_idem:
  "(\<And>x. P (f x) = P x) \<Longrightarrow> find P (map f xs) = map_option f (find P xs)"
  by (induction xs) auto

text \<open>Rows with increasing keys, listed by descending key, are the reversed table.\<close>

lemma sort_key_desc:
  fixes f :: "'a \<Rightarrow> int"
  assumes "sorted_wrt (<) (map f xs)"
  shows "sort_key (\<lambda>x. - f x) xs = rev xs"
proof (rule properties_for_sort_key)
  show "sorted (map (\<lambda>x. - f x) (rev xs))"
    using assms by (simp add: rev_map [symmetric] sorted_wrt_rev sorted_wrt_map)
      (auto elim: sorted_wrt_mono_rel [rotated])
  have "filter (\<lambda>y. f y = f x) xs = [x]" if "x \<in> set xs" for x
    using assms that by (intro filter_distinct_map) (simp_all add: strict_sorted_iff)
  then show "filter (\<lambda>y. - f x = - f y) (rev xs) = filter (\<lambda>y. - f x = - f y) xs" if "x \<in> set (rev xs)" for x
    using that by (simp add: rev_filter [symmetric] eq_commute [of "f x"])
qed simp

section \<open>Sorting\<close>

text \<open>
  Insertion sort by a strict comparison, moving an element left while it is smaller than its
  neighbour: the sort Go's \<^verbatim>\<open>sort.Slice\<close> runs on at most twelve elements, and the loop
  \<^verbatim>\<open>sortTop\<close> of \<^verbatim>\<open>internal/dns/metrics.go\<close>.
\<close>

fun insert_back :: "('a \<Rightarrow> 'a \<Rightarrow> bool) \<Rightarrow> 'a \<Rightarrow> 'a list \<Rightarrow> 'a list" where
  "insert_back lt x [] = [x]"
| "insert_back lt x (y # ys) = (if lt x y then y # insert_back lt x ys else x # y # ys)"

text \<open>\<open>insert_back\<close> works on the reversed prefix: its head is the neighbour on the left.\<close>

definition insertion_sort :: "('a \<Rightarrow> 'a \<Rightarrow> bool) \<Rightarrow> 'a list \<Rightarrow> 'a list" where
  "insertion_sort lt xs = rev (fold (insert_back lt) xs [])"

lemma mset_insert_back [simp]: "mset (insert_back lt x ys) = {#x#} + mset ys"
  by (induction ys) auto

lemma set_insert_back [simp]: "set (insert_back lt x ys) = insert x (set ys)"
  by (induction ys) auto

lemma mset_fold_insert_back: "mset (fold (insert_back lt) xs acc) = mset xs + mset acc"
  by (induction xs arbitrary: acc) auto

lemma mset_insertion_sort [simp]: "mset (insertion_sort lt xs) = mset xs"
  by (simp add: insertion_sort_def mset_fold_insert_back)

lemma set_insertion_sort [simp]: "set (insertion_sort lt xs) = set xs"
  by (metis mset_insertion_sort set_mset_mset)

lemma length_insertion_sort [simp]: "length (insertion_sort lt xs) = length xs"
  by (metis mset_insertion_sort size_mset)

text \<open>The comparison is a strict weak order when incomparability is transitive.\<close>

definition strict_weak :: "('a \<Rightarrow> 'a \<Rightarrow> bool) \<Rightarrow> bool" where
  "strict_weak lt \<longleftrightarrow> (\<forall>x y. lt x y \<longrightarrow> \<not> lt y x) \<and>
     (\<forall>x y z. \<not> lt x y \<longrightarrow> \<not> lt y z \<longrightarrow> \<not> lt x z)"

lemma strict_weak_asym: "strict_weak lt \<Longrightarrow> lt x y \<Longrightarrow> \<not> lt y x"
  unfolding strict_weak_def by blast

lemma strict_weak_trans: "strict_weak lt \<Longrightarrow> \<not> lt x y \<Longrightarrow> \<not> lt y z \<Longrightarrow> \<not> lt x z"
  unfolding strict_weak_def by blast

lemma sorted_wrt_insert_back:
  assumes "strict_weak lt" and "sorted_wrt (\<lambda>a b. \<not> lt a b) ys"
  shows "sorted_wrt (\<lambda>a b. \<not> lt a b) (insert_back lt x ys)"
  using assms(2)
proof (induction ys)
  case (Cons y ys)
  show ?case
  proof (cases "lt x y")
    case True
    with Cons strict_weak_asym [OF assms(1) True] show ?thesis by simp
  next
    case False
    with Cons strict_weak_trans [OF assms(1) False] show ?thesis by simp
  qed
qed simp

lemma sorted_wrt_fold_insert_back:
  assumes "strict_weak lt"
  shows "sorted_wrt (\<lambda>a b. \<not> lt a b) acc \<Longrightarrow>
    sorted_wrt (\<lambda>a b. \<not> lt a b) (fold (insert_back lt) xs acc)"
  by (induction xs arbitrary: acc) (auto intro: sorted_wrt_insert_back [OF assms])

lemma sorted_insertion_sort:
  "strict_weak lt \<Longrightarrow> sorted_wrt (\<lambda>a b. \<not> lt b a) (insertion_sort lt xs)"
  unfolding insertion_sort_def sorted_wrt_rev by (rule sorted_wrt_fold_insert_back) auto

end
