(* ===== verification/Netip.thy ===== *)
theory Netip
  imports Supp_Prelude
begin

text \<open>
  What the sources use of Go's \<^verbatim>\<open>net/netip\<close> and \<^verbatim>\<open>net\<close> packages: addresses with
  their text form, prefixes, \<^verbatim>\<open>Next\<close>, \<^verbatim>\<open>Contains\<close>, and the splitting of
  \<^verbatim>\<open>host:port\<close>. The definitions follow the standard library's algorithms; nothing here is
  code of the repository.
\<close>

section \<open>Addresses\<close>

text \<open>The zero \<^verbatim>\<open>Addr\<close>, an IPv4 address, an IPv6 address with its zone.\<close>

datatype Addr = AddrZero | Addr4 u32 | Addr6 "128 word" string

fun addr_IsValid :: "Addr \<Rightarrow> bool" where
  "addr_IsValid AddrZero = False"
| "addr_IsValid _ = True"

fun addr_Is4 :: "Addr \<Rightarrow> bool" where
  "addr_Is4 (Addr4 _) = True"
| "addr_Is4 _ = False"

definition octets :: "u32 \<Rightarrow> int list" where
  "octets w = (let n = uint w in [n div 16777216 mod 256, n div 65536 mod 256, n div 256 mod 256, n mod 256])"

definition of_octets :: "int list \<Rightarrow> int" where
  "of_octets os = fold (\<lambda>o' acc. acc * 256 + o') os 0"

definition groups6 :: "128 word \<Rightarrow> int list" where
  "groups6 w = map (\<lambda>i. uint w div 65536 ^ (7 - i) mod 65536) [0 ..< 8]"

definition of_groups6 :: "int list \<Rightarrow> 128 word" where
  "of_groups6 gs = of_int (fold (\<lambda>g acc. acc * 65536 + g) gs 0)"

text \<open>\<^verbatim>\<open>Is4In6\<close>: the upper 96 bits are those of the mapped prefix.\<close>

definition is4In6 :: "128 word \<Rightarrow> bool" where
  "is4In6 w = (take 6 (groups6 w) = [0, 0, 0, 0, 0, 65535])"

text \<open>\<^verbatim>\<open>Next\<close> is the zero \<^verbatim>\<open>Addr\<close> after the last address.\<close>

fun addr_Next :: "Addr \<Rightarrow> Addr" where
  "addr_Next AddrZero = AddrZero"
| "addr_Next (Addr4 w) = (if w + 1 = 0 then AddrZero else Addr4 (w + 1))"
| "addr_Next (Addr6 w z) = (if w + 1 = 0 then AddrZero else Addr6 (w + 1) z)"

section \<open>Reading addresses\<close>

definition digit_val :: "char \<Rightarrow> int" where
  "digit_val c = of_char c - 48"

definition dec_digit :: "char \<Rightarrow> bool" where
  "dec_digit c = (let n = (of_char c :: int) in 48 \<le> n \<and> n \<le> 57)"

definition dec_val :: "string \<Rightarrow> int" where
  "dec_val s = fold (\<lambda>c acc. acc * 10 + digit_val c) s 0"

definition octet_ok :: "string \<Rightarrow> bool" where
  "octet_ok p = (p \<noteq> [] \<and> list_all dec_digit p \<and> (hd p = CHR ''0'' \<longrightarrow> length p = 1) \<and>
     length p \<le> 3 \<and> dec_val p \<le> 255)"

definition parseIPv4Fields :: "string \<Rightarrow> int list option" where
  "parseIPv4Fields s =
     (let ps = go_Split CHR ''.'' s in
      if length ps = 4 \<and> list_all octet_ok ps then Some (map dec_val ps) else None)"

definition parseIPv4 :: "string \<Rightarrow> Addr option" where
  "parseIPv4 s = map_option (\<lambda>os. Addr4 (of_int (of_octets os))) (parseIPv4Fields s)"

definition hex_val :: "char \<Rightarrow> int option" where
  "hex_val c =
     (let n = (of_char c :: int) in
      if 48 \<le> n \<and> n \<le> 57 then Some (n - 48)
      else if 97 \<le> n \<and> n \<le> 102 then Some (n - 87)
      else if 65 \<le> n \<and> n \<le> 70 then Some (n - 55)
      else None)"

definition hex_num :: "string \<Rightarrow> int" where
  "hex_num s = fold (\<lambda>c acc. acc * 16 + the (hex_val c)) s 0"

text \<open>
  The loop of \<^verbatim>\<open>parseIPv6\<close>: groups read so far, where the double colon stood among them,
  what is left of the text.
\<close>

function parse6_loop :: "int list \<Rightarrow> nat option \<Rightarrow> string \<Rightarrow> (int list \<times> nat option \<times> string) option" where
  "parse6_loop gs ell s =
     (if 8 \<le> length gs then Some (gs, ell, s)
      else
        let ds = takeWhile (\<lambda>c. hex_val c \<noteq> None) s; rest = drop (length ds) s; gs' = gs @ [hex_num ds] in
        if ds = [] \<or> 4 < length ds then None
        else if rest \<noteq> [] \<and> hd rest = CHR ''.'' then
          if ell = None \<and> length gs \<noteq> 6 then None
          else if 6 < length gs then None
          else (case parseIPv4Fields s of
              None \<Rightarrow> None
            | Some os \<Rightarrow> Some (gs @ [os ! 0 * 256 + os ! 1, os ! 2 * 256 + os ! 3], ell, []))
        else if rest = [] then Some (gs', ell, [])
        else if hd rest \<noteq> CHR '':'' \<or> tl rest = [] then None
        else if hd (tl rest) = CHR '':'' then
          if ell \<noteq> None then None
          else if tl (tl rest) = [] then Some (gs', Some (length gs'), [])
          else parse6_loop gs' (Some (length gs')) (tl (tl rest))
        else parse6_loop gs' ell (tl rest))"
  by pat_completeness auto
termination
  by (relation "measure (\<lambda>(gs, ell, s). 8 - length gs)") auto

declare parse6_loop.simps [simp del]

definition parse6_finish :: "int list \<times> nat option \<times> string \<Rightarrow> int list option" where
  "parse6_finish r =
     (case r of (gs, ell, s) \<Rightarrow>
        if s \<noteq> [] then None
        else if length gs < 8 then
          (case ell of None \<Rightarrow> None | Some e \<Rightarrow> Some (take e gs @ replicate (8 - length gs) 0 @ drop e gs))
        else (case ell of None \<Rightarrow> Some gs | Some _ \<Rightarrow> None))"

definition parseIPv6 :: "string \<Rightarrow> Addr option" where
  "parseIPv6 str =
     (let (s, zone, bad) =
        (case IndexByte str CHR ''%'' of
           None \<Rightarrow> (str, [], False)
         | Some i \<Rightarrow> (take i str, drop (i + 1) str, drop (i + 1) str = [])) in
      if bad then None
      else if prefix ''::'' s \<and> length s = 2 then Some (Addr6 0 zone)
      else
        let (ell, s') = (if prefix ''::'' s then (Some 0, drop 2 s) else (None, s)) in
        (case parse6_loop [] ell s' of
           None \<Rightarrow> None
         | Some r \<Rightarrow> map_option (\<lambda>gs. Addr6 (of_groups6 gs) zone) (parse6_finish r)))"

definition ParseAddr :: "string \<Rightarrow> Addr option" where
  "ParseAddr s =
     (case find (\<lambda>c. c \<in> set ''.:%'') s of
        None \<Rightarrow> None
      | Some c \<Rightarrow> if c = CHR ''.'' then parseIPv4 s else if c = CHR '':'' then parseIPv6 s else None)"

text \<open>\<^verbatim>\<open>net.ParseIP\<close> accepts what \<^verbatim>\<open>ParseAddr\<close> accepts, without a zone.\<close>

definition ParseIP :: "string \<Rightarrow> Addr option" where
  "ParseIP s =
     (case ParseAddr s of
        Some (Addr6 w z) \<Rightarrow> if z = [] then Some (Addr6 w z) else None
      | r \<Rightarrow> r)"

section \<open>Printing addresses\<close>

definition string4 :: "u32 \<Rightarrow> string" where
  "string4 w = go_Join ''.'' (map itoa (octets w))"

definition hex_digit :: "int \<Rightarrow> char" where
  "hex_digit n = (if n < 10 then char_of (48 + n) else char_of (87 + n))"

function hex_of :: "int \<Rightarrow> string" where
  "hex_of n = (if n < 16 then [hex_digit n] else hex_of (n div 16) @ [hex_digit (n mod 16)])"
  by pat_completeness auto
termination
  by (relation "measure nat") auto

declare hex_of.simps [simp del]

text \<open>The longest run of at least two zero groups (the first one on a tie): start and length.\<close>

definition zero_run :: "int list \<Rightarrow> nat \<times> nat" where
  "zero_run gs =
     fold (\<lambda>i best. let l = length (takeWhile (\<lambda>g. g = 0) (drop i gs)) in
             if 2 \<le> l \<and> snd best < l then (i, l) else best) [0 ..< length gs] (255, 0)"

definition string6 :: "128 word \<Rightarrow> string" where
  "string6 w =
     (let gs = groups6 w; (z, l) = zero_run gs in
      if l = 0 then go_Join '':'' (map hex_of gs)
      else go_Join '':'' (map hex_of (take z gs)) @ ''::'' @ go_Join '':'' (map hex_of (drop (z + l) gs)))"

fun addr_String :: "Addr \<Rightarrow> string" where
  "addr_String AddrZero = ''invalid IP''"
| "addr_String (Addr4 w) = string4 w"
| "addr_String (Addr6 w z) =
     (if is4In6 w then ''::ffff:'' @ string4 (ucast w) else string6 w)
     @ (if z = [] then [] else CHR ''%'' # z)"

section \<open>Prefixes\<close>

record Prefix =
  pfx_Addr :: Addr
  pfx_Bits :: nat

text \<open>\<^verbatim>\<open>strconv.Atoi\<close> on the bits of a prefix, which start with no sign and no zero.\<close>

definition atoi_plain :: "string \<Rightarrow> int option" where
  "atoi_plain s = (if s \<noteq> [] \<and> list_all dec_digit s then Some (dec_val s) else None)"

definition ParsePrefix :: "string \<Rightarrow> Prefix option" where
  "ParsePrefix s =
     (case LastIndexByte s CHR ''/'' of
        None \<Rightarrow> None
      | Some i \<Rightarrow>
          (case ParseAddr (take i s) of
             None \<Rightarrow> None
           | Some ip \<Rightarrow>
               let zoned = (case ip of Addr6 w z \<Rightarrow> z \<noteq> [] | _ \<Rightarrow> False);
                   bitsStr = drop (i + 1) s;
                   maxBits = (if addr_Is4 ip then 32 else 128)
               in
               if zoned then None
               else if 1 < length bitsStr \<and> \<not> (dec_digit (hd bitsStr) \<and> hd bitsStr \<noteq> CHR ''0'') then None
               else (case atoi_plain bitsStr of
                   None \<Rightarrow> None
                 | Some bits \<Rightarrow> if maxBits < bits then None else Some \<lparr>pfx_Addr = ip, pfx_Bits = nat bits\<rparr>)))"

definition mask_word :: "nat \<Rightarrow> 'a::len word \<Rightarrow> 'a word" where
  "mask_word host w = push_bit host (drop_bit host w)"

definition pfx_Masked :: "Prefix \<Rightarrow> Prefix" where
  "pfx_Masked p =
     (case pfx_Addr p of
        AddrZero \<Rightarrow> p
      | Addr4 w \<Rightarrow> p\<lparr>pfx_Addr := Addr4 (mask_word (32 - pfx_Bits p) w)\<rparr>
      | Addr6 w z \<Rightarrow> p\<lparr>pfx_Addr := Addr6 (mask_word (128 - pfx_Bits p) w) []\<rparr>)"

text \<open>\<^verbatim>\<open>Contains\<close>: same family, no zone, equal leading bits; never the zero address.\<close>

definition pfx_Contains :: "Prefix \<Rightarrow> Addr \<Rightarrow> bool" where
  "pfx_Contains p ip =
     (case (pfx_Addr p, ip) of
        (Addr4 a, Addr4 w) \<Rightarrow> drop_bit (32 - pfx_Bits p) a = drop_bit (32 - pfx_Bits p) w
      | (Addr6 a _, Addr6 w z) \<Rightarrow>
          z = [] \<and> drop_bit (128 - pfx_Bits p) a = drop_bit (128 - pfx_Bits p) w
      | _ \<Rightarrow> False)"

section \<open>Host and port\<close>

text \<open>\<^verbatim>\<open>net.SplitHostPort\<close>; \<open>None\<close> is its error.\<close>

definition SplitHostPort :: "string \<Rightarrow> (string \<times> string) option" where
  "SplitHostPort hp =
     (case LastIndexByte hp CHR '':'' of
        None \<Rightarrow> None
      | Some i \<Rightarrow>
          let port = drop (i + 1) hp in
          if hd hp = CHR ''['' then
            (case IndexByte hp CHR '']'' of
               None \<Rightarrow> None
             | Some e \<Rightarrow>
                 if e + 1 \<noteq> i then None
                 else if CHR ''['' \<in> set (drop 1 hp) \<or> CHR '']'' \<in> set (drop (e + 1) hp) then None
                 else Some (drop 1 (take e hp), port))
          else if CHR '':'' \<in> set (take i hp) \<or> CHR ''['' \<in> set hp \<or> CHR '']'' \<in> set hp then None
          else Some (take i hp, port))"

text \<open>\<^verbatim>\<open>net.JoinHostPort\<close> brackets a host with a colon.\<close>

definition JoinHostPort :: "string \<Rightarrow> string \<Rightarrow> string" where
  "JoinHostPort host port =
     (if CHR '':'' \<in> set host then ''['' @ host @ '']:'' @ port else host @ '':'' @ port)"

end
