(* ===== verification/Go_Duration.thy ===== *)
theory Go_Duration
  imports Supp_Prelude
begin

text \<open>
  Durations as text, and the double-precision arithmetic behind it: the printer and the parser of
  Go's \<^verbatim>\<open>time.Duration\<close>, which the type \<^verbatim>\<open>Duration\<close> of
  \<^verbatim>\<open>src/internal/config/config.go\<close> uses for the configuration file, and the dashboard for the
  uptime and the age of a handshake. A \<^verbatim>\<open>float64\<close> is the rational number it stands for;
  every operation on it rounds to the nearest number of 53 significant bits, ties to even. The
  numbers that occur are neither subnormal nor infinite.
\<close>

section \<open>Doubles\<close>

function bit_length :: "int \<Rightarrow> nat" where
  "bit_length n = (if n \<le> 0 then 0 else Suc (bit_length (n div 2)))"
  by pat_completeness auto
termination
  by (relation "measure nat") auto

declare bit_length.simps [simp del]

text \<open>Rounding a quotient to the nearest integer, halves to even; the nearest double of an integer.\<close>

definition div_even :: "int \<Rightarrow> int \<Rightarrow> int" where
  "div_even a b =
     (let q = a div b; r = a mod b in
      if 2 * r < b \<or> 2 * r = b \<and> even q then q else q + 1)"

definition float64_of :: "int \<Rightarrow> int" where
  "float64_of n =
     (let b = bit_length n - 53 in if b = 0 then n else div_even n (2 ^ b) * 2 ^ b)"

text \<open>
  The nearest double of a positive quotient: \<open>a * 2 ^ k div b\<close> has more than 53 bits, and what
  is above 53 of them is rounded off.
\<close>

definition f64_quot :: "int \<Rightarrow> int \<Rightarrow> rat" where
  "f64_quot a b =
     (let k = 53 + bit_length b; t = bit_length (a * 2 ^ k div b) - 53
      in of_int (div_even (a * 2 ^ k) (b * 2 ^ t)) * 2 ^ t / 2 ^ k)"

definition f64 :: "rat \<Rightarrow> rat" where
  "f64 x = (if x \<le> 0 then 0 else case quotient_of x of (a, b) \<Rightarrow> f64_quot a b)"

section \<open>Printing\<close>

abbreviation (input) Nanosecond :: duration where
  "Nanosecond \<equiv> 1"

abbreviation (input) Microsecond :: duration where
  "Microsecond \<equiv> 1000"

abbreviation (input) Millisecond :: duration where
  "Millisecond \<equiv> 1000000"

abbreviation (input) Minute :: duration where
  "Minute \<equiv> 60000000000"

abbreviation (input) minDuration :: duration where
  "minDuration \<equiv> - 9223372036854775808"

abbreviation (input) maxDuration :: duration where
  "maxDuration \<equiv> 9223372036854775807"

definition digit_char :: "int \<Rightarrow> char" where
  "digit_char d = char_of (48 + d)"

text \<open>
  The buffer is filled from its end: \<open>buf\<close> is what it holds already. \<^verbatim>\<open>fmtFrac\<close> omits trailing
  zeros, and the point when nothing follows it.
\<close>

fun fmtFrac_loop :: "nat \<Rightarrow> bool \<Rightarrow> string \<Rightarrow> int \<Rightarrow> string \<times> bool \<times> int" where
  "fmtFrac_loop 0 pr buf v = (buf, pr, v)"
| "fmtFrac_loop (Suc i) pr buf v =
     (let digit = v mod 10; pr' = (pr \<or> digit \<noteq> 0)
      in fmtFrac_loop i pr' (if pr' then digit_char digit # buf else buf) (v div 10))"

definition fmtFrac :: "string \<Rightarrow> int \<Rightarrow> nat \<Rightarrow> string \<times> int" where
  "fmtFrac buf v prec =
     (case fmtFrac_loop prec False buf v of (buf, pr, v) \<Rightarrow> (if pr then CHR ''.'' # buf else buf, v))"

definition fmtInt :: "string \<Rightarrow> int \<Rightarrow> string" where
  "fmtInt buf v = itoa v @ buf"

definition micro_sign :: string where
  "micro_sign = [CHR 0xC2, CHR 0xB5]"

definition Duration_String :: "duration \<Rightarrow> string" where
  "Duration_String d =
     (let u = \<bar>d\<bar>;
          buf =
            (if u = 0 then ''0s''
             else if u < Microsecond then (let (b, v) = fmtFrac ''ns'' u 0 in fmtInt b v)
             else if u < Millisecond then (let (b, v) = fmtFrac (micro_sign @ ''s'') u 3 in fmtInt b v)
             else if u < Second then (let (b, v) = fmtFrac ''ms'' u 6 in fmtInt b v)
             else
               let (b, v) = fmtFrac ''s'' u 9;
                   b = fmtInt b (v mod 60);
                   v = v div 60
               in if 0 < v then
                    let b = fmtInt (CHR ''m'' # b) (v mod 60);
                        v = v div 60
                    in if 0 < v then fmtInt (CHR ''h'' # b) v else b
                  else b)
      in if d < 0 then CHR ''-'' # buf else buf)"

text \<open>\<^verbatim>\<open>Duration.Round\<close>: half away from zero, saturating.\<close>

definition Duration_Round :: "duration \<Rightarrow> duration \<Rightarrow> duration" where
  "Duration_Round d m =
     (if m \<le> 0 then d
      else
        let r = \<bar>d\<bar> mod m in
        if d < 0 then
          (if r + r < m then d + r else if minDuration \<le> d - m + r then d - m + r else minDuration)
        else
          (if r + r < m then d - r else if d + m - r \<le> maxDuration then d + m - r else maxDuration))"

section \<open>Parsing\<close>

datatype duration_error =
    InvalidDuration string
  | MissingUnit string
  | UnknownUnit string string

definition is_digit :: "char \<Rightarrow> bool" where
  "is_digit c \<longleftrightarrow> (let n = (of_char c :: int) in 48 \<le> n \<and> n \<le> 57)"

definition digit_val :: "char \<Rightarrow> int" where
  "digit_val c = of_char c - 48"

fun leadingInt :: "int \<Rightarrow> string \<Rightarrow> (int \<times> string) option" where
  "leadingInt x [] = Some (x, [])"
| "leadingInt x (c # s) =
     (if \<not> is_digit c then Some (x, c # s)
      else if 2 ^ 63 div 10 < x then None
      else let x = x * 10 + digit_val c in if 2 ^ 63 < x then None else leadingInt x s)"

fun leadingFraction :: "bool \<Rightarrow> int \<Rightarrow> int \<Rightarrow> string \<Rightarrow> int \<times> int \<times> string" where
  "leadingFraction overflow x scale [] = (x, scale, [])"
| "leadingFraction overflow x scale (c # s) =
     (if \<not> is_digit c then (x, scale, c # s)
      else if overflow \<or> (2 ^ 63 - 1) div 10 < x then leadingFraction True x scale s
      else
        let y = x * 10 + digit_val c in
        if 2 ^ 63 < y then leadingFraction True x scale s
        else leadingFraction False y (scale * 10) s)"

text \<open>The micro sign and the Greek letter are both accepted.\<close>

definition unitMap :: "(string \<times> int) list" where
  "unitMap =
     [(''ns'', Nanosecond), (''us'', Microsecond), (micro_sign @ ''s'', Microsecond),
      ([CHR 0xCE, CHR 0xBC] @ ''s'', Microsecond), (''ms'', Millisecond),
      (''s'', Second), (''m'', Minute), (''h'', Hour)]"

definition unit_char :: "char \<Rightarrow> bool" where
  "unit_char c \<longleftrightarrow> c \<noteq> CHR ''.'' \<and> \<not> is_digit c"

text \<open>\<^verbatim>\<open>uint64(float64(f) * (float64(unit) / scale))\<close>; the scale is a power of ten up to \<open>10 ^ 19\<close>, a double.\<close>

definition frac_part :: "int \<Rightarrow> int \<Rightarrow> int \<Rightarrow> int" where
  "frac_part f unit scale = \<lfloor>f64 (of_int (float64_of f) * f64 (of_int unit / of_int scale))\<rfloor>"

text \<open>The part after the integer: fraction, scale, rest and whether there were digits after a point.\<close>

definition parse_frac :: "string \<Rightarrow> int \<times> int \<times> string \<times> bool" where
  "parse_frac s =
     (if s \<noteq> [] \<and> hd s = CHR ''.'' then
        let (f, scale, u) = leadingFraction False 0 1 (tl s) in (f, scale, u, length (tl s) \<noteq> length u)
      else (0, 1, s, False))"

text \<open>The unit, and the number with its unit as nanoseconds.\<close>

definition parse_unit :: "string \<Rightarrow> int \<Rightarrow> int \<Rightarrow> int \<Rightarrow> string \<Rightarrow> duration_error + int \<times> string" where
  "parse_unit orig v f scale s =
     (let u = takeWhile unit_char s in
      if u = [] then Inl (MissingUnit orig)
      else case map_of unitMap u of
        None \<Rightarrow> Inl (UnknownUnit u orig)
      | Some unit \<Rightarrow>
          if 2 ^ 63 div unit < v then Inl (InvalidDuration orig)
          else
            let v = v * unit; v = (if 0 < f then v + frac_part f unit scale else v)
            in if 0 < f \<and> 2 ^ 63 < v then Inl (InvalidDuration orig)
               else Inr (v, dropWhile unit_char s))"

text \<open>One round of the loop, on a text that is not empty.\<close>

definition parse_step :: "string \<Rightarrow> string \<Rightarrow> duration_error + int \<times> string" where
  "parse_step orig s =
     (if \<not> (hd s = CHR ''.'' \<or> is_digit (hd s)) then Inl (InvalidDuration orig)
      else case leadingInt 0 s of
        None \<Rightarrow> Inl (InvalidDuration orig)
      | Some (v, s1) \<Rightarrow>
          let pre = (length s \<noteq> length s1); (f, scale, s2, post) = parse_frac s1
          in if \<not> pre \<and> \<not> post then Inl (InvalidDuration orig) else parse_unit orig v f scale s2)"

text \<open>Every round consumes text, so the loop ends.\<close>

lemma leadingInt_length: "leadingInt x s = Some (v, t) \<Longrightarrow> length t \<le> length s"
  by (induction x s rule: leadingInt.induct) (auto simp: Let_def split: if_splits)

lemma leadingFraction_length: "leadingFraction w x sc s = (f, sc', t) \<Longrightarrow> length t \<le> length s"
  by (induction w x sc s rule: leadingFraction.induct) (auto simp: Let_def split: if_splits)

lemma length_dropWhile_less: "takeWhile P s \<noteq> [] \<Longrightarrow> length (dropWhile P s) < length s"
  by (induction s) (auto simp: le_imp_less_Suc length_dropWhile_le split: if_splits)

lemma parse_frac_length: "parse_frac s = (f, scale, t, post) \<Longrightarrow> length t \<le> length s"
  using leadingFraction_length [of False 0 1 "tl s"]
  by (cases s) (auto simp: parse_frac_def Let_def split: if_splits prod.splits intro: le_SucI)

lemma parse_unit_shorter: "parse_unit orig v f scale s = Inr (w, t) \<Longrightarrow> length t < length s"
  using length_dropWhile_less [of unit_char s]
  by (auto simp: parse_unit_def Let_def split: if_splits option.splits)

lemma parse_step_shorter:
  assumes "parse_step orig s = Inr (v, t)"
  shows "length t < length s"
proof -
  obtain w s1 where w: "leadingInt 0 s = Some (w, s1)"
    using assms by (auto simp: parse_step_def split: if_splits option.splits)
  obtain f scale s2 post where q: "parse_frac s1 = (f, scale, s2, post)" by (cases "parse_frac s1")
  have "parse_unit orig w f scale s2 = Inr (v, t)"
    using assms w q by (simp add: parse_step_def Let_def split: if_splits)
  then have "length t < length s2" by (rule parse_unit_shorter)
  also have "\<dots> \<le> length s" using parse_frac_length [OF q] leadingInt_length [OF w] by simp
  finally show ?thesis .
qed

function parse_loop :: "string \<Rightarrow> int \<Rightarrow> string \<Rightarrow> duration_error + int" where
  "parse_loop orig d s =
     (if s = [] then Inr d
      else case parse_step orig s of
        Inl e \<Rightarrow> Inl e
      | Inr (v, s') \<Rightarrow>
          if 2 ^ 63 < (d + v) mod 2 ^ 64 then Inl (InvalidDuration orig)
          else parse_loop orig ((d + v) mod 2 ^ 64) s')"
  by pat_completeness auto
termination
  by (relation "measure (\<lambda>(_, _, s). length s)") (auto intro: parse_step_shorter)

declare parse_loop.simps [simp del]

definition ParseDuration :: "string \<Rightarrow> duration_error + duration" where
  "ParseDuration orig =
     (let neg = (case orig of c # _ \<Rightarrow> c = CHR ''-'' | [] \<Rightarrow> False);
          s = (case orig of c # t \<Rightarrow> if c = CHR ''-'' \<or> c = CHR ''+'' then t else orig | [] \<Rightarrow> [])
      in if s = ''0'' then Inr 0
         else if s = [] then Inl (InvalidDuration orig)
         else case parse_loop orig 0 s of
           Inl e \<Rightarrow> Inl e
         | Inr d \<Rightarrow>
             if neg then Inr (- d)
             else if 2 ^ 63 - 1 < d then Inl (InvalidDuration orig)
             else Inr d)"

section \<open>The configuration's durations\<close>

text \<open>\<^verbatim>\<open>UnmarshalText\<close> leaves the value alone on an error; \<^verbatim>\<open>MarshalText\<close> never fails.\<close>

definition UnmarshalText :: "duration \<Rightarrow> bytes \<Rightarrow> duration_error option \<times> duration" where
  "UnmarshalText d b =
     (case ParseDuration b of Inl err \<Rightarrow> (Some err, d) | Inr v \<Rightarrow> (None, v))"

definition MarshalText :: "duration \<Rightarrow> bytes" where
  "MarshalText d = Duration_String d"

section \<open>Doubles are exact on small integers\<close>

lemma bit_length_bound: "0 \<le> n \<Longrightarrow> n < 2 ^ bit_length n"
proof (induction n rule: bit_length.induct)
  case (1 n)
  then show ?case by (cases "n = 0") (auto simp: bit_length.simps [of n])
qed

lemma bit_length_le: "n < 2 ^ k \<Longrightarrow> bit_length n \<le> k"
proof (induction k arbitrary: n)
  case (Suc k)
  then have "n div 2 < 2 ^ k" by simp
  with Suc.IH show ?case by (simp add: bit_length.simps [of n])
qed (simp add: bit_length.simps)

lemma bit_length_shift: "0 < n \<Longrightarrow> bit_length (n * 2 ^ k) = bit_length n + k"
proof (induction k)
  case (Suc k)
  have "n * (2 * 2 ^ k) div 2 = n * 2 ^ k" by simp
  moreover have "\<not> n * (2 * 2 ^ k) \<le> 0" using Suc.prems by (simp add: mult_le_0_iff)
  ultimately show ?case using Suc by (simp add: bit_length.simps [of "n * (2 * 2 ^ k)"])
qed simp

lemma float64_of_small: "n < 2 ^ 53 \<Longrightarrow> float64_of n = n"
  using bit_length_le [of n 53] by (simp add: float64_of_def)

lemma div_even_exact: "0 < b \<Longrightarrow> div_even (q * b) b = q"
  by (simp add: div_even_def)

lemma f64_int:
  assumes "0 \<le> n" and "n < 2 ^ 53"
  shows "f64 (of_int n) = of_int n"
proof (cases "n = 0")
  case False
  define k where "k = 53 + bit_length 1"
  define t where "t = bit_length (n * 2 ^ k) - 53"
  have "bit_length n \<le> 53" using assms bit_length_le by simp
  then have "t \<le> k" using False assms by (simp add: t_def bit_length_shift)
  then have split: "n * 2 ^ k = (n * 2 ^ (k - t)) * 2 ^ t"
    by (simp add: mult.assoc flip: power_add)
  have "f64 (of_int n) = of_int (div_even (n * 2 ^ k) (2 ^ t)) * 2 ^ t / 2 ^ k"
    using False assms by (simp add: f64_def f64_quot_def Let_def k_def t_def)
  also have "\<dots> = of_int ((n * 2 ^ (k - t)) * 2 ^ t) / 2 ^ k"
    by (subst split) (simp add: div_even_exact)
  also have "\<dots> = of_int n" by (simp flip: split)
  finally show ?thesis .
qed (simp add: f64_def)

lemma frac_part_exact:
  assumes "0 \<le> f" and "0 \<le> q" and "f < 2 ^ 53" and "q < 2 ^ 53" and "f * q < 2 ^ 53" and "0 < scale"
  shows "frac_part f (q * scale) scale = f * q"
proof -
  have "f64 (of_int (q * scale) / of_int scale) = (of_int q :: rat)"
    using assms f64_int [of q] by simp
  then show ?thesis
    using assms f64_int [of "f * q"] by (simp add: frac_part_def float64_of_small flip: of_int_mult)
qed

section \<open>Numbers as digits\<close>

definition dec_val :: "int \<Rightarrow> string \<Rightarrow> int" where
  "dec_val x ds = fold (\<lambda>c x. x * 10 + digit_val c) ds x"

lemma dec_val_simps [simp]:
  "dec_val x [] = x" "dec_val x (c # ds) = dec_val (x * 10 + digit_val c) ds"
  "dec_val x (as @ bs) = dec_val (dec_val x as) bs"
  by (simp_all add: dec_val_def)

lemma dec_val_acc: "dec_val x ds = x * 10 ^ length ds + dec_val 0 ds"
proof (induction ds arbitrary: x)
  case (Cons c ds)
  show ?case
    using Cons.IH [of "x * 10 + digit_val c"] Cons.IH [of "digit_val c"] by (simp add: algebra_simps)
qed simp

lemma digit_char_is: "0 \<le> d \<Longrightarrow> d < 10 \<Longrightarrow> is_digit (digit_char d) \<and> digit_val (digit_char d) = d"
  by (simp add: is_digit_def digit_val_def digit_char_def Let_def)

lemma digit_val_nonneg: "is_digit c \<Longrightarrow> 0 \<le> digit_val c"
  by (simp add: is_digit_def digit_val_def Let_def)

lemma dec_val_mono: "list_all is_digit ds \<Longrightarrow> 0 \<le> x \<Longrightarrow> x \<le> dec_val x ds"
proof (induction ds arbitrary: x)
  case (Cons c ds)
  then have "0 \<le> digit_val c" by (simp add: digit_val_nonneg)
  with Cons.IH [of "x * 10 + digit_val c"] Cons.prems show ?case by simp
qed simp

lemma itoa_digits: "0 \<le> n \<Longrightarrow> list_all is_digit (itoa n) \<and> itoa n \<noteq> [] \<and> dec_val 0 (itoa n) = n"
proof (induction n rule: itoa_pos.induct)
  case (1 n)
  show ?case
  proof (cases "n < 10")
    case True
    then show ?thesis
      using 1 digit_char_is [of n] by (simp add: itoa_def itoa_pos.simps [of n] flip: digit_char_def)
  next
    case False
    moreover have "itoa n = itoa (n div 10) @ [digit_char (n mod 10)]"
      using False by (simp add: itoa_def itoa_pos.simps [of n] digit_char_def)
    ultimately show ?thesis
      using 1 digit_char_is [of "n mod 10"] by simp
  qed
qed

definition stops :: "string \<Rightarrow> bool" where
  "stops s \<longleftrightarrow> (case s of [] \<Rightarrow> True | c # _ \<Rightarrow> \<not> is_digit c)"

lemma leadingInt_digits:
  assumes "list_all is_digit ds" and "0 \<le> x" and "dec_val x ds \<le> 2 ^ 63" and "stops rest"
  shows "leadingInt x (ds @ rest) = Some (dec_val x ds, rest)"
  using assms
proof (induction ds arbitrary: x)
  case Nil
  then show ?case by (cases rest) (simp_all add: stops_def)
next
  case (Cons c ds)
  then have d: "0 \<le> digit_val c" by (simp add: digit_val_nonneg)
  have "x * 10 + digit_val c \<le> 2 ^ 63"
    using dec_val_mono [of ds "x * 10 + digit_val c"] Cons.prems d by simp
  with Cons d show ?case by (simp add: Let_def)
qed

lemma leadingFraction_digits:
  assumes "list_all is_digit ds" and "0 \<le> x" and "dec_val x ds < 2 ^ 63" and "stops rest"
  shows "leadingFraction False x scale (ds @ rest) = (dec_val x ds, scale * 10 ^ length ds, rest)"
  using assms
proof (induction ds arbitrary: x scale)
  case Nil
  then show ?case by (cases rest) (simp_all add: stops_def)
next
  case (Cons c ds)
  then have d: "0 \<le> digit_val c" by (simp add: digit_val_nonneg)
  have "x * 10 + digit_val c < 2 ^ 63"
    using dec_val_mono [of ds "x * 10 + digit_val c"] Cons.prems d by simp
  with Cons d show ?case by (simp add: Let_def)
qed

section \<open>The round trip\<close>

text \<open>What \<^verbatim>\<open>fmtFrac\<close> puts before the unit: nothing, or a point and digits without a trailing zero.\<close>

definition frac_text :: "nat \<Rightarrow> int \<Rightarrow> string \<Rightarrow> bool" where
  "frac_text p r ds \<longleftrightarrow>
     list_all is_digit ds \<and> length ds \<le> p \<and> dec_val 0 ds * 10 ^ (p - length ds) = r"

lemma fmtFrac_loop_spec:
  assumes "0 \<le> v"
  shows "\<exists>ds. fmtFrac_loop p pr buf v = (ds @ buf, pr \<or> v mod 10 ^ p \<noteq> 0, v div 10 ^ p) \<and>
    frac_text p (v mod 10 ^ p) ds \<and> (pr \<longrightarrow> length ds = p) \<and> (\<not> pr \<and> v mod 10 ^ p = 0 \<longrightarrow> ds = [])"
  using assms
proof (induction p arbitrary: pr buf v)
  case 0
  then show ?case by (simp add: frac_text_def)
next
  case (Suc p)
  define g pr' where "g = v mod 10" and "pr' = (pr \<or> g \<noteq> 0)"
  define buf' where "buf' = (if pr' then digit_char g # buf else buf)"
  have low: "v mod 10 ^ Suc p = (v div 10) mod 10 ^ p * 10 + g"
    using zmod_zmult2_eq [of "10 ^ p" v 10] by (simp add: g_def)
  have g: "0 \<le> g" "g < 10" by (simp_all add: g_def)
  then have z: "(v mod 10 ^ Suc p = 0) = ((v div 10) mod 10 ^ p = 0 \<and> g = 0)"
    using low by (smt (verit) pos_mod_sign zero_less_power)
  obtain ds where ds: "fmtFrac_loop p pr' buf' (v div 10) = (ds @ buf', pr' \<or> (v div 10) mod 10 ^ p \<noteq> 0, v div 10 div 10 ^ p)"
    "frac_text p ((v div 10) mod 10 ^ p) ds" "pr' \<longrightarrow> length ds = p" "\<not> pr' \<and> (v div 10) mod 10 ^ p = 0 \<longrightarrow> ds = []"
    using Suc.IH [of "v div 10" pr' buf'] Suc.prems by (metis div_int_pos_iff zero_le_numeral)
  define es where "es = (if pr' then ds @ [digit_char g] else ds)"
  have "frac_text (Suc p) (v mod 10 ^ Suc p) es"
    using ds(2,3) g digit_char_is [OF g] low
    by (auto simp: frac_text_def es_def pr'_def Suc_diff_le algebra_simps)
  moreover have "fmtFrac_loop (Suc p) pr buf v = (es @ buf, pr \<or> v mod 10 ^ Suc p \<noteq> 0, v div 10 ^ Suc p)"
    using ds(1) z Suc.prems
    by (auto simp: Let_def es_def buf'_def pr'_def simp flip: g_def zdiv_zmult2_eq)
  moreover have "(pr \<longrightarrow> length es = Suc p)" "\<not> pr \<and> v mod 10 ^ Suc p = 0 \<longrightarrow> es = []"
    using ds(3,4) z by (auto simp: es_def pr'_def)
  ultimately show ?case by blast
qed

lemma fmtFrac_spec:
  assumes "0 \<le> v"
  shows "\<exists>ds. frac_text p (v mod 10 ^ p) ds \<and> (v mod 10 ^ p = 0 \<longleftrightarrow> ds = []) \<and>
    fmtFrac buf v p = ((if ds = [] then buf else CHR ''.'' # ds @ buf), v div 10 ^ p)"
proof -
  obtain ds where ds: "fmtFrac_loop p False buf v = (ds @ buf, False \<or> v mod 10 ^ p \<noteq> 0, v div 10 ^ p)"
    "frac_text p (v mod 10 ^ p) ds" "\<not> False \<and> v mod 10 ^ p = 0 \<longrightarrow> ds = []"
    using fmtFrac_loop_spec [OF assms, of p False buf] by blast
  moreover from ds(2) have "ds = [] \<longrightarrow> v mod 10 ^ p = 0" unfolding frac_text_def by (metis dec_val_simps(1) mult_zero_left)
  ultimately have "fmtFrac buf v p = ((if ds = [] then buf else CHR ''.'' # ds @ buf), v div 10 ^ p)"
    by (cases "ds = []") (simp_all add: fmtFrac_def)
  moreover have "v mod 10 ^ p = 0 \<longleftrightarrow> ds = []"
    using ds(3) \<open>ds = [] \<longrightarrow> v mod 10 ^ p = 0\<close> by argo
  ultimately show ?thesis using ds(2) by (intro exI [of _ ds]) (rule conjI [OF _ conjI])
qed

definition unit_word :: "string \<Rightarrow> bool" where
  "unit_word u \<longleftrightarrow> u \<noteq> [] \<and> list_all unit_char u"

lemma unit_word_stops: "unit_word u \<Longrightarrow> stops (u @ rest)"
  by (cases u) (simp_all add: unit_word_def stops_def unit_char_def)

text \<open>One printed component is read back as its nanoseconds.\<close>

lemma parse_step_itoa:
  assumes "0 \<le> v" and "v \<le> 2 ^ 63" and "stops rest"
  shows "parse_step orig (itoa v @ rest) = (case parse_frac rest of (f, scale, t, _) \<Rightarrow> parse_unit orig v f scale t)"
proof -
  have dig: "list_all is_digit (itoa v)" "itoa v \<noteq> []" "dec_val 0 (itoa v) = v" using itoa_digits [OF assms(1)] by auto
  then have "leadingInt 0 (itoa v @ rest) = Some (v, rest)"
    using leadingInt_digits [of "itoa v" 0 rest] assms by simp
  moreover have "is_digit (hd (itoa v @ rest))" using dig by (cases "itoa v") auto
  ultimately show ?thesis using dig(2) by (simp add: parse_step_def split: prod.splits)
qed

lemma parse_unit_word:
  assumes "unit_word u" and "map_of unitMap u = Some unit" and "0 < unit" and "takeWhile unit_char rest = []"
    and "0 \<le> v" and "v * unit \<le> 2 ^ 63"
  shows "parse_unit orig v f scale (u @ rest) =
    (let w = (if 0 < f then v * unit + frac_part f unit scale else v * unit)
     in if 0 < f \<and> 2 ^ 63 < w then Inl (InvalidDuration orig) else Inr (w, rest))"
proof -
  have "v \<le> 2 ^ 63 div unit" using zdiv_mono1 [OF assms(6,3)] assms(3) by simp
  moreover have "u \<noteq> []" "takeWhile unit_char (u @ rest) = u" "dropWhile unit_char (u @ rest) = rest"
    using assms(1,4)
    by (auto simp: unit_word_def list_all_iff takeWhile_append dropWhile_append takeWhile_eq_Nil_iff dropWhile_eq_self_iff)
  ultimately show ?thesis using assms(2) by (simp add: parse_unit_def Let_def)
qed

lemma parse_step_component:
  assumes u: "unit_word u" "map_of unitMap u = Some unit" and rest: "takeWhile unit_char rest = []"
    and v: "0 \<le> v" "v * unit + r \<le> 2 ^ 63" and ds: "frac_text p r ds" "r = 0 \<longleftrightarrow> ds = []" "0 \<le> r" "r < 10 ^ p"
    and p: "p \<le> 9" "0 < unit" "unit = 10 ^ p \<or> ds = []"
  shows "parse_step orig (itoa v @ (if ds = [] then u @ rest else CHR ''.'' # ds @ u @ rest)) = Inr (v * unit + r, rest)"
proof -
  have "v * 1 \<le> v * unit" using v(1) p(2) by (intro mult_left_mono) auto
  then have v63: "v \<le> 2 ^ 63" "v * unit \<le> 2 ^ 63" using v ds(3) by auto
  note stop = unit_word_stops [OF u(1), of rest]
  show ?thesis
  proof (cases "ds = []")
    case True
    have "parse_frac (u @ rest) = (0, 1, u @ rest, False)"
      using u(1) by (cases u) (auto simp: parse_frac_def unit_word_def unit_char_def)
    with True show ?thesis
      using parse_step_itoa [OF v(1) v63(1) stop] parse_unit_word [OF u p(2) rest v(1) v63(2)] ds(2) by (simp add: Let_def)
  next
    case False
    let ?k = "length ds"
    have r: "list_all is_digit ds" "?k \<le> p" "dec_val 0 ds * 10 ^ (p - ?k) = r" using ds(1) by (auto simp: frac_text_def)
    have f: "0 \<le> dec_val 0 ds" using dec_val_mono [OF r(1), of 0] by simp
    have "(10 :: int) ^ (p - ?k) \<le> 10 ^ 9" using p(1) by (intro power_increasing) auto
    moreover have "dec_val 0 ds * 1 \<le> dec_val 0 ds * 10 ^ (p - ?k)" using f by (intro mult_left_mono) auto
    moreover have "(10 :: int) ^ p \<le> 10 ^ 9" using p(1) by (intro power_increasing) auto
    ultimately have small: "dec_val 0 ds < 2 ^ 53" "(10 :: int) ^ (p - ?k) < 2 ^ 53" "r < 2 ^ 53" using r(3) ds(4) by auto
    have "parse_frac (CHR ''.'' # ds @ u @ rest) = (dec_val 0 ds, 10 ^ ?k, u @ rest, True)"
      using leadingFraction_digits [OF r(1), of 0 "u @ rest" 1] small(1) stop False by (simp add: parse_frac_def)
    moreover have "(10 :: int) ^ p = 10 ^ (p - ?k) * 10 ^ ?k" using r(2) by (simp flip: power_add)
    then have "frac_part (dec_val 0 ds) unit (10 ^ ?k) = r"
      using frac_part_exact [OF f _ small(1,2), of "10 ^ ?k"] small(3) r(3) p(3) False by simp
    moreover have "0 < dec_val 0 ds" using f r(3) ds(2) False by (cases "dec_val 0 ds = 0") auto
    moreover have "stops (CHR ''.'' # ds @ u @ rest)" by (simp add: stops_def is_digit_def)
    ultimately show ?thesis
      using parse_step_itoa [OF v(1) v63(1)] parse_unit_word [OF u p(2) rest v(1) v63(2)] v(2) False by (simp add: Let_def)
  qed
qed

lemma parse_loop_step:
  assumes "parse_step orig s = Inr (w, t)" and "0 \<le> d" and "0 \<le> w" and "d + w \<le> 2 ^ 63"
  shows "parse_loop orig d s = parse_loop orig (d + w) t"
proof -
  have "s \<noteq> []" using parse_step_shorter [OF assms(1)] by auto
  moreover have "(d + w) mod 2 ^ 64 = d + w" using assms by (intro mod_pos_pos_trivial) auto
  ultimately show ?thesis using assms by (simp add: parse_loop.simps [of orig d s])
qed

lemma takeWhile_unit_itoa: "0 \<le> v \<Longrightarrow> takeWhile unit_char (itoa v @ rest) = []"
  using itoa_digits [of v] by (cases "itoa v") (auto simp: unit_char_def)

lemma units:
  "unit_word ''ns'' \<and> map_of unitMap ''ns'' = Some 1"
  "unit_word (micro_sign @ ''s'') \<and> map_of unitMap (micro_sign @ ''s'') = Some (10 ^ 3)"
  "unit_word ''ms'' \<and> map_of unitMap ''ms'' = Some (10 ^ 6)"
  "unit_word ''s'' \<and> map_of unitMap ''s'' = Some (10 ^ 9)"
  "unit_word ''m'' \<and> map_of unitMap ''m'' = Some 60000000000"
  "unit_word ''h'' \<and> map_of unitMap ''h'' = Some 3600000000000"
  by (simp_all add: unit_word_def unit_char_def unitMap_def is_digit_def micro_sign_def)

text \<open>A last component, with its fraction, and a whole component followed by others.\<close>

lemma parse_loop_last:
  assumes u: "unit_word u" "map_of unitMap u = Some (10 ^ p)" and p: "p \<le> 9" and v: "0 \<le> v" "0 \<le> d"
    and w: "0 \<le> w" "d + (w * 10 ^ p + v mod 10 ^ p) \<le> 2 ^ 63"
  shows "parse_loop orig d (fmtInt (fst (fmtFrac u v p)) w) = Inr (d + (w * 10 ^ p + v mod 10 ^ p))"
proof -
  obtain ds where ds: "frac_text p (v mod 10 ^ p) ds" "v mod 10 ^ p = 0 \<longleftrightarrow> ds = []"
    and f: "fmtFrac u v p = ((if ds = [] then u else CHR ''.'' # ds @ u), v div 10 ^ p)"
    using fmtFrac_spec [OF v(1)] by blast
  have "parse_step orig (itoa w @ (if ds = [] then u @ [] else CHR ''.'' # ds @ u @ [])) = Inr (w * 10 ^ p + v mod 10 ^ p, [])"
    using parse_step_component [OF u, of "[]" w "v mod 10 ^ p" p ds orig] ds v(2) w p by simp
  then show ?thesis
    using parse_loop_step [of orig _ "w * 10 ^ p + v mod 10 ^ p" "[]" d] v w f
    by (simp add: fmtInt_def parse_loop.simps [of orig _ "[]"] split: if_splits)
qed

lemma snd_fmtFrac: "0 \<le> v \<Longrightarrow> snd (fmtFrac u v p) = v div 10 ^ p"
  using fmtFrac_spec [of v p u] by auto

lemma parse_loop_single:
  assumes "unit_word u" and "map_of unitMap u = Some (10 ^ p)" and "p \<le> 9" and "0 \<le> v" and "v \<le> 2 ^ 63"
  shows "parse_loop orig 0 (case fmtFrac u v p of (b, w) \<Rightarrow> fmtInt b w) = Inr v"
  using parse_loop_last [OF assms(1-4), of 0 "v div 10 ^ p" orig] snd_fmtFrac [OF assms(4), of u p] assms(4,5)
  by (simp add: case_prod_beta pos_imp_zdiv_nonneg_iff div_mult_mod_eq)

lemma parse_loop_whole:
  assumes u: "unit_word u" "map_of unitMap u = Some unit" "0 < unit" and rest: "takeWhile unit_char rest = []"
    and v: "0 \<le> v" "0 \<le> d" "d + v * unit \<le> 2 ^ 63"
  shows "parse_loop orig d (fmtInt (u @ rest) v) = parse_loop orig (d + v * unit) rest"
proof -
  have "0 \<le> v * unit" using v(1) u(3) by simp
  moreover from this have "parse_step orig (itoa v @ u @ rest) = Inr (v * unit, rest)"
    using parse_step_component [OF u(1,2) rest v(1), of 0 0 "[]" orig] u(3) v by (simp add: frac_text_def)
  ultimately show ?thesis
    using parse_loop_step [of orig _ "v * unit" rest d] v by (simp add: fmtInt_def)
qed

text \<open>The printed text without its sign.\<close>

definition unsigned_text :: "int \<Rightarrow> string" where
  "unsigned_text u = Duration_String \<bar>u\<bar>"

lemma Duration_String_sign: "Duration_String d = (if d < 0 then CHR ''-'' # unsigned_text d else unsigned_text d)"
  by (simp add: unsigned_text_def Duration_String_def Let_def)

lemma fmtInt_starts: "0 \<le> v \<Longrightarrow> \<exists>c s. fmtInt b v = c # s \<and> is_digit c"
  using itoa_digits [of v] by (cases "itoa v") (auto simp: fmtInt_def)

lemma parse_loop_clock:
  assumes "0 \<le> u" and "u \<le> 2 ^ 63" and "v = u div 10 ^ 9"
  defines "b \<equiv> fmtInt (fst (fmtFrac ''s'' u 9)) (v mod 60)"
  defines "hm \<equiv> fmtInt (CHR ''m'' # b) (v div 60 mod 60)"
  shows "v div 60 = 0 \<Longrightarrow> parse_loop orig 0 b = Inr u"
    and "v div 60 div 60 = 0 \<Longrightarrow> parse_loop orig 0 hm = Inr u"
    and "parse_loop orig 0 (fmtInt (CHR ''h'' # hm) (v div 60 div 60)) = Inr u"
proof -
  define h m sec r where "h = v div 60 div 60" and "m = v div 60 mod 60" and "sec = v mod 60" and "r = u mod 10 ^ 9"
  have v: "v = h * 3600 + m * 60 + sec" unfolding h_def m_def sec_def by presburger
  have u: "u = h * 3600000000000 + m * 60000000000 + (sec * 10 ^ 9 + r)"
  proof -
    have "u = v * 10 ^ 9 + r" using assms(3) by (simp add: r_def div_mult_mod_eq)
    then show ?thesis unfolding v by (simp add: algebra_simps)
  qed
  have nn: "0 \<le> h" "0 \<le> m" "0 \<le> sec" "0 \<le> r"
    using assms(1,3) by (simp_all add: h_def m_def sec_def r_def pos_imp_zdiv_nonneg_iff)
  have b: "0 \<le> d \<Longrightarrow> d + (sec * 10 ^ 9 + r) \<le> 2 ^ 63 \<Longrightarrow> parse_loop orig d b = Inr (d + (sec * 10 ^ 9 + r))" for d
    using parse_loop_last [of "''s''" 9 u d sec orig] units(4) assms(1) nn by (simp add: b_def r_def sec_def)
  have tw: "takeWhile unit_char b = []" "takeWhile unit_char hm = []"
    using nn by (simp_all add: b_def hm_def fmtInt_def takeWhile_unit_itoa flip: m_def sec_def)
  have hm: "0 \<le> d \<Longrightarrow> d + (m * 60000000000 + (sec * 10 ^ 9 + r)) \<le> 2 ^ 63 \<Longrightarrow>
      parse_loop orig d hm = Inr (d + (m * 60000000000 + (sec * 10 ^ 9 + r)))" for d
    using parse_loop_whole [of "''m''" 60000000000 b m d orig] units(5) tw(1) nn b [of "d + m * 60000000000"]
    by (simp add: hm_def algebra_simps flip: m_def)
  show "v div 60 = 0 \<Longrightarrow> parse_loop orig 0 b = Inr u"
    using b [of 0] u assms(2) by (simp add: h_def m_def)
  show "v div 60 div 60 = 0 \<Longrightarrow> parse_loop orig 0 hm = Inr u"
    using hm [of 0] u assms(2) by (simp add: h_def)
  show "parse_loop orig 0 (fmtInt (CHR ''h'' # hm) (v div 60 div 60)) = Inr u"
    using parse_loop_whole [of "''h''" 3600000000000 hm h 0 orig] units(6) tw(2) nn u assms(2) hm [of "h * 3600000000000"]
    by (simp add: algebra_simps flip: h_def)
qed

lemma unsigned_text_cases:
  assumes "0 < u"
  obtains p w where "unsigned_text u = (case fmtFrac w u p of (b, v) \<Rightarrow> fmtInt b v)" "unit_word w" "map_of unitMap w = Some (10 ^ p)" "p \<le> 9"
  | "u div 10 ^ 9 div 60 = 0" "unsigned_text u = fmtInt (fst (fmtFrac ''s'' u 9)) (u div 10 ^ 9 mod 60)"
  | "u div 10 ^ 9 div 60 div 60 = 0"
    "unsigned_text u = fmtInt (CHR ''m'' # fmtInt (fst (fmtFrac ''s'' u 9)) (u div 10 ^ 9 mod 60)) (u div 10 ^ 9 div 60 mod 60)"
  | "unsigned_text u = fmtInt (CHR ''h'' # fmtInt (CHR ''m'' # fmtInt (fst (fmtFrac ''s'' u 9)) (u div 10 ^ 9 mod 60))
      (u div 10 ^ 9 div 60 mod 60)) (u div 10 ^ 9 div 60 div 60)"
proof -
  note text_def = unsigned_text_def Duration_String_def Let_def case_prod_beta
  consider "u < Microsecond" | "Microsecond \<le> u" "u < Millisecond" | "Millisecond \<le> u" "u < Second" | "Second \<le> u"
    by linarith
  then show ?thesis
  proof cases
    case 1
    with assms have "unsigned_text u = (case fmtFrac ''ns'' u 0 of (b, v) \<Rightarrow> fmtInt b v)" by (simp add: text_def)
    then show ?thesis using that(1) [of "''ns''" 0] units(1) by simp
  next
    case 2
    with assms have "unsigned_text u = (case fmtFrac (micro_sign @ ''s'') u 3 of (b, v) \<Rightarrow> fmtInt b v)" by (simp add: text_def)
    then show ?thesis using that(1) [of "micro_sign @ ''s''" 3] units(2) by simp
  next
    case 3
    with assms have "unsigned_text u = (case fmtFrac ''ms'' u 6 of (b, v) \<Rightarrow> fmtInt b v)" by (simp add: text_def)
    then show ?thesis using that(1) [of "''ms''" 6] units(3) by simp
  next
    case 4
    define v where "v = u div 10 ^ 9"
    have nn: "0 \<le> v div 60" "0 \<le> v div 60 div 60" using assms by (simp_all add: v_def pos_imp_zdiv_nonneg_iff)
    have "snd (fmtFrac ''s'' u 9) = v" using snd_fmtFrac [of u "''s''" 9] assms by (simp add: v_def)
    with 4 assms have t: "unsigned_text u =
       (let b = fmtInt (fst (fmtFrac ''s'' u 9)) (v mod 60); hm = fmtInt (CHR ''m'' # b) (v div 60 mod 60) in
        if 0 < v div 60 then if 0 < v div 60 div 60 then fmtInt (CHR ''h'' # hm) (v div 60 div 60) else hm else b)"
      by (simp only: text_def) simp
    consider "v div 60 = 0" | "0 < v div 60" "v div 60 div 60 = 0" | "0 < v div 60" "0 < v div 60 div 60" using nn by linarith
    then show ?thesis using that(2-4) t by cases (simp_all only: Let_def v_def if_True if_False less_irrefl)
  qed
qed

lemma parse_loop_text:
  assumes "0 < u" and "u \<le> 2 ^ 63"
  shows "parse_loop orig 0 (unsigned_text u) = Inr u"
  using assms(1)
proof (cases rule: unsigned_text_cases)
  case (1 p w)
  then show ?thesis using parse_loop_single [of w p u orig] assms by simp
qed (use parse_loop_clock [of u "u div 10 ^ 9" orig] assms in auto)

lemma unsigned_text_starts:
  assumes "0 < u"
  shows "\<exists>c s. unsigned_text u = c # s \<and> is_digit c"
  using assms
proof (cases rule: unsigned_text_cases)
  case (1 p w)
  then show ?thesis using fmtInt_starts [of "u div 10 ^ p"] snd_fmtFrac [of u w p] assms
    by (simp add: case_prod_beta pos_imp_zdiv_nonneg_iff)
qed (use fmtInt_starts assms in \<open>simp_all add: pos_imp_zdiv_nonneg_iff\<close>)

text \<open>
  C40: The durations of the configuration survive saving and loading: the text that is written for
  any 64-bit duration, with its hours, minutes, seconds or smaller units, its fraction and its
  sign, is parsed without an error to exactly that duration, also at the extreme values, where the
  parser's overflow tests are hit, and although fractions are computed in floating point.
\<close>
theorem duration_text_roundtrip:
  assumes "minDuration \<le> d" and "d \<le> maxDuration"
  shows "UnmarshalText d0 (MarshalText d) = (None, d)"
proof (cases "d = 0")
  case True
  then show ?thesis by (simp add: UnmarshalText_def MarshalText_def) code_simp
next
  case False
  then have u: "0 < \<bar>d\<bar>" "\<bar>d\<bar> \<le> 2 ^ 63" using assms by auto
  obtain c s where c: "unsigned_text d = c # s" "is_digit c"
    using unsigned_text_starts [OF u(1)] by (auto simp: unsigned_text_def)
  then have sign: "c \<noteq> CHR ''-''" "c \<noteq> CHR ''+''" by (auto simp: is_digit_def)
  have loop: "parse_loop orig 0 (unsigned_text d) = Inr \<bar>d\<bar>" for orig
    using parse_loop_text [OF u] by (simp add: unsigned_text_def)
  moreover have "unsigned_text d \<noteq> ''0''"
  proof
    assume "unsigned_text d = ''0''"
    then have "parse_loop [] 0 ''0'' = Inr \<bar>d\<bar>" using loop [of "[]"] by simp
    moreover have "parse_loop [] 0 ''0'' = Inl (MissingUnit [])" by code_simp
    ultimately show False by simp
  qed
  ultimately show ?thesis
    using c sign assms
    by (auto simp: UnmarshalText_def MarshalText_def ParseDuration_def Duration_String_sign Let_def)
qed

theorem duration_text_roundtrip_witness:
  "UnmarshalText 0 (MarshalText (24 * Hour + 1500000)) = (None, 24 * Hour + 1500000)"
  by (rule duration_text_roundtrip) simp_all

end
