(* ===== verification/Supp_Config.thy ===== *)
theory Supp_Config
  imports Netip Go_Duration
begin

text \<open>
  The configuration file, \<^verbatim>\<open>src/internal/config/config.go\<close>: its sections, the built-in
  defaults, validation (which also fills fields in), loading and saving. The TOML codec is a
  third-party package and comes as the record \<open>toml_lib\<close>; files are a map from paths to
  contents.
\<close>

section \<open>Sections of the file\<close>

record WG =
  wg_Enabled :: bool
  wg_Interface :: string
  wg_Port :: int
  wg_Subnet :: string
  wg_Endpoint :: string
  wg_DefaultFullTunnel :: bool
  wg_SplitNetworks :: "string list"

record ServerSection =
  sv_DataDir :: string
  sv_Domain :: string

record UpstreamSection =
  us_URL :: string
  us_Weight :: int

record CacheSection =
  ca_Size :: int
  ca_MinTTL :: duration
  ca_MaxTTL :: duration
  ca_FailTTL :: duration

record Listen =
  ln_Plain :: string
  ln_DoT :: string
  ln_DoH :: string

record DNS =
  dns_Upstreams :: "UpstreamSection list"
  dns_Bootstrap :: "string list"
  dns_Cache :: CacheSection
  dns_Listen :: Listen
  dns_Timeout :: duration
  dns_EdnsCsr :: bool

record ListSection =
  li_Name :: string
  li_URL :: string
  li_Format :: string

record Block =
  bl_Enabled :: bool
  bl_Lists :: "ListSection list"
  bl_Allowlist :: "string list"
  bl_Denylist :: "string list"
  bl_Refresh :: duration
  bl_BlockIPv6 :: bool
  bl_ResponseIP :: string

record Admin =
  ad_Enabled :: bool
  ad_Listen :: string
  ad_Token :: string

record Log =
  log_Queries :: bool
  log_Retention :: duration
  log_CountersOnly :: bool

record Config =
  c_Server :: ServerSection
  c_DNS :: DNS
  c_Block :: Block
  c_Admin :: Admin
  c_Log :: Log
  c_WG :: WG

definition Default :: Config where
  "Default =
     \<lparr>c_Server = \<lparr>sv_DataDir = ''/var/lib/supp'', sv_Domain = ''''\<rparr>,
      c_DNS =
        \<lparr>dns_Upstreams =
           [\<lparr>us_URL = ''doh://dns.quad9.net/dns-query'', us_Weight = 3\<rparr>,
            \<lparr>us_URL = ''doh://cloudflare-dns.com/dns-query'', us_Weight = 2\<rparr>,
            \<lparr>us_URL = ''udp://9.9.9.9:53'', us_Weight = 1\<rparr>],
         dns_Bootstrap = [''9.9.9.9'', ''149.112.112.112''],
         dns_Cache = \<lparr>ca_Size = 65536, ca_MinTTL = 60 * Second, ca_MaxTTL = 24 * Hour, ca_FailTTL = 30 * Second\<rparr>,
         dns_Listen = \<lparr>ln_Plain = ''0.0.0.0:53'', ln_DoT = ''0.0.0.0:853'', ln_DoH = ''0.0.0.0:443''\<rparr>,
         dns_Timeout = 3 * Second,
         dns_EdnsCsr = False\<rparr>,
      c_Block =
        \<lparr>bl_Enabled = True,
         bl_Lists = [\<lparr>li_Name = ''hagezi-normal'',
           li_URL = ''https://raw.githubusercontent.com/hagezi/dns-blocklists/main/domains/native.txt'',
           li_Format = ''domains''\<rparr>],
         bl_Allowlist = [], bl_Denylist = [],
         bl_Refresh = 24 * Hour, bl_BlockIPv6 = True, bl_ResponseIP = ''0.0.0.0''\<rparr>,
      c_Admin = \<lparr>ad_Enabled = True, ad_Listen = ''127.0.0.1:8080'', ad_Token = ''''\<rparr>,
      c_Log = \<lparr>log_Queries = True, log_Retention = 30 * 24 * Hour, log_CountersOnly = False\<rparr>,
      c_WG =
        \<lparr>wg_Enabled = False, wg_Interface = ''supp0'', wg_Port = 51820, wg_Subnet = ''10.66.0.0/24'',
         wg_Endpoint = '''', wg_DefaultFullTunnel = True, wg_SplitNetworks = []\<rparr>\<rparr>"

section \<open>Defaults and validation\<close>

definition ApplyDefaults :: "WG \<Rightarrow> WG" where
  "ApplyDefaults w =
     (let w = (if wg_Interface w = '''' then w\<lparr>wg_Interface := ''supp0''\<rparr> else w);
          w = (if wg_Port w = 0 then w\<lparr>wg_Port := 51820\<rparr> else w)
      in if wg_Subnet w = '''' then w\<lparr>wg_Subnet := ''10.66.0.0/24''\<rparr> else w)"

definition EffectiveEndpoint :: "WG \<Rightarrow> string \<Rightarrow> string" where
  "EffectiveEndpoint w domain =
     (let host = wg_Endpoint w;
          host = (if host = '''' then domain else host);
          host = (if host = '''' then ''<server-ip>'' else host)
      in case SplitHostPort host of
           None \<Rightarrow> host @ '':'' @ itoa (wg_Port w)
         | Some _ \<Rightarrow> host)"

datatype wg_error =
    InterfaceRequired
  | PortRange int
  | BadSubnet string
  | BadSplitNetwork string

datatype config_error =
    NoUpstreams
  | UpstreamURL nat
  | CacheSize
  | NoBlockSource
  | NoListener
  | WgSection wg_error
  | ReadFailed string
  | ParseFailed string

definition is_cidr :: "string \<Rightarrow> bool" where
  "is_cidr s = (ParsePrefix (TrimSpace s) \<noteq> None)"

definition WG_Validate :: "WG \<Rightarrow> wg_error option" where
  "WG_Validate w =
     (if \<not> wg_Enabled w then None
      else if wg_Interface w = '''' then Some InterfaceRequired
      else if wg_Port w < 1 \<or> 65535 < wg_Port w then Some (PortRange (wg_Port w))
      else if \<not> is_cidr (wg_Subnet w) then Some (BadSubnet (wg_Subnet w))
      else map_option BadSplitNetwork (find (\<lambda>s. \<not> is_cidr s) (wg_SplitNetworks w)))"

text \<open>The loop over the upstreams: the index of the first one without an address.\<close>

fun upstream_missing :: "nat \<Rightarrow> UpstreamSection list \<Rightarrow> nat option" where
  "upstream_missing i [] = None"
| "upstream_missing i (u # us) = (if us_URL u = '''' then Some i else upstream_missing (Suc i) us)"

definition no_source :: "Block \<Rightarrow> bool" where
  "no_source b \<longleftrightarrow> bl_Enabled b \<and> bl_Lists b = [] \<and> bl_Denylist b = []"

definition no_listener :: "Listen \<Rightarrow> bool" where
  "no_listener l \<longleftrightarrow> ln_Plain l = '''' \<and> ln_DoT l = '''' \<and> ln_DoH l = ''''"

text \<open>
  \<^verbatim>\<open>Validate\<close> has a pointer receiver: the result is its error and the configuration as it
  leaves it, which also on an error may have its answer address filled in.
\<close>

definition Validate :: "Config \<Rightarrow> config_error option \<times> Config" where
  "Validate c =
     (if dns_Upstreams (c_DNS c) = [] then (Some NoUpstreams, c)
      else case upstream_missing 0 (dns_Upstreams (c_DNS c)) of
        Some i \<Rightarrow> (Some (UpstreamURL i), c)
      | None \<Rightarrow>
          if ca_Size (dns_Cache (c_DNS c)) \<le> 0 then (Some CacheSize, c)
          else if no_source (c_Block c) then (Some NoBlockSource, c)
          else
            let c = (if bl_ResponseIP (c_Block c) = '''' then c\<lparr>c_Block := (c_Block c)\<lparr>bl_ResponseIP := ''0.0.0.0''\<rparr>\<rparr> else c)
            in if no_listener (dns_Listen (c_DNS c)) then (Some NoListener, c)
               else
                 let c = c\<lparr>c_WG := ApplyDefaults (c_WG c)\<rparr>
                 in (map_option WgSection (WG_Validate (c_WG c)), c))"

section \<open>Loading and saving\<close>

text \<open>
  \<^verbatim>\<open>toml.Unmarshal\<close> decodes into an existing value; an encoder has written some bytes when it
  succeeds or fails.
\<close>

record toml_lib =
  tomlUnmarshal :: "bytes \<Rightarrow> Config \<Rightarrow> Config option"
  tomlEncode :: "Config \<Rightarrow> bytes \<times> bool"

definition Load :: "toml_lib \<Rightarrow> fs \<Rightarrow> string \<Rightarrow> config_error + Config" where
  "Load T f path =
     (case f path of
        None \<Rightarrow> Inl (ReadFailed path)
      | Some b \<Rightarrow>
          (case tomlUnmarshal T b Default of
             None \<Rightarrow> Inl (ParseFailed path)
           | Some c \<Rightarrow>
               (case Validate c of
                  (Some err, _) \<Rightarrow> Inl err
                | (None, c') \<Rightarrow> Inr c')))"

datatype save_error = MkdirFailed | OpenFailed | EncodeFailed

text \<open>Which directories can be made and which files opened for writing.\<close>

record disk =
  mkdirAll :: "string \<Rightarrow> bool"
  openWrite :: "string \<Rightarrow> bool"

text \<open>\<^verbatim>\<open>filepath.Dir\<close>: what precedes the last separator, cleaned.\<close>

definition filepath_Dir :: "string \<Rightarrow> string" where
  "filepath_Dir p =
     filepath_Clean (case LastIndexByte p CHR ''/'' of None \<Rightarrow> '''' | Some i \<Rightarrow> take (Suc i) p)"

definition Save :: "toml_lib \<Rightarrow> disk \<Rightarrow> fs \<Rightarrow> Config \<Rightarrow> string \<Rightarrow> save_error option \<times> fs" where
  "Save T d f c path =
     (if \<not> mkdirAll d (filepath_Dir path) then (Some MkdirFailed, f)
      else if \<not> openWrite d path then (Some OpenFailed, f)
      else (case tomlEncode T c of (b, ok) \<Rightarrow> (if ok then None else Some EncodeFailed, f(path \<mapsto> b))))"

section \<open>What validation establishes\<close>

text \<open>What the rest of the program may rely on in a loaded configuration.\<close>

definition valid_wg :: "WG \<Rightarrow> bool" where
  "valid_wg w \<longleftrightarrow> wg_Interface w \<noteq> '''' \<and> wg_Port w \<noteq> 0 \<and> wg_Subnet w \<noteq> '''' \<and>
     (wg_Enabled w \<longrightarrow> 1 \<le> wg_Port w \<and> wg_Port w \<le> 65535 \<and> is_cidr (wg_Subnet w) \<and>
        list_all is_cidr (wg_SplitNetworks w))"

definition valid_config :: "Config \<Rightarrow> bool" where
  "valid_config c \<longleftrightarrow>
     dns_Upstreams (c_DNS c) \<noteq> [] \<and> list_all (\<lambda>u. us_URL u \<noteq> '''') (dns_Upstreams (c_DNS c)) \<and>
     0 < ca_Size (dns_Cache (c_DNS c)) \<and>
     (bl_Enabled (c_Block c) \<longrightarrow> bl_Lists (c_Block c) \<noteq> [] \<or> bl_Denylist (c_Block c) \<noteq> []) \<and>
     bl_ResponseIP (c_Block c) \<noteq> '''' \<and>
     (ln_Plain (dns_Listen (c_DNS c)) \<noteq> '''' \<or> ln_DoT (dns_Listen (c_DNS c)) \<noteq> '''' \<or>
      ln_DoH (dns_Listen (c_DNS c)) \<noteq> '''') \<and>
     valid_wg (c_WG c)"

text \<open>A configuration with every field filled in that validation fills in.\<close>

definition filled :: "Config \<Rightarrow> Config" where
  "filled c =
     c\<lparr>c_Block := (c_Block c)\<lparr>bl_ResponseIP :=
          if bl_ResponseIP (c_Block c) = '''' then ''0.0.0.0'' else bl_ResponseIP (c_Block c)\<rparr>,
       c_WG := ApplyDefaults (c_WG c)\<rparr>"

lemma ApplyDefaults_filled:
  "wg_Interface (ApplyDefaults w) \<noteq> '''' \<and> wg_Port (ApplyDefaults w) \<noteq> 0 \<and> wg_Subnet (ApplyDefaults w) \<noteq> ''''"
  by (simp add: ApplyDefaults_def Let_def)

lemma ApplyDefaults_id: "valid_wg w \<Longrightarrow> ApplyDefaults w = w"
  by (simp add: ApplyDefaults_def valid_wg_def Let_def)

lemma WG_Validate_None:
  "WG_Validate (ApplyDefaults w) = None \<longleftrightarrow> valid_wg (ApplyDefaults w)"
  using ApplyDefaults_filled [of w]
  by (auto simp: WG_Validate_def valid_wg_def find_None_iff list_all_iff split: if_splits)

lemma upstream_missing_None:
  "upstream_missing i us = None \<longleftrightarrow> list_all (\<lambda>u. us_URL u \<noteq> '''') us"
  by (induction us arbitrary: i) auto

lemma filled_id: "valid_config c \<Longrightarrow> filled c = c"
  by (simp add: filled_def valid_config_def ApplyDefaults_id)

lemma filled_simps [simp]:
  "c_DNS (filled c) = c_DNS c" "c_WG (filled c) = ApplyDefaults (c_WG c)"
  "bl_Enabled (c_Block (filled c)) = bl_Enabled (c_Block c)" "bl_Lists (c_Block (filled c)) = bl_Lists (c_Block c)"
  "bl_Denylist (c_Block (filled c)) = bl_Denylist (c_Block c)" "bl_ResponseIP (c_Block (filled c)) \<noteq> ''''"
  by (simp_all add: filled_def)

lemma Validate_fst: "fst (Validate c) = None \<longleftrightarrow> valid_config (filled c)"
proof (cases "upstream_missing 0 (dns_Upstreams (c_DNS c))")
  case None
  moreover from this have "list_all (\<lambda>u. us_URL u \<noteq> '''') (dns_Upstreams (c_DNS c))"
    by (simp add: upstream_missing_None)
  ultimately show ?thesis
    by (auto simp: Validate_def valid_config_def WG_Validate_None no_source_def no_listener_def Let_def)
next
  case (Some i)
  then have "\<not> list_all (\<lambda>u. us_URL u \<noteq> '''') (dns_Upstreams (c_DNS c))"
    using upstream_missing_None [of 0 "dns_Upstreams (c_DNS c)"] by simp
  with Some show ?thesis
    by (simp add: Validate_def valid_config_def)
qed

lemma Validate_snd:
  assumes "fst (Validate c) = None"
  shows "snd (Validate c) = filled c"
proof -
  have v: "valid_config (filled c)" using assms by (simp add: Validate_fst)
  then have "upstream_missing 0 (dns_Upstreams (c_DNS c)) = None" "dns_Upstreams (c_DNS c) \<noteq> []"
    "\<not> ca_Size (dns_Cache (c_DNS c)) \<le> 0" "\<not> no_source (c_Block c)" "\<not> no_listener (dns_Listen (c_DNS c))"
    by (simp_all add: valid_config_def upstream_missing_None no_source_def no_listener_def)
  then show ?thesis
    by (cases "bl_ResponseIP (c_Block c) = ''''") (simp_all add: Validate_def filled_def Let_def)
qed

lemma Validate_cases:
  "Validate c = (None, c') \<longleftrightarrow> c' = filled c \<and> valid_config c'"
  using Validate_fst [of c] Validate_snd [of c] by (cases "Validate c") auto

lemma valid_Validate: "valid_config c \<Longrightarrow> Validate c = (None, c)"
  by (simp add: Validate_cases filled_id)

lemma Default_valid: "valid_config Default"
  by (simp add: valid_config_def valid_wg_def Default_def)

text \<open>
  C17: Loading a configuration succeeds exactly when the file exists, its text decodes over the
  built-in defaults, and the decoded configuration with its empty fields filled in is well-formed:
  an upstream with an address in each entry, a positive cache, a block source when blocking is on,
  an open listener, and a VPN section with a port in range and readable networks when it is
  enabled. The result is that filled-in configuration, so everything that runs from a loaded
  configuration may rely on it.
\<close>
theorem load_yields_valid_config:
  "Load T f path = Inr c \<longleftrightarrow>
     (\<exists>b c0. f path = Some b \<and> tomlUnmarshal T b Default = Some c0 \<and> c = filled c0 \<and> valid_config c)"
proof -
  have "(case Validate c0 of (Some err, _) \<Rightarrow> Inl err | (None, c') \<Rightarrow> Inr c') = Inr c \<longleftrightarrow> c = filled c0 \<and> valid_config c"
    for c0 :: Config
    using Validate_cases [of c0 c] by (cases "Validate c0") (auto split: option.splits)
  then show ?thesis by (auto simp: Load_def split: option.splits)
qed

text \<open>The codec carries a configuration: what it encodes without an error decodes to it over the defaults.\<close>

definition toml_carries :: "toml_lib \<Rightarrow> Config \<Rightarrow> bool" where
  "toml_carries T c \<longleftrightarrow> (case tomlEncode T c of (b, ok) \<Rightarrow> ok \<longrightarrow> tomlUnmarshal T b Default = Some c)"


text \<open>A codec for the witness: the domain name is the text, as over the defaults.\<close>

definition tiny_toml :: toml_lib where
  "tiny_toml =
     \<lparr>tomlUnmarshal = (\<lambda>b c. Some (c\<lparr>c_Server := (c_Server c)\<lparr>sv_Domain := b\<rparr>\<rparr>)),
      tomlEncode = (\<lambda>c. (sv_Domain (c_Server c), True))\<rparr>"


text \<open>
  The endpoint is not always \<^verbatim>\<open>host:port\<close>: an IPv6 address without brackets gets the port
  appended to its last group.
\<close>

lemma EffectiveEndpoint_ipv6:
  "EffectiveEndpoint ((c_WG Default)\<lparr>wg_Endpoint := ''2001:db8::1''\<rparr>) '''' = ''2001:db8::1:51820'' \<and>
   SplitHostPort ''2001:db8::1:51820'' = None"
  by code_simp

lemma has_port_no_colon:
  assumes "CHR '':'' \<notin> set h" and "CHR '':'' \<notin> set p" and "CHR ''['' \<notin> set (h @ p)" and "CHR '']'' \<notin> set (h @ p)"
  shows "SplitHostPort (h @ '':'' @ p) = Some (h, p)"
proof -
  have first: "c \<notin> set xs \<Longrightarrow> IndexByte (xs @ c # ys) c = Some (length xs)" for c and xs ys :: string
    by (induction xs) auto
  have "LastIndexByte (h @ '':'' @ p) CHR '':'' = Some (length h)"
    using first [of "CHR '':''" "rev p" "rev h"] assms by (simp add: LastIndexByte_def)
  moreover have "hd (h @ CHR '':'' # p) \<noteq> CHR ''[''"
    using assms by (cases h) auto
  ultimately show ?thesis
    using assms by (simp add: SplitHostPort_def)
qed

end
