(* ===== verification/Query_Store.thy ===== *)
theory Query_Store
  imports Go_Duration
begin

text \<open>
  The SQLite store, \<^verbatim>\<open>src/internal/store/store.go\<close>: device identities, daily counters,
  domain counters, the query log and the VPN peers. Each SQL statement of the source is written
  out on tables as lists of rows with their UNIQUE constraints and AUTOINCREMENT counters; the
  single connection makes a statement one step. An error is a violated constraint, a missing row
  or a value the driver refuses; failures of the disk are not modelled.

  A UTC day is the number of days since the epoch. The source stores it as a date string with
  four-digit years, which sorts the same way.
\<close>

section \<open>Rows and tables\<close>

record client_row =
  crow_id :: int
  crow_name :: string
  crow_token :: string
  crow_created :: int
  crow_seen :: int
  crow_active :: int

record Client =
  cl_ID :: int
  cl_Name :: string
  cl_Token :: string
  cl_CreatedAt :: time
  cl_LastSeen :: time
  cl_Active :: bool

record peer_row =
  prow_id :: int
  prow_name :: string
  prow_pub :: string
  prow_priv :: string
  prow_ip :: string
  prow_created :: int
  prow_handshake :: int
  prow_rx :: u64
  prow_tx :: u64
  prow_active :: int
  prow_full :: int
  prow_client :: int

record WgPeer =
  wp_ID :: int
  wp_Name :: string
  wp_PublicKey :: string
  wp_PrivateKey :: string
  wp_IP :: string
  wp_CreatedAt :: time
  wp_LastHandsha :: time
  wp_RxBytes :: u64
  wp_TxBytes :: u64
  wp_Active :: bool
  wp_FullTunnel :: bool
  wp_ClientID :: int

record log_row =
  lg_ts :: int
  lg_client :: int
  lg_qname :: string
  lg_qtype :: string
  lg_blocked :: int
  lg_rcode :: int

type_synonym day = int

record counter =
  ct_queries :: int
  ct_blocked :: int

record Store =
  st_clients :: "client_row list"
  st_clients_seq :: int
  st_day :: "(day \<times> int, counter) gomap"
  st_top :: "(day \<times> string, counter) gomap"
  st_log :: "log_row list"
  st_peers :: "peer_row list"
  st_peers_seq :: int
  st_logQueries :: bool
  st_retention :: duration

datatype storeErr =
    ErrNotFound
  | ErrNoRows
  | ErrUnique
  | ErrTokenMismatch
  | ErrHighBit
  | ErrRand

definition Unix :: "time \<Rightarrow> int" where
  "Unix t = t div Second"

definition HasHandshake :: "WgPeer \<Rightarrow> bool" where
  "HasHandshake p \<longleftrightarrow> 0 < Unix (wp_LastHandsha p)"

definition HandshakeAgo :: "time \<Rightarrow> WgPeer \<Rightarrow> string" where
  "HandshakeAgo now p =
     (if \<not> HasHandshake p then ''never''
      else Duration_String (Duration_Round (time_Sub now (wp_LastHandsha p)) Second))"

definition utc_day :: "time \<Rightarrow> day" where
  "utc_day t = t div (24 * Hour)"

text \<open>\<^verbatim>\<open>Open\<close> on a new file: the schema's empty tables.\<close>

definition Open :: "bool \<Rightarrow> duration \<Rightarrow> Store" where
  "Open logQueries retention =
     \<lparr>st_clients = [], st_clients_seq = 0, st_day = [], st_top = [], st_log = [], st_peers = [],
      st_peers_seq = 0, st_logQueries = logQueries, st_retention = retention\<rparr>"

section \<open>Device identities\<close>

definition hex_byte :: "u8 \<Rightarrow> string" where
  "hex_byte b = (let d = (\<lambda>n. ''0123456789abcdef'' ! nat n) in [d (uint b div 16), d (uint b mod 16)])"

text \<open>\<^verbatim>\<open>newToken\<close>: the 24 random bytes are an argument, \<open>None\<close> when the source fails.\<close>

definition newToken :: "u8 list option \<Rightarrow> storeErr + string" where
  "newToken rnd = (case rnd of None \<Rightarrow> Inl ErrRand | Some bs \<Rightarrow> Inr (concat (map hex_byte bs)))"

definition CreateClient :: "u8 list option \<Rightarrow> time \<Rightarrow> Store \<Rightarrow> string \<Rightarrow> (storeErr + Client) \<times> Store" where
  "CreateClient rnd now s name =
     (case newToken rnd of
        Inl err \<Rightarrow> (Inl err, s)
      | Inr tok \<Rightarrow>
          if (\<exists>r \<in> set (st_clients s). crow_name r = name \<or> crow_token r = tok) then (Inl ErrUnique, s)
          else
            let i = st_clients_seq s + 1 in
            (Inr \<lparr>cl_ID = i, cl_Name = name, cl_Token = tok, cl_CreatedAt = now, cl_LastSeen = now, cl_Active = True\<rparr>,
             s\<lparr>st_clients := st_clients s @ [\<lparr>crow_id = i, crow_name = name, crow_token = tok,
                  crow_created = Unix now, crow_seen = Unix now, crow_active = 1\<rparr>],
               st_clients_seq := i\<rparr>))"

definition client_of :: "client_row \<Rightarrow> Client" where
  "client_of r = \<lparr>cl_ID = crow_id r, cl_Name = crow_name r, cl_Token = crow_token r,
     cl_CreatedAt = crow_created r * Second, cl_LastSeen = crow_seen r * Second, cl_Active = (crow_active r = 1)\<rparr>"

definition ListClients :: "Store \<Rightarrow> Client list" where
  "ListClients s = map client_of (sort_key (\<lambda>r. - crow_id r) (st_clients s))"

definition scanClient :: "client_row option \<Rightarrow> storeErr + Client" where
  "scanClient row = (case row of None \<Rightarrow> Inl ErrNotFound | Some r \<Rightarrow> Inr (client_of r))"

definition ClientByToken :: "Store \<Rightarrow> string \<Rightarrow> storeErr + Client" where
  "ClientByToken s tok = scanClient (find (\<lambda>r. crow_token r = tok) (st_clients s))"

definition ClientByName :: "Store \<Rightarrow> string \<Rightarrow> storeErr + Client" where
  "ClientByName s name = scanClient (find (\<lambda>r. crow_name r = name) (st_clients s))"

definition DeleteClient :: "Store \<Rightarrow> int \<Rightarrow> Store" where
  "DeleteClient s i =
     s\<lparr>st_clients := filter (\<lambda>r. crow_id r \<noteq> i) (st_clients s),
       st_day := filter (\<lambda>p. snd (fst p) \<noteq> i) (st_day s)\<rparr>"

definition TouchClient :: "time \<Rightarrow> Store \<Rightarrow> int \<Rightarrow> string \<Rightarrow> storeErr option \<times> Store" where
  "TouchClient now s i tok =
     (case find (\<lambda>r. crow_id r = i) (st_clients s) of
        None \<Rightarrow> (Some ErrNoRows, s)
      | Some r \<Rightarrow>
          if crow_token r \<noteq> tok then (Some ErrTokenMismatch, s)
          else (None, s\<lparr>st_clients := map (\<lambda>r. if crow_id r = i then r\<lparr>crow_seen := Unix now\<rparr> else r) (st_clients s)\<rparr>))"

section \<open>VPN peers\<close>

definition CreateWgPeer ::
  "time \<Rightarrow> Store \<Rightarrow> string \<Rightarrow> string \<Rightarrow> string \<Rightarrow> string \<Rightarrow> bool \<Rightarrow> int \<Rightarrow> (storeErr + WgPeer) \<times> Store" where
  "CreateWgPeer now s name pub priv ip fullTunnel clientID =
     (if (\<exists>r \<in> set (st_peers s). prow_name r = name \<or> prow_pub r = pub \<or> prow_ip r = ip) then (Inl ErrUnique, s)
      else
        let i = st_peers_seq s + 1 in
        (Inr \<lparr>wp_ID = i, wp_Name = name, wp_PublicKey = pub, wp_PrivateKey = priv, wp_IP = ip,
              wp_CreatedAt = now, wp_LastHandsha = 0, wp_RxBytes = 0, wp_TxBytes = 0, wp_Active = True,
              wp_FullTunnel = fullTunnel, wp_ClientID = clientID\<rparr>,
         s\<lparr>st_peers := st_peers s @ [\<lparr>prow_id = i, prow_name = name, prow_pub = pub, prow_priv = priv, prow_ip = ip,
              prow_created = Unix now, prow_handshake = 0, prow_rx = 0, prow_tx = 0, prow_active = 1,
              prow_full = (if fullTunnel then 1 else 0), prow_client = clientID\<rparr>],
           st_peers_seq := i\<rparr>))"

definition peer_of :: "peer_row \<Rightarrow> WgPeer" where
  "peer_of r = \<lparr>wp_ID = prow_id r, wp_Name = prow_name r, wp_PublicKey = prow_pub r, wp_PrivateKey = prow_priv r,
     wp_IP = prow_ip r, wp_CreatedAt = prow_created r * Second, wp_LastHandsha = prow_handshake r * Second,
     wp_RxBytes = prow_rx r, wp_TxBytes = prow_tx r, wp_Active = (prow_active r = 1),
     wp_FullTunnel = (prow_full r = 1), wp_ClientID = prow_client r\<rparr>"

definition ListWgPeers :: "Store \<Rightarrow> WgPeer list" where
  "ListWgPeers s = map peer_of (sort_key (\<lambda>r. - prow_id r) (st_peers s))"

definition scanWgPeer :: "peer_row option \<Rightarrow> storeErr + WgPeer" where
  "scanWgPeer row = (case row of None \<Rightarrow> Inl ErrNotFound | Some r \<Rightarrow> Inr (peer_of r))"

definition WgPeerByID :: "Store \<Rightarrow> int \<Rightarrow> storeErr + WgPeer" where
  "WgPeerByID s i = scanWgPeer (find (\<lambda>r. prow_id r = i) (st_peers s))"

definition WgPeerByName :: "Store \<Rightarrow> string \<Rightarrow> storeErr + WgPeer" where
  "WgPeerByName s name = scanWgPeer (find (\<lambda>r. prow_name r = name) (st_peers s))"

definition DeleteWgPeer :: "Store \<Rightarrow> int \<Rightarrow> Store" where
  "DeleteWgPeer s i = s\<lparr>st_peers := filter (\<lambda>r. prow_id r \<noteq> i) (st_peers s)\<rparr>"

definition SetWgPeerActive :: "Store \<Rightarrow> int \<Rightarrow> bool \<Rightarrow> Store" where
  "SetWgPeerActive s i active =
     s\<lparr>st_peers := map (\<lambda>r. if prow_id r = i then r\<lparr>prow_active := if active then 1 else 0\<rparr> else r) (st_peers s)\<rparr>"

text \<open>\<^verbatim>\<open>database/sql\<close> refuses a \<^verbatim>\<open>uint64\<close> argument with its high bit set.\<close>

definition UpdateWgPeerStats :: "Store \<Rightarrow> int \<Rightarrow> u64 \<Rightarrow> u64 \<Rightarrow> time \<Rightarrow> storeErr option \<times> Store" where
  "UpdateWgPeerStats s i rx tx handshake =
     (if 2 ^ 63 \<le> uint rx \<or> 2 ^ 63 \<le> uint tx then (Some ErrHighBit, s)
      else (None, s\<lparr>st_peers := map (\<lambda>r. if prow_id r = i
         then r\<lparr>prow_rx := rx, prow_tx := tx, prow_handshake := Unix handshake\<rparr> else r) (st_peers s)\<rparr>))"

definition WgPeerIPs :: "Store \<Rightarrow> string set" where
  "WgPeerIPs s = set (map prow_ip (st_peers s))"

section \<open>Counters and the log\<close>

text \<open>\<^verbatim>\<open>INSERT ... ON CONFLICT DO UPDATE\<close> on a counter row.\<close>

definition upsert :: "'k \<Rightarrow> int \<Rightarrow> ('k, counter) gomap \<Rightarrow> ('k, counter) gomap" where
  "upsert k bi m =
     (case map_of m k of
        None \<Rightarrow> AList.update k \<lparr>ct_queries = 1, ct_blocked = bi\<rparr> m
      | Some c \<Rightarrow> AList.update k (c\<lparr>ct_queries := ct_queries c + 1, ct_blocked := ct_blocked c + bi\<rparr>) m)"

definition RecordQuery :: "time \<Rightarrow> Store \<Rightarrow> int \<Rightarrow> string \<Rightarrow> string \<Rightarrow> bool \<Rightarrow> int \<Rightarrow> Store" where
  "RecordQuery now s clientID qname qtype blocked rcode =
     (let day = utc_day now;
          bi = (if blocked then 1 else 0);
          qname = (if qname = '''' then ''-'' else qname);
          s = s\<lparr>st_day := upsert (day, clientID) bi (st_day s)\<rparr>;
          s = s\<lparr>st_day := upsert (day, 0) bi (st_day s)\<rparr>
      in if st_logQueries s then
           s\<lparr>st_log := st_log s @ [\<lparr>lg_ts = Unix now, lg_client = clientID, lg_qname = qname, lg_qtype = qtype,
                                    lg_blocked = bi, lg_rcode = rcode\<rparr>],
             st_top := upsert (day, qname) bi (st_top s)\<rparr>
         else s)"

definition Totals :: "Store \<Rightarrow> time \<Rightarrow> int \<times> int" where
  "Totals s since =
     (let rows = filter (\<lambda>((d, _), _). utc_day since \<le> d) (st_day s)
      in (sum_list (map (\<lambda>(_, c). ct_queries c) rows), sum_list (map (\<lambda>(_, c). ct_blocked c) rows)))"

record DayRow =
  dr_Day :: day
  dr_Queries :: int
  dr_Blocked :: int

text \<open>Rows of one group of \<^verbatim>\<open>GROUP BY\<close>, summed.\<close>

definition group_sums :: "('g \<times> counter) list \<Rightarrow> 'g \<Rightarrow> counter" where
  "group_sums rows g =
     (let cs = map snd (filter (\<lambda>r. fst r = g) rows)
      in \<lparr>ct_queries = sum_list (map ct_queries cs), ct_blocked = sum_list (map ct_blocked cs)\<rparr>)"

definition PerDay :: "Store \<Rightarrow> time \<Rightarrow> DayRow list" where
  "PerDay s since =
     (let rows = map (\<lambda>((d, _), c). (d, c)) (filter (\<lambda>((d, cid), _). cid = 0 \<and> utc_day since \<le> d) (st_day s))
      in map (\<lambda>d. let c = group_sums rows d in \<lparr>dr_Day = d, dr_Queries = ct_queries c, dr_Blocked = ct_blocked c\<rparr>)
           (sort (remdups (map fst rows))))"

record ClientRow =
  clr_ID :: int
  clr_Name :: string
  clr_Token :: string
  clr_Queries :: int
  clr_Blocked :: int

definition PerClient :: "Store \<Rightarrow> time \<Rightarrow> ClientRow list" where
  "PerClient s since =
     (let rows = map (\<lambda>((_, cid), c). (cid, c)) (filter (\<lambda>((d, _), _). utc_day since \<le> d) (st_day s))
      in sort_key (\<lambda>r. - clr_Queries r)
           (map (\<lambda>r. let c = group_sums rows (crow_id r) in
                 \<lparr>clr_ID = crow_id r, clr_Name = crow_name r, clr_Token = crow_token r,
                  clr_Queries = ct_queries c, clr_Blocked = ct_blocked c\<rparr>) (st_clients s)))"

record DomainRow =
  dmr_Domain :: string
  dmr_Queries :: int
  dmr_Blocked :: int

text \<open>A negative \<^verbatim>\<open>LIMIT\<close> is no limit in SQLite.\<close>

definition sql_limit :: "int \<Rightarrow> 'a list \<Rightarrow> 'a list" where
  "sql_limit n xs = (if n < 0 then xs else take (nat n) xs)"

definition TopDomains :: "Store \<Rightarrow> time \<Rightarrow> int \<Rightarrow> bool \<Rightarrow> DomainRow list" where
  "TopDomains s since limit onlyBlocked =
     (let rows = map (\<lambda>((_, dom), c). (dom, c))
                   (filter (\<lambda>((d, _), c). utc_day since \<le> d \<and> (onlyBlocked \<longrightarrow> 0 < ct_blocked c)) (st_top s))
      in sql_limit limit (sort_key (\<lambda>r. - dmr_Blocked r)
           (map (\<lambda>dom. let c = group_sums rows dom in
                 \<lparr>dmr_Domain = dom, dmr_Queries = ct_queries c, dmr_Blocked = ct_blocked c\<rparr>) (remdups (map fst rows)))))"

record LogRow =
  lr_TS :: int
  lr_ClientID :: int
  lr_ClientName :: string
  lr_QName :: string
  lr_QType :: string
  lr_Blocked :: int
  lr_RCode :: int

definition RecentLog :: "Store \<Rightarrow> int \<Rightarrow> LogRow list" where
  "RecentLog s limit =
     sql_limit limit (map (\<lambda>q. \<lparr>lr_TS = lg_ts q, lr_ClientID = lg_client q,
         lr_ClientName = (case find (\<lambda>c. crow_id c = lg_client q) (st_clients s) of None \<Rightarrow> '''' | Some c \<Rightarrow> crow_name c),
         lr_QName = lg_qname q, lr_QType = lg_qtype q, lr_Blocked = lg_blocked q, lr_RCode = lg_rcode q\<rparr>)
       (sort_key (\<lambda>q. - lg_ts q) (st_log s)))"

text \<open>Go's conversion of a float to an integer truncates towards zero.\<close>

definition trunc_div :: "int \<Rightarrow> int \<Rightarrow> int" where
  "trunc_div a b = (if a < 0 then - ((- a) div b) else a div b)"

definition Cleanup :: "time \<Rightarrow> Store \<Rightarrow> Store" where
  "Cleanup now s =
     (let cutoff = Unix (now - st_retention s);
          dayCutoff = utc_day now - trunc_div (st_retention s) (24 * Hour) - 1
      in s\<lparr>st_log := filter (\<lambda>q. \<not> lg_ts q < cutoff) (st_log s),
           st_day := filter (\<lambda>((d, _), _). \<not> d < dayCutoff) (st_day s),
           st_top := filter (\<lambda>((d, _), _). \<not> d < dayCutoff) (st_top s)\<rparr>)"

text \<open>The cleanup runs on every tick of a six-hour timer.\<close>

definition store_Loop :: "Store \<Rightarrow> time loop_event list \<Rightarrow> Store \<times> bool" where
  "store_Loop s evs = select_loop Cleanup s evs"

section \<open>Integrity of the tables\<close>

text \<open>Keys are unique and row identifiers grow and are never reused.\<close>

definition wf_clients :: "Store \<Rightarrow> bool" where
  "wf_clients s \<longleftrightarrow> sorted_wrt (<) (map crow_id (st_clients s)) \<and> (\<forall>r \<in> set (st_clients s). 0 < crow_id r \<and> crow_id r \<le> st_clients_seq s)
     \<and> distinct (map crow_name (st_clients s)) \<and> distinct (map crow_token (st_clients s)) \<and> 0 \<le> st_clients_seq s"

definition wf_peers :: "Store \<Rightarrow> bool" where
  "wf_peers s \<longleftrightarrow> sorted_wrt (<) (map prow_id (st_peers s)) \<and> (\<forall>r \<in> set (st_peers s). 0 < prow_id r \<and> prow_id r \<le> st_peers_seq s)
     \<and> distinct (map prow_name (st_peers s)) \<and> distinct (map prow_pub (st_peers s)) \<and> distinct (map prow_ip (st_peers s))
     \<and> 0 \<le> st_peers_seq s"

definition wf_counters :: "Store \<Rightarrow> bool" where
  "wf_counters s \<longleftrightarrow> distinct (map fst (st_day s)) \<and> distinct (map fst (st_top s))"

definition wf_store :: "Store \<Rightarrow> bool" where
  "wf_store s \<longleftrightarrow> wf_clients s \<and> wf_peers s \<and> wf_counters s"

lemma wf_clients_cong:
  "st_clients s' = st_clients s \<Longrightarrow> st_clients_seq s' = st_clients_seq s \<Longrightarrow> wf_clients s' = wf_clients s"
  by (simp add: wf_clients_def)

lemma wf_peers_cong:
  "st_peers s' = st_peers s \<Longrightarrow> st_peers_seq s' = st_peers_seq s \<Longrightarrow> wf_peers s' = wf_peers s"
  by (simp add: wf_peers_def)

lemma wf_counters_cong: "st_day s' = st_day s \<Longrightarrow> st_top s' = st_top s \<Longrightarrow> wf_counters s' = wf_counters s"
  by (simp add: wf_counters_def)

lemmas wf_cong = wf_clients_cong wf_peers_cong wf_counters_cong

lemma distinct_upsert: "distinct (map fst m) \<Longrightarrow> distinct (map fst (upsert k b m))"
  by (auto simp: upsert_def distinct_keys_update split: option.split)

lemma distinct_fst_filter: "distinct (map fst m) \<Longrightarrow> distinct (map fst (filter P m))"
  by (rule distinct_map_filter)

lemma sorted_wrt_map_filter: "sorted_wrt R (map f xs) \<Longrightarrow> sorted_wrt R (map f (filter P xs))"
  by (simp add: sorted_wrt_map sorted_wrt_filter)

lemma map_map_keep: "(\<And>r. f (g r) = f r) \<Longrightarrow> map f (map g xs) = map f xs"
  by simp

lemma wf_Open: "wf_store (Open b d)"
  by (simp add: wf_store_def wf_clients_def wf_peers_def wf_counters_def Open_def)

lemma wf_CreateClient:
  assumes "wf_store s" and "CreateClient rnd now s name = (r, s')"
  shows "wf_store s'"
proof -
  have "wf_peers s'" "wf_counters s'"
    using assms by (auto simp: CreateClient_def wf_store_def Let_def cong: wf_cong split: sum.splits if_splits)
  moreover have "wf_clients s'"
    using assms unfolding wf_store_def wf_clients_def
    by (auto simp: CreateClient_def Let_def sorted_wrt_append distinct_map split: sum.splits if_splits) force+
  ultimately show ?thesis by (simp add: wf_store_def)
qed

lemma wf_DeleteClient: "wf_store s \<Longrightarrow> wf_store (DeleteClient s i)"
  by (auto simp: wf_store_def DeleteClient_def wf_clients_def wf_peers_def wf_counters_def
      distinct_map_filter sorted_wrt_map_filter)

lemma wf_TouchClient:
  assumes "wf_store s" and "TouchClient now s i tok = (r, s')"
  shows "wf_store s'"
proof -
  let ?g = "\<lambda>r. if crow_id r = i then r\<lparr>crow_seen := Unix now\<rparr> else r"
  have m: "map crow_id (map ?g xs) = map crow_id xs" "map crow_name (map ?g xs) = map crow_name xs"
    "map crow_token (map ?g xs) = map crow_token xs" for xs
    by (rule map_map_keep; simp)+
  from assms consider "s' = s" | "s' = s\<lparr>st_clients := map ?g (st_clients s)\<rparr>"
    by (auto simp: TouchClient_def split: option.splits if_splits)
  then show ?thesis
  proof cases
    case 2
    have "wf_clients s'" using assms(1) unfolding wf_store_def wf_clients_def 2 by (auto simp del: map_map simp: m)
    then show ?thesis using assms(1) 2 by (simp add: wf_store_def wf_peers_def wf_counters_def)
  qed (use assms in simp)
qed

lemma wf_CreateWgPeer:
  assumes "wf_store s" and "CreateWgPeer now s name pub priv ip ft cid = (r, s')"
  shows "wf_store s'"
proof -
  have "wf_clients s'" "wf_counters s'"
    using assms by (auto simp: CreateWgPeer_def wf_store_def Let_def cong: wf_cong split: if_splits)
  moreover have "wf_peers s'"
    using assms unfolding wf_store_def wf_peers_def
    by (auto simp: CreateWgPeer_def Let_def sorted_wrt_append distinct_map split: if_splits) force+
  ultimately show ?thesis by (simp add: wf_store_def)
qed

lemma wf_DeleteWgPeer: "wf_store s \<Longrightarrow> wf_store (DeleteWgPeer s i)"
  by (auto simp: wf_store_def DeleteWgPeer_def wf_clients_def wf_peers_def wf_counters_def
      distinct_map_filter sorted_wrt_map_filter)

lemma wf_peers_map:
  assumes "wf_store s" and "\<And>r. prow_id (g r) = prow_id r \<and> prow_name (g r) = prow_name r \<and> prow_pub (g r) = prow_pub r \<and> prow_ip (g r) = prow_ip r"
  shows "wf_store (s\<lparr>st_peers := map g (st_peers s)\<rparr>)"
proof -
  have m: "map prow_id (map g xs) = map prow_id xs" "map prow_name (map g xs) = map prow_name xs"
    "map prow_pub (map g xs) = map prow_pub xs" "map prow_ip (map g xs) = map prow_ip xs" for xs
    using assms(2) by simp_all
  have "wf_peers (s\<lparr>st_peers := map g (st_peers s)\<rparr>)"
    using assms unfolding wf_store_def wf_peers_def by (simp del: map_map add: m)
  then show ?thesis using assms(1) by (simp add: wf_store_def wf_clients_def wf_counters_def)
qed

lemma wf_SetWgPeerActive: "wf_store s \<Longrightarrow> wf_store (SetWgPeerActive s i a)"
  unfolding SetWgPeerActive_def by (rule wf_peers_map) auto

lemma wf_UpdateWgPeerStats:
  "wf_store s \<Longrightarrow> UpdateWgPeerStats s i rx tx h = (r, s') \<Longrightarrow> wf_store s'"
  by (auto simp: UpdateWgPeerStats_def split: if_splits intro!: wf_peers_map)

lemma wf_RecordQuery: "wf_store s \<Longrightarrow> wf_store (RecordQuery now s c n t b rc)"
  by (auto simp: wf_store_def RecordQuery_def Let_def wf_clients_def wf_peers_def wf_counters_def distinct_upsert)

lemma wf_Cleanup: "wf_store s \<Longrightarrow> wf_store (Cleanup now s)"
  by (auto simp: wf_store_def Cleanup_def Let_def wf_clients_def wf_peers_def wf_counters_def distinct_fst_filter)

inductive store_reach :: "bool \<Rightarrow> duration \<Rightarrow> Store \<Rightarrow> bool" for lq ret where
  opened: "store_reach lq ret (Open lq ret)"
| client_created: "store_reach lq ret s \<Longrightarrow> CreateClient rnd now s name = (r, s') \<Longrightarrow> store_reach lq ret s'"
| client_deleted: "store_reach lq ret s \<Longrightarrow> store_reach lq ret (DeleteClient s i)"
| client_touched: "store_reach lq ret s \<Longrightarrow> TouchClient now s i tok = (e, s') \<Longrightarrow> store_reach lq ret s'"
| peer_created: "store_reach lq ret s \<Longrightarrow> CreateWgPeer now s name pub priv ip ft cid = (p, s') \<Longrightarrow> store_reach lq ret s'"
| peer_deleted: "store_reach lq ret s \<Longrightarrow> store_reach lq ret (DeleteWgPeer s i)"
| peer_toggled: "store_reach lq ret s \<Longrightarrow> store_reach lq ret (SetWgPeerActive s i a)"
| peer_counted: "store_reach lq ret s \<Longrightarrow> UpdateWgPeerStats s i rx tx h = (e, s') \<Longrightarrow> store_reach lq ret s'"
| recorded: "store_reach lq ret s \<Longrightarrow> store_reach lq ret (RecordQuery now s c n t b rc)"
| cleaned: "store_reach lq ret s \<Longrightarrow> store_reach lq ret (Cleanup now s)"

lemma store_Loop_reach: "store_reach lq ret s \<Longrightarrow> store_reach lq ret (fst (store_Loop s evs))"
  unfolding store_Loop_def by (rule select_loop_invariant [of "store_reach lq ret"]) (auto intro: cleaned)

lemma store_reach_wf: "store_reach lq ret s \<Longrightarrow> wf_store s"
  by (induction rule: store_reach.induct)
    (blast intro: wf_Open wf_CreateClient wf_DeleteClient wf_TouchClient wf_CreateWgPeer wf_DeleteWgPeer
      wf_SetWgPeerActive wf_UpdateWgPeerStats wf_RecordQuery wf_Cleanup)+

section \<open>What the counters count\<close>

text \<open>The sum of a counter over the rows whose key satisfies \<open>P\<close>.\<close>

definition csum :: "(counter \<Rightarrow> int) \<Rightarrow> ('k \<Rightarrow> bool) \<Rightarrow> ('k, counter) gomap \<Rightarrow> int" where
  "csum f P m = sum_list (map (\<lambda>r. f (snd r)) (filter (\<lambda>r. P (fst r)) m))"

lemma csum_Cons: "csum f P (r # m) = (if P (fst r) then f (snd r) else 0) + csum f P m"
  by (simp add: csum_def)

lemma csum_update:
  "distinct (map fst m) \<Longrightarrow> csum f P (AList.update k v m) =
     csum f P m + (if P k then f v - (case map_of m k of None \<Rightarrow> 0 | Some c \<Rightarrow> f c) else 0)"
proof (induction m)
  case (Cons r m)
  then have "map_of m (fst r) = None" by (simp add: map_of_eq_None_iff)
  with Cons show ?case by (cases r) (auto simp: csum_Cons)
qed (simp add: csum_def)

lemma csum_upsert:
  assumes "distinct (map fst m)"
  shows "csum ct_queries P (upsert k b m) = csum ct_queries P m + of_bool (P k)"
    and "csum ct_blocked P (upsert k b m) = csum ct_blocked P m + (if P k then b else 0)"
  using assms by (auto simp: upsert_def csum_update split: option.split)

record query_event =
  qe_time :: time
  qe_client :: int
  qe_name :: string
  qe_type :: string
  qe_blocked :: bool

definition record_event :: "query_event \<Rightarrow> Store \<Rightarrow> Store" where
  "record_event e s = RecordQuery (qe_time e) s (qe_client e) (qe_name e) (qe_type e) (qe_blocked e) 0"

definition record_all :: "Store \<Rightarrow> query_event list \<Rightarrow> Store" where
  "record_all s es = fold record_event es s"

lemma record_event_frame [simp]:
  "st_clients (record_event e s) = st_clients s" "st_logQueries (record_event e s) = st_logQueries s"
  by (simp_all add: record_event_def RecordQuery_def Let_def)

lemma record_event_day:
  "st_day (record_event e s) =
     upsert (utc_day (qe_time e), 0) (of_bool (qe_blocked e))
       (upsert (utc_day (qe_time e), qe_client e) (of_bool (qe_blocked e)) (st_day s))"
  by (simp add: record_event_def RecordQuery_def Let_def)

lemma record_all_clients [simp]: "st_clients (record_all s es) = st_clients s"
  unfolding record_all_def by (induction es arbitrary: s) auto

definition hits :: "(day \<times> int \<Rightarrow> bool) \<Rightarrow> query_event \<Rightarrow> int" where
  "hits P e = of_bool (P (utc_day (qe_time e), qe_client e)) + of_bool (P (utc_day (qe_time e), 0))"

lemma record_all_day:
  "distinct (map fst (st_day s)) \<Longrightarrow> distinct (map fst (st_day (record_all s es)))
     \<and> csum ct_queries P (st_day (record_all s es)) = csum ct_queries P (st_day s) + sum_list (map (hits P) es)
     \<and> csum ct_blocked P (st_day (record_all s es)) = csum ct_blocked P (st_day s) + sum_list (map (hits P) (filter qe_blocked es))"
  unfolding record_all_def
proof (induction es arbitrary: s)
  case (Cons e es)
  have d: "distinct (map fst (st_day (record_event e s)))"
    using Cons.prems by (simp add: record_event_day distinct_upsert)
  have "csum ct_queries P (st_day (record_event e s)) = csum ct_queries P (st_day s) + hits P e"
    "csum ct_blocked P (st_day (record_event e s)) = csum ct_blocked P (st_day s) + (if qe_blocked e then hits P e else 0)"
    using Cons.prems by (auto simp: record_event_day csum_upsert distinct_upsert hits_def)
  then show ?case using Cons.IH [OF d] by simp
qed simp

lemma Totals_csum:
  "Totals s since = (csum ct_queries (\<lambda>(d, _). utc_day since \<le> d) (st_day s), csum ct_blocked (\<lambda>(d, _). utc_day since \<le> d) (st_day s))"
  by (simp add: Totals_def csum_def case_prod_unfold Let_def)

lemma group_sums_csum:
  "group_sums (map (\<lambda>r. (g (fst r), snd r)) (filter (\<lambda>r. P (fst r)) m)) x =
     \<lparr>ct_queries = csum ct_queries (\<lambda>k. P k \<and> g k = x) m, ct_blocked = csum ct_blocked (\<lambda>k. P k \<and> g k = x) m\<rparr>"
  by (simp add: group_sums_def csum_def filter_map comp_def conj_commute filter_filter)

lemma PerClient_rows:
  "set (PerClient s since) = (\<lambda>r. \<lparr>clr_ID = crow_id r, clr_Name = crow_name r, clr_Token = crow_token r,
     clr_Queries = csum ct_queries (\<lambda>k. utc_day since \<le> fst k \<and> snd k = crow_id r) (st_day s),
     clr_Blocked = csum ct_blocked (\<lambda>k. utc_day since \<le> fst k \<and> snd k = crow_id r) (st_day s)\<rparr>) ` set (st_clients s)"
  using group_sums_csum [of snd "\<lambda>k. utc_day since \<le> fst k" "st_day s"]
  by (simp add: PerClient_def case_prod_unfold Let_def)

lemma sum_list_hits:
  "sum_list (map (\<lambda>e. of_bool (P e)) es) = int (length (filter P es))"
  by (induction es) auto

section \<open>The peer table as the VPN service uses it\<close>

text \<open>
  The interface \<^verbatim>\<open>wg.Store\<close>: the operations on peers and what the service relies on, all
  in terms of the list of peers, newest first.
\<close>

locale peer_store =
  fixes create :: "time \<Rightarrow> 's \<Rightarrow> string \<Rightarrow> string \<Rightarrow> string \<Rightarrow> string \<Rightarrow> bool \<Rightarrow> int \<Rightarrow> (storeErr + WgPeer) \<times> 's"
    and peers :: "'s \<Rightarrow> WgPeer list"
    and by_name :: "'s \<Rightarrow> string \<Rightarrow> storeErr + WgPeer"
    and del :: "'s \<Rightarrow> int \<Rightarrow> 's"
    and set_active :: "'s \<Rightarrow> int \<Rightarrow> bool \<Rightarrow> 's"
    and ips :: "'s \<Rightarrow> string set"
    and inv :: "'s \<Rightarrow> bool"
  assumes unique: "inv s \<Longrightarrow> distinct (map wp_ID (peers s)) \<and> distinct (map wp_Name (peers s))
      \<and> distinct (map wp_PublicKey (peers s)) \<and> distinct (map wp_IP (peers s))"
    and create_law: "inv s \<Longrightarrow> create now s name pub priv ip ft cid = (r, s') \<Longrightarrow>
      inv s' \<and> (if (\<exists>p \<in> set (peers s). wp_Name p = name \<or> wp_PublicKey p = pub \<or> wp_IP p = ip)
        then isl r \<and> s' = s
        else \<exists>p t. r = Inr p \<and> peers s' = p\<lparr>wp_CreatedAt := t\<rparr> # peers s
          \<and> wp_Name p = name \<and> wp_PublicKey p = pub \<and> wp_PrivateKey p = priv \<and> wp_IP p = ip
          \<and> wp_Active p \<and> wp_FullTunnel p = ft \<and> wp_ClientID p = cid)"
    and by_name_law: "inv s \<Longrightarrow> by_name s name =
      (case find (\<lambda>p. wp_Name p = name) (peers s) of None \<Rightarrow> Inl ErrNotFound | Some p \<Rightarrow> Inr p)"
    and del_law: "inv s \<Longrightarrow> inv (del s i) \<and> peers (del s i) = filter (\<lambda>p. wp_ID p \<noteq> i) (peers s)"
    and set_active_law: "inv s \<Longrightarrow> inv (set_active s i a) \<and>
      peers (set_active s i a) = map (\<lambda>p. if wp_ID p = i then p\<lparr>wp_Active := a\<rparr> else p) (peers s)"
    and ips_law: "inv s \<Longrightarrow> ips s = wp_IP ` set (peers s)"
begin

text \<open>A created peer is found by its name and its address is taken.\<close>

lemma created_is_listed:
  assumes "inv s" and "create now s name pub priv ip ft cid = (Inr p, s')"
  shows "inv s' \<and> ip \<in> ips s' \<and> ip \<notin> ips s \<and> isr (by_name s' name)"
proof -
  have c: "inv s'" "\<not> (\<exists>p \<in> set (peers s). wp_Name p = name \<or> wp_PublicKey p = pub \<or> wp_IP p = ip)"
    using create_law [OF assms] by (auto split: if_splits)
  then obtain p' where "peers s' = p' # peers s" "wp_Name p' = name" "wp_IP p' = ip"
    using create_law [OF assms] by (auto split: if_splits)
  then show ?thesis using c assms(1) by (auto simp: ips_law by_name_law)
qed

lemma deleted_is_gone:
  "inv s \<Longrightarrow> p \<in> set (peers (del s i)) \<Longrightarrow> wp_ID p \<noteq> i"
  by (simp add: del_law)

end

lemma peers_rev: "wf_store s \<Longrightarrow> ListWgPeers s = map peer_of (rev (st_peers s))"
  by (simp add: ListWgPeers_def sort_key_desc wf_store_def wf_peers_def)

lemma peer_of_sel [simp]:
  "wp_ID (peer_of r) = prow_id r" "wp_Name (peer_of r) = prow_name r" "wp_PublicKey (peer_of r) = prow_pub r"
  "wp_IP (peer_of r) = prow_ip r" "wp_PrivateKey (peer_of r) = prow_priv r"
  by (simp_all add: peer_of_def)

lemma find_unique:
  assumes "distinct (map f xs)" and "set ys = set xs"
  shows "find (\<lambda>x. f x = k) ys = find (\<lambda>x. f x = k) xs"
proof (cases "\<exists>x \<in> set xs. f x = k")
  case True
  then obtain x where x: "x \<in> set xs" "f x = k" by blast
  have "find (\<lambda>x. f x = k) ys = Some y \<Longrightarrow> y = x" for y
    using assms x by (auto simp: find_Some_iff distinct_map inj_on_def) (metis nth_mem)
  moreover have "find (\<lambda>x. f x = k) ys \<noteq> None" using x assms(2) by (auto simp: find_None_iff)
  ultimately show ?thesis using find_distinct_map [OF assms(1) x(1)] x(2) by auto
next
  case False
  then have "find (\<lambda>x. f x = k) xs = None" "find (\<lambda>x. f x = k) ys = None"
    using assms(2) by (auto simp: find_None_iff)
  then show ?thesis by simp
qed

lemma find_peer_of: "find (\<lambda>p. wp_Name p = n) (map peer_of xs) = map_option peer_of (find (\<lambda>r. prow_name r = n) xs)"
  by (induction xs) auto

interpretation db: peer_store CreateWgPeer ListWgPeers WgPeerByName DeleteWgPeer SetWgPeerActive WgPeerIPs wf_store
proof
  fix s assume wf: "wf_store s"
  then have "wf_peers s" by (simp add: wf_store_def)
  then show "distinct (map wp_ID (ListWgPeers s)) \<and> distinct (map wp_Name (ListWgPeers s))
      \<and> distinct (map wp_PublicKey (ListWgPeers s)) \<and> distinct (map wp_IP (ListWgPeers s))"
    by (simp add: peers_rev [OF wf] comp_def rev_map [symmetric] wf_peers_def strict_sorted_iff)
next
  fix s now name pub priv ip ft cid r s'
  assume wf: "wf_store s" and c: "CreateWgPeer now s name pub priv ip ft cid = (r, s')"
  have wf': "wf_store s'" by (rule wf_CreateWgPeer [OF wf c])
  have ex: "(\<exists>p \<in> set (ListWgPeers s). wp_Name p = name \<or> wp_PublicKey p = pub \<or> wp_IP p = ip) \<longleftrightarrow>
    (\<exists>r \<in> set (st_peers s). prow_name r = name \<or> prow_pub r = pub \<or> prow_ip r = ip)"
    by (auto simp: peers_rev [OF wf])
  show "wf_store s' \<and> (if (\<exists>p \<in> set (ListWgPeers s). wp_Name p = name \<or> wp_PublicKey p = pub \<or> wp_IP p = ip)
        then isl r \<and> s' = s
        else \<exists>p t. r = Inr p \<and> ListWgPeers s' = p\<lparr>wp_CreatedAt := t\<rparr> # ListWgPeers s
          \<and> wp_Name p = name \<and> wp_PublicKey p = pub \<and> wp_PrivateKey p = priv \<and> wp_IP p = ip
          \<and> wp_Active p \<and> wp_FullTunnel p = ft \<and> wp_ClientID p = cid)"
    using c wf' unfolding ex peers_rev [OF wf] peers_rev [OF wf']
    by (auto simp: CreateWgPeer_def Let_def peer_of_def split: if_splits)
next
  fix s name assume wf: "wf_store s"
  then have "distinct (map prow_name (st_peers s))" by (simp add: wf_store_def wf_peers_def)
  then have "find (\<lambda>r. prow_name r = name) (rev (st_peers s)) = find (\<lambda>r. prow_name r = name) (st_peers s)"
    by (rule find_unique) simp
  then show "WgPeerByName s name =
      (case find (\<lambda>p. wp_Name p = name) (ListWgPeers s) of None \<Rightarrow> Inl ErrNotFound | Some p \<Rightarrow> Inr p)"
    by (auto simp: WgPeerByName_def scanWgPeer_def peers_rev [OF wf] find_peer_of split: option.split)
next
  fix s i assume wf: "wf_store s"
  then show "wf_store (DeleteWgPeer s i) \<and> ListWgPeers (DeleteWgPeer s i) = filter (\<lambda>p. wp_ID p \<noteq> i) (ListWgPeers s)"
    by (simp add: wf_DeleteWgPeer peers_rev) (simp add: DeleteWgPeer_def filter_map rev_filter comp_def)
next
  fix s i a assume wf: "wf_store s"
  have "map peer_of (map (\<lambda>r. if prow_id r = i then r\<lparr>prow_active := if a then 1 else 0\<rparr> else r) xs) =
    map (\<lambda>p. if wp_ID p = i then p\<lparr>wp_Active := a\<rparr> else p) (map peer_of xs)" for xs
    by (simp add: peer_of_def)
  then show "wf_store (SetWgPeerActive s i a) \<and>
      ListWgPeers (SetWgPeerActive s i a) = map (\<lambda>p. if wp_ID p = i then p\<lparr>wp_Active := a\<rparr> else p) (ListWgPeers s)"
    using wf by (simp add: wf_SetWgPeerActive peers_rev) (simp add: SetWgPeerActive_def rev_map [symmetric])
next
  fix s assume wf: "wf_store s"
  then show "WgPeerIPs s = wp_IP ` set (ListWgPeers s)"
    by (simp add: WgPeerIPs_def peers_rev image_image)
qed

section \<open>Properties\<close>

text \<open>
  C34: Integrity of the database. In every store that operations reach from a new file, clients have
  distinct identifiers, names and tokens, peers have distinct identifiers, names, public keys and
  tunnel addresses, and every counter row has its own key.
\<close>

theorem store_integrity:
  assumes "store_reach lq ret s"
  shows "distinct (map crow_id (st_clients s)) \<and> distinct (map crow_name (st_clients s)) \<and> distinct (map crow_token (st_clients s))
    \<and> distinct (map prow_id (st_peers s)) \<and> distinct (map prow_name (st_peers s)) \<and> distinct (map prow_pub (st_peers s))
    \<and> distinct (map prow_ip (st_peers s)) \<and> distinct (map fst (st_day s)) \<and> distinct (map fst (st_top s))"
  using store_reach_wf [OF assms]
  by (auto simp: wf_store_def wf_clients_def wf_peers_def wf_counters_def strict_sorted_iff)

theorem store_integrity_witness:
  "store_reach True 0 (snd (CreateWgPeer 5 (Open True 0) ''laptop'' ''PUB'' ''PRIV'' ''10.66.0.2'' True 0))
   \<and> distinct (map prow_ip (st_peers (snd (CreateWgPeer 5 (Open True 0) ''laptop'' ''PUB'' ''PRIV'' ''10.66.0.2'' True 0))))"
proof -
  have r: "store_reach True 0 (snd (CreateWgPeer 5 (Open True 0) ''laptop'' ''PUB'' ''PRIV'' ''10.66.0.2'' True 0))"
    by (rule store_reach.peer_created [OF store_reach.opened prod.collapse [symmetric]])
  with store_integrity [OF r] show ?thesis by blast
qed





text \<open>
  The overall totals count every query twice. \<^verbatim>\<open>RecordQuery\<close> adds a query to the row of
  its client and to the row of client zero, and \<^verbatim>\<open>Totals\<close> sums all rows; a query without a
  client identity adds two to the row of client zero, which \<^verbatim>\<open>PerDay\<close> reports.
\<close>

theorem totals_count_twice:
  assumes "st_day s = []"
  shows "Totals (record_all s es) since =
      (2 * int (length (filter (\<lambda>e. utc_day since \<le> utc_day (qe_time e)) es)),
       2 * int (length (filter (\<lambda>e. utc_day since \<le> utc_day (qe_time e) \<and> qe_blocked e) es)))
    \<and> csum ct_queries (\<lambda>k. k = (d, 0)) (st_day (record_all s es)) =
      int (length (filter (\<lambda>e. utc_day (qe_time e) = d) es))
      + int (length (filter (\<lambda>e. utc_day (qe_time e) = d \<and> qe_client e = 0) es))"
proof -
  let ?P = "\<lambda>(k :: day \<times> int). utc_day since \<le> fst k"
  have h: "hits ?P = (\<lambda>e. of_bool (utc_day since \<le> utc_day (qe_time e)) + of_bool (utc_day since \<le> utc_day (qe_time e)))"
    "hits (\<lambda>k. k = (d, 0)) = (\<lambda>e. of_bool (utc_day (qe_time e) = d \<and> qe_client e = 0) + of_bool (utc_day (qe_time e) = d))"
    by (auto simp: hits_def fun_eq_iff)
  show ?thesis
    using record_all_day [of s es ?P] record_all_day [of s es "\<lambda>k. k = (d, 0)"] assms
    by (simp add: Totals_csum case_prod_unfold h sum_list_addf sum_list_const_mult sum_list_hits csum_def conj_commute)
qed

theorem totals_count_twice_witness:
  "Totals (record_all (Open True 0) [\<lparr>qe_time = 9, qe_client = 0, qe_name = ''a'', qe_type = ''A'', qe_blocked = True\<rparr>]) 0 = (2, 2)"
  using totals_count_twice [of "Open True 0" "[\<lparr>qe_time = 9, qe_client = 0, qe_name = ''a'', qe_type = ''A'', qe_blocked = True\<rparr>]" 0]
  by (simp add: Open_def utc_day_def)



end
