(* ===== verification/Supp_Init.thy ===== *)
theory Supp_Init
  imports Supp_Config Query_Store
begin

text \<open>
  \<^verbatim>\<open>supp init\<close>, \<^verbatim>\<open>src/internal/ops/init.go\<close>. What the operator types and the random
  bytes are arguments; the messages that are printed are not modelled.
\<close>

section \<open>Generating the configuration\<close>

record Options =
  op_ConfigPath :: string
  op_Domain :: string
  op_AdminToken :: string

text \<open>\<^verbatim>\<open>RandomToken\<close> panics, here \<open>None\<close>, when there is no randomness.\<close>

definition RandomToken :: "u8 list option \<Rightarrow> string option" where
  "RandomToken rnd = map_option (\<lambda>bs. concat (map hex_byte bs)) rnd"

definition readLine :: "string \<Rightarrow> string" where
  "readLine stdin = TrimSpace (case IndexByte stdin (CHR 0x0A) of None \<Rightarrow> stdin | Some i \<Rightarrow> take (Suc i) stdin)"

datatype init_error = ExistingInvalid config_error | GeneratedInvalid config_error | SaveErr save_error

definition set_domain :: "Config \<Rightarrow> string \<Rightarrow> Config" where
  "set_domain c domain = c\<lparr>c_Server := (c_Server c)\<lparr>sv_Domain := domain\<rparr>\<rparr>"

definition set_token :: "Config \<Rightarrow> string \<Rightarrow> Config" where
  "set_token c tok = c\<lparr>c_Admin := (c_Admin c)\<lparr>ad_Token := tok\<rparr>\<rparr>"

text \<open>The configuration after the question for the domain, and whether it changed.\<close>

definition choose_domain :: "Options \<Rightarrow> string \<Rightarrow> Config \<Rightarrow> Config \<times> bool" where
  "choose_domain opts stdin c =
     (if op_Domain opts \<noteq> '''' \<and> sv_Domain (c_Server c) \<noteq> op_Domain opts then (set_domain c (op_Domain opts), True)
      else if op_Domain opts = '''' \<and> sv_Domain (c_Server c) = '''' then
        let line = readLine stdin in if line \<noteq> '''' then (set_domain c line, True) else (c, False)
      else (c, False))"

definition choose_token :: "Options \<Rightarrow> u8 list option \<Rightarrow> Config \<times> bool \<Rightarrow> (Config \<times> bool) option" where
  "choose_token opts rnd cc =
     (case cc of (c, changed) \<Rightarrow>
        if ad_Token (c_Admin c) = '''' then
          (if op_AdminToken opts = '''' then map_option (\<lambda>tok. (set_token c tok, True)) (RandomToken rnd)
           else Some (set_token c (op_AdminToken opts), True))
        else Some (c, changed))"

text \<open>
  \<^verbatim>\<open>Run\<close>: its error, the configuration it ends with and the files; \<open>None\<close> is a panic. A path
  exists when it has a content.
\<close>

definition init_Run ::
  "toml_lib \<Rightarrow> disk \<Rightarrow> fs \<Rightarrow> Options \<Rightarrow> string \<Rightarrow> u8 list option \<Rightarrow> ((init_error + Config) \<times> fs) option" where
  "init_Run T dk f opts stdin rnd =
     (case (if f (op_ConfigPath opts) \<noteq> None then Load T f (op_ConfigPath opts) else Inr Default) of
        Inl err \<Rightarrow> Some (Inl (ExistingInvalid err), f)
      | Inr c \<Rightarrow>
          (case choose_token opts rnd (choose_domain opts stdin c) of
             None \<Rightarrow> None
           | Some (c, changed) \<Rightarrow>
               (case Validate c of
                  (Some err, _) \<Rightarrow> Some (Inl (GeneratedInvalid err), f)
                | (None, c) \<Rightarrow>
                    if changed then
                      (case Save T dk f c (op_ConfigPath opts) of
                         (Some err, f') \<Rightarrow> Some (Inl (SaveErr err), f')
                       | (None, f') \<Rightarrow> Some (Inr c, f'))
                    else Some (Inr c, f))))"

section \<open>What init leaves behind\<close>

lemma choose_domain_valid: "valid_config (fst (choose_domain opts stdin c)) = valid_config c"
  by (simp add: choose_domain_def set_domain_def valid_config_def Let_def)

lemma set_token_valid: "valid_config (set_token c tok) = valid_config c"
  by (simp add: set_token_def valid_config_def)

lemma choose_token_set:
  assumes "choose_token opts rnd (c, ch) = Some (c', ch')" and "rnd \<noteq> Some []"
  shows "ad_Token (c_Admin c') \<noteq> [] \<and> valid_config c' = valid_config c \<and> (ch' \<or> ch' = ch \<and> c' = c)"
proof (cases "ad_Token (c_Admin c) = []")
  case True
  have "ad_Token (c_Admin (set_token c tok)) = tok" for tok by (simp add: set_token_def)
  moreover have "concat (map hex_byte bs) \<noteq> []" if "bs \<noteq> []" for bs
    using that by (cases bs) (simp_all add: hex_byte_def Let_def)
  ultimately show ?thesis
    using True assms by (cases rnd) (auto simp: choose_token_def RandomToken_def set_token_valid simp del: concat_eq_Nil_conv split: if_splits)
next
  case False
  with assms show ?thesis by (simp add: choose_token_def)
qed

text \<open>
  A successful \<^verbatim>\<open>supp init\<close> leaves a file that loads to the well-formed configuration it reports,
  with a token for the dashboard, whether it wrote the file or found it complete.
\<close>

lemma init_leaves_token:
  assumes run: "init_Run T dk f opts stdin rnd = Some (Inr c, f')" and rnd: "rnd \<noteq> Some []" and toml: "toml_carries T c"
  shows "valid_config c \<and> ad_Token (c_Admin c) \<noteq> [] \<and> Load T f' (op_ConfigPath opts) = Inr c"
proof -
  let ?p = "op_ConfigPath opts"
  obtain c0 where c0: "(if f ?p \<noteq> None then Load T f ?p else Inr Default) = Inr c0"
    using run by (auto simp: init_Run_def split: sum.splits)
  obtain c1 ch1 where d: "choose_domain opts stdin c0 = (c1, ch1)" by fastforce
  obtain c2 ch2 where t: "choose_token opts rnd (c1, ch1) = Some (c2, ch2)"
    using run c0 d by (auto simp: init_Run_def split: option.splits)
  have v0: "valid_config c0"
    using c0 Default_valid Validate_cases by (auto simp: Load_def split: if_splits option.splits prod.splits)
  have v: "valid_config c2" and tok: "ad_Token (c_Admin c2) \<noteq> []"
    using choose_token_set [OF t rnd] choose_domain_valid [of opts stdin c0] v0 d by auto
  have run': "(if ch2 then (case Save T dk f c2 ?p of (Some err, f') \<Rightarrow> Some (Inl (SaveErr err), f') | (None, f') \<Rightarrow> Some (Inr c2, f'))
      else Some (Inr c2, f)) = Some (Inr c, f')"
    using run unfolding init_Run_def c0 by (simp add: d t valid_Validate [OF v])
  show ?thesis
  proof (cases ch2)
    case True
    then have "Save T dk f c2 ?p = (None, f')" and "c = c2"
      using run' by (auto split: prod.splits option.splits)
    with toml v tok show ?thesis
      by (auto simp: Save_def Load_def toml_carries_def valid_Validate split: if_splits prod.splits)
  next
    case False
    then have "c2 = c1 \<and> \<not> ch1" using choose_token_set [OF t rnd] by auto
    moreover from this have "c1 = c0" using d by (auto simp: choose_domain_def Let_def split: if_splits)
    moreover have "c = c2" "f' = f" using run' False by auto
    ultimately show ?thesis using c0 v tok by (auto simp: Default_def split: if_splits)
  qed
qed

end
