(* ===== verification/Go_Tls.thy ===== *)
theory Go_Tls
  imports Netip
begin

text \<open>
  What the program uses of Go's \<^verbatim>\<open>crypto/tls\<close> and \<^verbatim>\<open>crypto/x509\<close>: certificates,
  configurations of either side, and when a listener accepts one. Key generation, signing and
  parsing are not computed here; they are the fields of \<open>x509_lib\<close>.
\<close>

datatype key_usage = KeyUsageDigitalSignature | KeyUsageKeyEncipherment

datatype ext_key_usage = ExtKeyUsageServerAuth

record x509_Certificate =
  x_SerialNumber :: int
  x_CommonName :: string
  x_Organization :: "string list"
  x_NotBefore :: time
  x_NotAfter :: time
  x_KeyUsage :: "key_usage set"
  x_ExtKeyUsage :: "ext_key_usage list"
  x_BasicConstraintsValid :: bool
  x_DNSNames :: "string list"
  x_IPAddresses :: "Addr option list"

text \<open>A key pair is opaque; a certificate carries its encoding, its key and its parsed leaf.\<close>

record Certificate =
  ct_Certificate :: "bytes list"
  ct_PrivateKey :: bytes
  ct_Leaf :: x509_Certificate

text \<open>
  \<open>GetCertificate\<close> says whether certificates come from a callback, here always that of the
  certificate manager.
\<close>

record tls_Config =
  ServerName :: string
  NextProtos :: "string list"
  MinVersion :: int
  Certificates :: "Certificate list"
  GetCertificate :: bool

abbreviation (input) VersionTLS12 :: int where "VersionTLS12 \<equiv> 771"

text \<open>
  \<open>generateKey\<close> is \<^verbatim>\<open>ecdsa.GenerateKey\<close>, \<open>randInt\<close> is \<^verbatim>\<open>rand.Int\<close>;
  \<open>createCertificate\<close> takes template, parent and key.
\<close>

record x509_lib =
  generateKey :: "bytes option"
  randInt :: "int \<Rightarrow> int option"
  createCertificate :: "x509_Certificate \<Rightarrow> x509_Certificate \<Rightarrow> bytes \<Rightarrow> bytes option"
  parseCertificate :: "bytes \<Rightarrow> x509_Certificate option"

text \<open>What the packages document: a random integer below the bound, and an encoding that parses to the template.\<close>

definition x509_documented :: "x509_lib \<Rightarrow> bool" where
  "x509_documented X \<longleftrightarrow>
     (\<forall>m n. randInt X m = Some n \<longrightarrow> 0 \<le> n \<and> n < m) \<and>
     (\<forall>tm k der. createCertificate X tm tm k = Some der \<longrightarrow> parseCertificate X der = Some tm)"

text \<open>\<^verbatim>\<open>tls.Listen\<close> refuses a configuration that has no source of certificates.\<close>

definition tls_listenable :: "tls_Config \<Rightarrow> bool" where
  "tls_listenable c \<longleftrightarrow> Certificates c \<noteq> [] \<or> GetCertificate c"

end
