(* ===== verification/Matcher.thy ===== *)
theory Matcher
  imports Supp_Prelude
begin

text \<open>
  The domain matcher, \<^verbatim>\<open>src/internal/filter/matcher.go\<close>: \<^verbatim>\<open>Normalize\<close>, the two-level
  trie \<^verbatim>\<open>DomainSet\<close> with \<^verbatim>\<open>Add\<close>, \<^verbatim>\<open>Has\<close>, \<^verbatim>\<open>Len\<close> and
  \<^verbatim>\<open>Each\<close>, and the interface \<open>suffix_set\<close> through which the filter engine uses it.
  The abstraction of a trie is the set \<open>ds_rules\<close> of its rules, each a list of at most three
  labels read from the top-level domain.
\<close>

section \<open>Names\<close>

text \<open>
  The two functions of the matcher that come from tables outside the repository: Unicode case
  folding and \<^verbatim>\<open>idnaProfile.ToASCII\<close> of \<^verbatim>\<open>golang.org/x/net/idna\<close> (\<open>None\<close> is its error).
\<close>

record name_lib =
  uniLower :: "string \<Rightarrow> string"
  toASCII :: "string \<Rightarrow> string option"

definition Normalize :: "name_lib \<Rightarrow> string \<Rightarrow> string" where
  "Normalize L domain =
     (let d = go_ToLower (uniLower L) (go_Trim (TrimSpace domain) ''.'') in
      if d = '''' then ''''
      else if isASCII d then d
      else (case toASCII L d of None \<Rightarrow> '''' | Some ascii \<Rightarrow> ascii))"

definition tld_char :: "char \<Rightarrow> bool" where
  "tld_char c =
     (let n = (of_char c :: int) in
      97 \<le> n \<and> n \<le> 122 \<or> 48 \<le> n \<and> n \<le> 57 \<or> c = CHR ''-'')"

definition isTLDLike :: "string \<Rightarrow> bool" where
  "isTLDLike s = (if s = '''' then False else list_all tld_char s)"

section \<open>The trie\<close>

record sldNode =
  sblocked :: bool
  subs :: "(string, bool) gomap"

record tldNode =
  tblocked :: bool
  slds :: "(string, sldNode) gomap"

record DomainSet =
  tlds :: "(string, tldNode) gomap"
  ds_n :: int

definition NewDomainSet :: DomainSet where
  "NewDomainSet = \<lparr>tlds = [], ds_n = 0\<rparr>"

text \<open>The methods \<^verbatim>\<open>tld\<close> and \<^verbatim>\<open>sld\<close> return the node of a name, creating it on a miss.\<close>

definition tld :: "DomainSet \<Rightarrow> string \<Rightarrow> tldNode \<times> DomainSet" where
  "tld s name =
     (case map_of (tlds s) name of
        Some n \<Rightarrow> (n, s)
      | None \<Rightarrow> (let n = \<lparr>tblocked = False, slds = []\<rparr>
                in (n, s\<lparr>tlds := AList.update name n (tlds s)\<rparr>)))"

definition sld :: "tldNode \<Rightarrow> string \<Rightarrow> sldNode \<times> tldNode" where
  "sld t name =
     (case map_of (slds t) name of
        Some n \<Rightarrow> (n, t)
      | None \<Rightarrow> (let n = \<lparr>sblocked = False, subs = []\<rparr>
                in (n, t\<lparr>slds := AList.update name n (slds t)\<rparr>)))"

text \<open>A write through a node pointer stores the changed node back along its path.\<close>

definition write_tld :: "DomainSet \<Rightarrow> string \<Rightarrow> tldNode \<Rightarrow> DomainSet" where
  "write_tld s name tn = s\<lparr>tlds := AList.update name tn (tlds s)\<rparr>"

definition write_sld :: "tldNode \<Rightarrow> string \<Rightarrow> sldNode \<Rightarrow> tldNode" where
  "write_sld t name sn = t\<lparr>slds := AList.update name sn (slds t)\<rparr>"

definition Add :: "name_lib \<Rightarrow> DomainSet \<Rightarrow> string \<Rightarrow> bool \<times> DomainSet" where
  "Add L s domain =
     (let d = Normalize L domain in
      if d = '''' then (False, s)
      else
        let labels = go_Split CHR ''.'' d; k = length labels in
        if k = 1 then
          if \<not> isTLDLike (labels ! 0) then (False, s)
          else
            let (n, s) = tld s (labels ! 0) in
            if tblocked n then (False, s)
            else (True, (write_tld s (labels ! 0) (n\<lparr>tblocked := True\<rparr>))\<lparr>ds_n := ds_n s + 1\<rparr>)
        else
          let (tn, s) = tld s (labels ! (k - 1));
              (sn, tn) = sld tn (labels ! (k - 2));
              s = write_tld s (labels ! (k - 1)) tn
          in
          if k = 2 then
            if sblocked sn then (False, s)
            else (True, (write_tld s (labels ! (k - 1))
                    (write_sld tn (labels ! (k - 2)) (sn\<lparr>sblocked := True\<rparr>)))\<lparr>ds_n := ds_n s + 1\<rparr>)
          else
            let sub = labels ! (k - 3) in
            if map_of (subs sn) sub = Some True then (False, s)
            else (True, (write_tld s (labels ! (k - 1))
                    (write_sld tn (labels ! (k - 2))
                       (sn\<lparr>subs := AList.update sub True (subs sn)\<rparr>)))\<lparr>ds_n := ds_n s + 1\<rparr>))"

definition Has :: "name_lib \<Rightarrow> DomainSet \<Rightarrow> string \<Rightarrow> bool" where
  "Has L s domain =
     (let d = Normalize L domain in
      if d = '''' then False
      else
        let labels = go_Split CHR ''.'' d; k = length labels in
        case map_of (tlds s) (labels ! (k - 1)) of
          None \<Rightarrow> False
        | Some tn \<Rightarrow>
            if tblocked tn then True
            else if k = 1 then False
            else
              (case map_of (slds tn) (labels ! (k - 2)) of
                 None \<Rightarrow> False
               | Some sn \<Rightarrow>
                   if sblocked sn then True
                   else if 3 \<le> k then map_of (subs sn) (labels ! (k - 3)) = Some True
                   else False))"

definition Len :: "DomainSet \<Rightarrow> int" where
  "Len s = ds_n s"

text \<open>
  \<^verbatim>\<open>Each\<close> as the list of the names it passes to its callback. Go leaves the order of a map
  iteration open; facts about \<open>Each\<close> below hold for every reordering of this list.
\<close>

definition Each :: "DomainSet \<Rightarrow> string list" where
  "Each s =
     concat (map (\<lambda>(t, tn).
       if tblocked tn then [t]
       else concat (map (\<lambda>(l, sn).
         if sblocked sn then [l @ ''.'' @ t]
         else map (\<lambda>(u, _). u @ ''.'' @ l @ ''.'' @ t) (subs sn)) (slds tn))) (tlds s))"

definition add_all :: "name_lib \<Rightarrow> DomainSet \<Rightarrow> string list \<Rightarrow> DomainSet" where
  "add_all L s ds = fold (\<lambda>d s. snd (Add L s d)) ds s"

section \<open>Abstraction: the rules of a trie\<close>

type_synonym rule = "string list"

definition ds_rules :: "DomainSet \<Rightarrow> rule set" where
  "ds_rules s =
     {[t] | t tn. map_of (tlds s) t = Some tn \<and> tblocked tn}
   \<union> {[t, l] | t l tn sn. map_of (tlds s) t = Some tn \<and> map_of (slds tn) l = Some sn \<and> sblocked sn}
   \<union> {[t, l, u] | t l u tn sn. map_of (tlds s) t = Some tn \<and> map_of (slds tn) l = Some sn \<and>
        map_of (subs sn) u = Some True}"

text \<open>The labels of a name from the top-level domain down; \<open>[]\<close> when there is no usable name.\<close>

definition name_labels :: "name_lib \<Rightarrow> string \<Rightarrow> string list" where
  "name_labels L domain =
     (let d = Normalize L domain in if d = '''' then [] else rev (go_Split CHR ''.'' d))"

text \<open>The rule an entry of a list stands for, if any.\<close>

definition rule_of :: "name_lib \<Rightarrow> string \<Rightarrow> rule option" where
  "rule_of L domain =
     (case name_labels L domain of
        [] \<Rightarrow> None
      | [t] \<Rightarrow> if isTLDLike t then Some [t] else None
      | ls \<Rightarrow> Some (take 3 ls))"

definition covers :: "name_lib \<Rightarrow> string \<Rightarrow> string \<Rightarrow> bool" where
  "covers L e d = (case rule_of L e of None \<Rightarrow> False | Some r \<Rightarrow> prefix r (name_labels L d))"

text \<open>
  Well-formed tries: keys are distinct, the flags of \<^verbatim>\<open>subs\<close> are all true, bare labels are
  TLD-like, and the counter is the number of rules.
\<close>

definition wf_sld :: "sldNode \<Rightarrow> bool" where
  "wf_sld sn \<longleftrightarrow> distinct (map fst (subs sn)) \<and> (\<forall>(u, b) \<in> set (subs sn). b)"

definition wf_tld :: "tldNode \<Rightarrow> bool" where
  "wf_tld tn \<longleftrightarrow> distinct (map fst (slds tn)) \<and> (\<forall>(l, sn) \<in> set (slds tn). wf_sld sn)"

definition wf_set :: "DomainSet \<Rightarrow> bool" where
  "wf_set s \<longleftrightarrow> distinct (map fst (tlds s)) \<and> (\<forall>(t, tn) \<in> set (tlds s). wf_tld tn) \<and>
     finite (ds_rules s) \<and> ds_n s = int (card (ds_rules s)) \<and>
     (\<forall>t. [t] \<in> ds_rules s \<longrightarrow> isTLDLike t)"

lemma ds_rules_1 [simp]:
  "[t] \<in> ds_rules s \<longleftrightarrow> (\<exists>tn. map_of (tlds s) t = Some tn \<and> tblocked tn)"
  by (auto simp: ds_rules_def)

lemma ds_rules_2 [simp]:
  "[t, l] \<in> ds_rules s \<longleftrightarrow>
     (\<exists>tn sn. map_of (tlds s) t = Some tn \<and> map_of (slds tn) l = Some sn \<and> sblocked sn)"
  by (auto simp: ds_rules_def)

lemma ds_rules_3 [simp]:
  "[t, l, u] \<in> ds_rules s \<longleftrightarrow>
     (\<exists>tn sn. map_of (tlds s) t = Some tn \<and> map_of (slds tn) l = Some sn \<and>
        map_of (subs sn) u = Some True)"
  by (auto simp: ds_rules_def)

lemma ds_rules_Nil [simp]: "[] \<notin> ds_rules s"
  by (auto simp: ds_rules_def)

lemma ds_rules_long [simp]: "a # b # c # d # r \<notin> ds_rules s"
  by (auto simp: ds_rules_def)

lemma rule_shapes:
  obtains "r = []" | t where "r = [t]" | t l where "r = [t, l]" | t l u where "r = [t, l, u]"
    | a b c d r' where "r = a # b # c # d # r'"
proof (cases r)
  case (Cons a r1)
  note a = Cons
  show thesis
  proof (cases r1)
    case Nil
    then show thesis using a that(2) by blast
  next
    case (Cons b r2)
    note b = Cons
    show thesis
    proof (cases r2)
      case Nil
      then show thesis using a b that(3) by blast
    next
      case (Cons c r3)
      then show thesis using a b that(4,5) by (cases r3) blast+
    qed
  qed
qed (use that(1) in blast)

lemma ds_rules_eqI:
  assumes "\<And>t. [t] \<in> ds_rules s \<longleftrightarrow> [t] \<in> R"
    and "\<And>t l. [t, l] \<in> ds_rules s \<longleftrightarrow> [t, l] \<in> R"
    and "\<And>t l u. [t, l, u] \<in> ds_rules s \<longleftrightarrow> [t, l, u] \<in> R"
    and "[] \<notin> R" and "\<And>a b c d r. a # b # c # d # r \<notin> R"
  shows "ds_rules s = R"
proof (rule set_eqI)
  show "r \<in> ds_rules s \<longleftrightarrow> r \<in> R" for r
    by (cases r rule: rule_shapes) (use assms in \<open>auto simp del: ds_rules_1 ds_rules_2 ds_rules_3\<close>)
qed

section \<open>Operations on rules\<close>

lemma labels_cases:
  assumes "Normalize L domain \<noteq> ''''"
  defines "labels \<equiv> go_Split CHR ''.'' (Normalize L domain)"
  obtains t where "labels = [t]" "name_labels L domain = [t]"
    | t l where "labels = [l, t]" "name_labels L domain = [t, l]"
    | t l u rest where "labels = rev rest @ [u, l, t]" "name_labels L domain = t # l # u # rest"
proof -
  from assms have nl: "name_labels L domain = rev labels"
    by (simp add: name_labels_def)
  from labels_def have "rev labels \<noteq> []" by simp
  then show thesis
  proof (cases "rev labels" rule: rule_shapes)
    case (5 a b c d r)
    then have "labels = rev (d # r) @ [c, b, a]" by (simp add: rev_swap)
    with 5 nl show thesis using that(3) [of "d # r" c b a] by simp
  qed (use nl that(3) [of "[]"] in \<open>auto simp: rev_swap intro: that(1,2)\<close>)
qed

lemma Normalize_Nil_labels: "Normalize L domain = '''' \<longleftrightarrow> name_labels L domain = []"
  by (simp add: name_labels_def Let_def)

theorem Has_rules: "Has L s domain \<longleftrightarrow> (\<exists>r \<in> ds_rules s. prefix r (name_labels L domain))"
proof (cases "Normalize L domain = ''''")
  case True
  then show ?thesis by (auto simp: Has_def Normalize_Nil_labels)
next
  case False
  have ex: "(\<exists>r \<in> ds_rules s. prefix r ls) \<longleftrightarrow>
      (\<exists>t. [t] \<in> ds_rules s \<and> prefix [t] ls) \<or> (\<exists>t l. [t, l] \<in> ds_rules s \<and> prefix [t, l] ls) \<or>
      (\<exists>t l u. [t, l, u] \<in> ds_rules s \<and> prefix [t, l, u] ls)" for ls
    by (metis ds_rules_Nil ds_rules_long rule_shapes)
  show ?thesis
    using False by (cases rule: labels_cases)
      (auto simp: Has_def ex Normalize_Nil_labels Let_def nth_append split: option.split)
qed

lemma tld_simps:
  "fst (tld s t) = (case map_of (tlds s) t of Some n \<Rightarrow> n | None \<Rightarrow> \<lparr>tblocked = False, slds = []\<rparr>)"
  "ds_n (snd (tld s t)) = ds_n s"
  "map_of (tlds (snd (tld s t))) = (map_of (tlds s))(t \<mapsto> fst (tld s t))"
  by (auto simp: tld_def Let_def split: option.split)

lemma sld_simps:
  "fst (sld n l) = (case map_of (slds n) l of Some n \<Rightarrow> n | None \<Rightarrow> \<lparr>sblocked = False, subs = []\<rparr>)"
  "tblocked (snd (sld n l)) = tblocked n"
  "map_of (slds (snd (sld n l))) = (map_of (slds n))(l \<mapsto> fst (sld n l))"
  by (auto simp: sld_def Let_def split: option.split)

text \<open>\<open>Add\<close> on each shape of name, over the two accessors.\<close>

lemma Add_1:
  assumes "name_labels L domain = [t]"
  shows "Add L s domain =
    (if \<not> isTLDLike t then (False, s)
     else if tblocked (fst (tld s t)) then (False, snd (tld s t))
     else (True, (write_tld (snd (tld s t)) t ((fst (tld s t))\<lparr>tblocked := True\<rparr>))\<lparr>ds_n := ds_n s + 1\<rparr>))"
proof -
  from assms have "Normalize L domain \<noteq> ''''" by (simp add: Normalize_Nil_labels)
  then show ?thesis
    using assms by (cases rule: labels_cases)
      (simp_all add: Add_def Normalize_Nil_labels Let_def tld_simps(2) case_prod_beta)
qed

definition add_base :: "DomainSet \<Rightarrow> string \<Rightarrow> string \<Rightarrow> DomainSet" where
  "add_base s t l = write_tld (snd (tld s t)) t (snd (sld (fst (tld s t)) l))"

lemma Add_2:
  assumes "name_labels L domain = [t, l]"
  shows "Add L s domain =
    (let tn = snd (sld (fst (tld s t)) l); sn = fst (sld (fst (tld s t)) l) in
     if sblocked sn then (False, add_base s t l)
     else (True, (write_tld (add_base s t l) t (write_sld tn l (sn\<lparr>sblocked := True\<rparr>)))\<lparr>ds_n := ds_n s + 1\<rparr>))"
proof -
  from assms have "Normalize L domain \<noteq> ''''" by (simp add: Normalize_Nil_labels)
  then show ?thesis
    using assms by (cases rule: labels_cases)
      (simp_all add: Add_def Normalize_Nil_labels Let_def tld_simps(2) add_base_def write_tld_def
        case_prod_beta)
qed

lemma Add_3:
  assumes "name_labels L domain = t # l # u # rest"
  shows "Add L s domain =
    (let tn = snd (sld (fst (tld s t)) l); sn = fst (sld (fst (tld s t)) l) in
     if map_of (subs sn) u = Some True then (False, add_base s t l)
     else (True, (write_tld (add_base s t l) t
             (write_sld tn l (sn\<lparr>subs := AList.update u True (subs sn)\<rparr>)))\<lparr>ds_n := ds_n s + 1\<rparr>))"
proof -
  from assms have "Normalize L domain \<noteq> ''''" by (simp add: Normalize_Nil_labels)
  then show ?thesis
    using assms by (cases rule: labels_cases)
      (auto simp: Add_def Normalize_Nil_labels Let_def tld_simps(2) add_base_def write_tld_def
        nth_append case_prod_beta)
qed

lemma Add_0: "name_labels L domain = [] \<Longrightarrow> Add L s domain = (False, s)"
  by (simp add: Add_def Normalize_Nil_labels [symmetric])

lemma rule_of_simps:
  "name_labels L d = [] \<Longrightarrow> rule_of L d = None"
  "name_labels L d = [t] \<Longrightarrow> rule_of L d = (if isTLDLike t then Some [t] else None)"
  "name_labels L d = [t, l] \<Longrightarrow> rule_of L d = Some [t, l]"
  "name_labels L d = t # l # u # rest \<Longrightarrow> rule_of L d = Some [t, l, u]"
  by (simp_all add: rule_of_def)

lemma add_base_rules: "ds_rules (add_base s t l) = ds_rules s"
  by (rule ds_rules_eqI)
    (auto simp: add_base_def write_tld_def tld_simps sld_simps split: option.splits if_splits)

lemma name_shapes:
  obtains "name_labels L d = []" | t where "name_labels L d = [t]" | t l where "name_labels L d = [t, l]"
    | t l u rest where "name_labels L d = t # l # u # rest"
  by (metis rule_shapes)

lemma Add_rules:
  "ds_rules (snd (Add L s d)) = set_option (rule_of L d) \<union> ds_rules s \<and>
   fst (Add L s d) = (case rule_of L d of None \<Rightarrow> False | Some r \<Rightarrow> r \<notin> ds_rules s) \<and>
   ds_n (snd (Add L s d)) = (if fst (Add L s d) then ds_n s + 1 else ds_n s)"
proof (cases rule: name_shapes [of L d])
  case 1
  then show ?thesis by (simp add: Add_0 rule_of_simps)
next
  case (2 t)
  have "ds_rules (snd (Add L s d)) = (if isTLDLike t then {[t]} else {}) \<union> ds_rules s"
    by (rule ds_rules_eqI)
      (auto simp: Add_1 [OF 2] write_tld_def tld_simps split: option.splits if_splits)
  then show ?thesis
    by (auto simp: rule_of_simps(2) [OF 2] Add_1 [OF 2] tld_simps split: option.splits)
next
  case (3 t l)
  have "ds_rules (snd (Add L s d)) = {[t, l]} \<union> ds_rules s"
    by (rule ds_rules_eqI)
      (auto simp: Add_2 [OF 3] add_base_def write_tld_def write_sld_def Let_def tld_simps sld_simps
        split: option.splits if_splits)
  then show ?thesis
    by (auto simp: rule_of_simps(3) [OF 3] Add_2 [OF 3] tld_simps sld_simps Let_def add_base_def
        write_tld_def split: option.splits)
next
  case (4 t l u rest)
  have "ds_rules (snd (Add L s d)) = {[t, l, u]} \<union> ds_rules s"
    by (rule ds_rules_eqI)
      (auto simp: Add_3 [OF 4] add_base_def write_tld_def write_sld_def Let_def tld_simps sld_simps
        split: option.splits if_splits)
  then show ?thesis
    by (auto simp: rule_of_simps(4) [OF 4] Add_3 [OF 4] tld_simps sld_simps Let_def add_base_def
        write_tld_def split: option.splits)
qed

section \<open>Well-formedness\<close>

lemma wf_NewDomainSet [wf_intros]: "wf_set NewDomainSet"
  by (auto simp: wf_set_def NewDomainSet_def ds_rules_def)

lemma wf_lookup:
  "wf_set s \<Longrightarrow> map_of (tlds s) t = Some tn \<Longrightarrow> wf_tld tn"
  "wf_tld tn \<Longrightarrow> map_of (slds tn) l = Some sn \<Longrightarrow> wf_sld sn"
  by (auto simp: wf_set_def wf_tld_def dest: map_of_SomeD)

text \<open>The part of the invariant that speaks of keys only; the accessors and writes keep it.\<close>

definition wf_keys :: "DomainSet \<Rightarrow> bool" where
  "wf_keys s \<longleftrightarrow> distinct (map fst (tlds s)) \<and> (\<forall>(t, tn) \<in> set (tlds s). wf_tld tn)"

lemma wf_keys_write_tld: "wf_keys s \<Longrightarrow> wf_tld tn \<Longrightarrow> wf_keys (write_tld s t tn)"
  by (auto simp: wf_keys_def write_tld_def set_update_distinct intro: wf_intros)

lemma wf_tld_write_sld: "wf_tld tn \<Longrightarrow> wf_sld sn \<Longrightarrow> wf_tld (write_sld tn l sn)"
  by (auto simp: wf_tld_def write_sld_def set_update_distinct intro: wf_intros)

lemma wf_keys_tld:
  assumes "wf_keys s"
  shows "wf_keys (snd (tld s t)) \<and> wf_tld (fst (tld s t))"
proof -
  have e: "wf_tld \<lparr>tblocked = False, slds = []\<rparr>" by (simp add: wf_tld_def)
  with wf_keys_write_tld [OF assms] show ?thesis
    using assms by (auto simp: tld_def Let_def write_tld_def wf_keys_def
        split: option.split dest: map_of_SomeD)
qed

lemma wf_tld_sld:
  assumes "wf_tld tn"
  shows "wf_tld (snd (sld tn l)) \<and> wf_sld (fst (sld tn l))"
proof -
  have e: "wf_sld \<lparr>sblocked = False, subs = []\<rparr>" by (simp add: wf_sld_def)
  with wf_tld_write_sld [OF assms] show ?thesis
    using assms by (auto simp: sld_def Let_def write_sld_def wf_tld_def
        split: option.split dest: map_of_SomeD)
qed

lemma wf_sld_add_sub: "wf_sld sn \<Longrightarrow> wf_sld (sn\<lparr>subs := AList.update u True (subs sn)\<rparr>)"
  by (auto simp: wf_sld_def set_update_distinct intro: wf_intros)

lemma wf_flags [simp]:
  "wf_tld (tn\<lparr>tblocked := b\<rparr>) = wf_tld tn" "wf_sld (sn\<lparr>sblocked := b\<rparr>) = wf_sld sn"
  "wf_keys (s\<lparr>ds_n := n\<rparr>) = wf_keys s"
  by (simp_all add: wf_tld_def wf_sld_def wf_keys_def)

lemmas wf_steps =
  wf_keys_write_tld wf_tld_write_sld wf_sld_add_sub
  wf_keys_tld [THEN conjunct1] wf_keys_tld [THEN conjunct2]
  wf_tld_sld [THEN conjunct1] wf_tld_sld [THEN conjunct2]

lemma wf_keys_Add: "wf_keys s \<Longrightarrow> wf_keys (snd (Add L s d))"
  by (cases rule: name_shapes [of L d])
    (auto simp: Add_0 Add_1 Add_2 Add_3 Let_def add_base_def intro!: wf_steps)

lemma isTLDLike_rule_of: "rule_of L d = Some [t] \<Longrightarrow> isTLDLike t"
  by (cases rule: name_shapes [of L d]) (auto simp: rule_of_simps split: if_splits)

lemma wf_set_keys:
  "wf_set s \<longleftrightarrow> wf_keys s \<and> finite (ds_rules s) \<and> ds_n s = int (card (ds_rules s)) \<and>
     (\<forall>t. [t] \<in> ds_rules s \<longrightarrow> isTLDLike t)"
  by (simp add: wf_set_def wf_keys_def del: ds_rules_1)

lemma wf_Add [wf_intros]:
  assumes "wf_set s"
  shows "wf_set (snd (Add L s d))"
proof -
  have k: "wf_keys (snd (Add L s d))"
    using assms by (simp add: wf_set_keys wf_keys_Add)
  have r: "ds_rules (snd (Add L s d)) = set_option (rule_of L d) \<union> ds_rules s"
    and f: "fst (Add L s d) = (case rule_of L d of None \<Rightarrow> False | Some r \<Rightarrow> r \<notin> ds_rules s)"
    and n: "ds_n (snd (Add L s d)) = (if fst (Add L s d) then ds_n s + 1 else ds_n s)"
    using Add_rules by blast+
  have "ds_n (snd (Add L s d)) = int (card (set_option (rule_of L d) \<union> ds_rules s))"
    using assms by (auto simp: n f wf_set_keys insert_absorb simp del: ds_rules_1 split: option.split)
  moreover have "isTLDLike t" if "[t] \<in> set_option (rule_of L d) \<union> ds_rules s" for t
    using that assms isTLDLike_rule_of by (auto simp: wf_set_keys simp del: ds_rules_1)
  ultimately show ?thesis
    using k assms unfolding wf_set_keys r by (simp del: ds_rules_1)
qed

lemma wf_add_all [wf_intros]: "wf_set s \<Longrightarrow> wf_set (add_all L s ds)"
  unfolding add_all_def by (induction ds arbitrary: s) (auto intro: wf_intros)

lemma add_all_rules:
  "ds_rules (add_all L s ds) = (\<Union>d \<in> set ds. set_option (rule_of L d)) \<union> ds_rules s"
  unfolding add_all_def by (induction ds arbitrary: s) (auto simp: Add_rules)

section \<open>Walking a trie\<close>

definition rule_str :: "rule \<Rightarrow> string" where
  "rule_str r = go_Join ''.'' (rev r)"

definition top_rules :: "rule set \<Rightarrow> rule set" where
  "top_rules R = {r \<in> R. \<forall>r' \<in> R. prefix r' r \<longrightarrow> r' = r}"

lemma rule_str_simps [simp]:
  "rule_str [t] = t" "rule_str [t, l] = l @ ''.'' @ t" "rule_str [t, l, u] = u @ ''.'' @ l @ ''.'' @ t"
  by (simp_all add: rule_str_def)

text \<open>Names of clean rules survive normalisation, so \<open>Add\<close> reads back the rule \<open>Each\<close> printed.\<close>

definition clean_set :: "DomainSet \<Rightarrow> bool" where
  "clean_set s \<longleftrightarrow> (\<forall>r \<in> ds_rules s. list_all plain_label r)"

lemma Normalize_plain:
  assumes "ls \<noteq> []" and "list_all plain_label ls"
  shows "Normalize L (go_Join ''.'' ls) = go_Join ''.'' ls"
proof -
  let ?s = "go_Join ''.'' ls"
  have chars: "c = CHR ''.'' \<or> plain_char c" if "c \<in> set ?s" for c
    using that set_go_Join [of "''.''" ls] assms(2) by (fastforce simp: list_all_iff plain_label_def)
  have ends: "plain_char (hd ?s)" "plain_char (last ?s)" "?s \<noteq> []"
  proof -
    have "plain_label (hd ls)" "plain_label (last ls)"
      using assms by (auto simp: list_all_iff)
    then show "plain_char (hd ?s)" "plain_char (last ?s)" "?s \<noteq> []"
      using assms(1) by (auto simp: plain_label_def hd_go_Join last_go_Join list_all_iff go_Join_not_Nil)
  qed
  have "go_Trim (TrimSpace ?s) ''.'' = ?s"
    using ends by (simp add: TrimSpace_plain_ends go_Trim_ends plain_char_no_dot)
  moreover have "isASCII ?s"
    unfolding isASCII_def list_all_iff using chars by (fastforce simp: plain_char_def Let_def)
  moreover have "map ascii_lower ?s = ?s"
    by (rule map_idI) (metis chars ascii_lower_plain ascii_lower_dot)
  ultimately show ?thesis using ends by (simp add: Normalize_def go_ToLower_def Let_def)
qed

lemma name_labels_rule_str:
  assumes "r \<noteq> []" and "list_all plain_label r"
  shows "name_labels L (rule_str r) = r"
proof -
  have "list_all plain_label (rev r)" and "rev r \<noteq> []" using assms by simp_all
  note n = Normalize_plain [OF this(2,1), of L]
  have "go_Join ''.'' (rev r) \<noteq> []"
    using assms by (intro go_Join_not_Nil) (auto simp: list_all_iff plain_label_def hd_rev)
  moreover have "go_Split CHR ''.'' (go_Join ''.'' (rev r)) = rev r"
    using assms by (intro go_Split_Join) (auto simp: list_all_iff plain_label_no_dot)
  ultimately show ?thesis by (simp add: name_labels_def rule_str_def n)
qed

lemma rule_of_rule_str:
  assumes "wf_set s" and "clean_set s" and "r \<in> ds_rules s"
  shows "rule_of L (rule_str r) = Some r"
proof -
  have "r \<noteq> []" using assms(3) by auto
  with assms have "name_labels L (rule_str r) = r"
    by (simp add: name_labels_rule_str clean_set_def)
  moreover have "isTLDLike t" if "r = [t]" for t
    using assms(1,3) that by (simp add: wf_set_def del: ds_rules_1)
  ultimately show ?thesis
    using assms(3) by (cases r rule: rule_shapes) (auto simp: rule_of_def simp del: ds_rules_1 ds_rules_2 ds_rules_3)
qed

lemma in_wf_map:
  "distinct (map fst m) \<Longrightarrow> (k, v) \<in> set m \<longleftrightarrow> map_of m k = Some v"
  by (auto dest: map_of_SomeD)

lemma set_Each:
  assumes "wf_set s"
  shows "set (Each s) = rule_str ` top_rules (ds_rules s)"
proof -
  have d: "distinct (map fst (tlds s))" using assms by (simp add: wf_set_def)
  have dl: "distinct (map fst (slds tn))" if "map_of (tlds s) t = Some tn" for t tn
    using wf_lookup(1) [OF assms that] by (simp add: wf_tld_def)
  have du: "distinct (map fst (subs sn)) \<and> (\<forall>(u, b) \<in> set (subs sn). b)"
    if "map_of (tlds s) t = Some tn" "map_of (slds tn) l = Some sn" for t tn l sn
    using wf_lookup(2) [OF wf_lookup(1) [OF assms that(1)] that(2)] by (simp add: wf_sld_def)
  have us: "e \<in> (\<lambda>(u, _). f u) ` set (subs sn) \<longleftrightarrow> (\<exists>u. map_of (subs sn) u = Some True \<and> e = f u)"
    if "map_of (tlds s) t = Some tn" "map_of (slds tn) l = Some sn"
    for t tn l sn e and f :: "string \<Rightarrow> string"
    using du [OF that] in_wf_map [of "subs sn" _ True] by (fastforce dest: map_of_SomeD)
  have tops: "top_rules (ds_rules s) = {[t] | t. [t] \<in> ds_rules s}
      \<union> {[t, l] | t l. [t, l] \<in> ds_rules s \<and> [t] \<notin> ds_rules s}
      \<union> {[t, l, u] | t l u. [t, l, u] \<in> ds_rules s \<and> [t] \<notin> ds_rules s \<and> [t, l] \<notin> ds_rules s}"
    (is "_ = ?T")
  proof (rule set_eqI)
    show "r \<in> top_rules (ds_rules s) \<longleftrightarrow> r \<in> ?T" for r
      by (cases r rule: rule_shapes)
        (auto simp: top_rules_def prefix_Cons simp del: ds_rules_1 ds_rules_2 ds_rules_3)
  qed
  have "e \<in> set (Each s) \<longleftrightarrow> (\<exists>t tn. map_of (tlds s) t = Some tn \<and>
      (if tblocked tn then e = t else \<exists>l sn. map_of (slds tn) l = Some sn \<and>
        (if sblocked sn then e = l @ ''.'' @ t
         else \<exists>u. map_of (subs sn) u = Some True \<and> e = u @ ''.'' @ l @ ''.'' @ t)))" (is "_ \<longleftrightarrow> ?E e") for e
    unfolding Each_def set_concat set_map image_image
    by (simp add: Bex_def split_paired_Ex in_wf_map [OF d] in_wf_map [OF dl] us cong: conj_cong)
  moreover have "e \<in> rule_str ` top_rules (ds_rules s) \<longleftrightarrow> ?E e" for e
  proof -
    have "e \<in> rule_str ` top_rules (ds_rules s) \<longleftrightarrow> [e] \<in> ds_rules s
        \<or> (\<exists>t l. [t, l] \<in> ds_rules s \<and> [t] \<notin> ds_rules s \<and> e = l @ ''.'' @ t)
        \<or> (\<exists>t l u. [t, l, u] \<in> ds_rules s \<and> [t] \<notin> ds_rules s \<and> [t, l] \<notin> ds_rules s
              \<and> e = u @ ''.'' @ l @ ''.'' @ t)"
      unfolding tops image_Un image_setcompr1 image_setcompr2 image_setcompr3 rule_str_simps
      by (simp del: ds_rules_1 ds_rules_2 ds_rules_3) blast
    also have "\<dots> \<longleftrightarrow> ?E e"
    proof
      assume "?E e"
      then obtain t tn where t: "map_of (tlds s) t = Some tn"
        and e: "if tblocked tn then e = t else \<exists>l sn. map_of (slds tn) l = Some sn \<and>
          (if sblocked sn then e = l @ ''.'' @ t
           else \<exists>u. map_of (subs sn) u = Some True \<and> e = u @ ''.'' @ l @ ''.'' @ t)" by blast
      show "[e] \<in> ds_rules s
          \<or> (\<exists>t l. [t, l] \<in> ds_rules s \<and> [t] \<notin> ds_rules s \<and> e = l @ ''.'' @ t)
          \<or> (\<exists>t l u. [t, l, u] \<in> ds_rules s \<and> [t] \<notin> ds_rules s \<and> [t, l] \<notin> ds_rules s
                \<and> e = u @ ''.'' @ l @ ''.'' @ t)"
      proof (cases "tblocked tn")
        case False
        with e obtain l sn where l: "map_of (slds tn) l = Some sn" and e': "if sblocked sn
            then e = l @ ''.'' @ t
            else \<exists>u. map_of (subs sn) u = Some True \<and> e = u @ ''.'' @ l @ ''.'' @ t" by auto
        have "[t] \<notin> ds_rules s" "[t, l] \<in> ds_rules s \<longleftrightarrow> sblocked sn"
          "[t, l, u] \<in> ds_rules s \<longleftrightarrow> map_of (subs sn) u = Some True" for u
          using t l False by auto
        with e' show ?thesis by (metis (no_types))
      qed (use t e in auto)
    qed fastforce
    finally show ?thesis .
  qed
  ultimately show ?thesis by blast
qed

lemma top_rules_below:
  assumes "r \<in> R"
  shows "\<exists>r' \<in> top_rules R. prefix r' r"
  using assms
proof (induction "length r" arbitrary: r rule: less_induct)
  case less
  show ?case
  proof (cases "r \<in> top_rules R")
    case False
    then obtain r' where "r' \<in> R" "prefix r' r" "r' \<noteq> r"
      using less.prems by (auto simp: top_rules_def)
    moreover from this have "length r' < length r"
      by (simp add: prefix_length_less strict_prefixI)
    ultimately show ?thesis using less.hyps prefix_order.trans by blast
  qed auto
qed

lemma Has_Each:
  assumes "wf_set s" and "clean_set s"
  shows "Has L s d \<longleftrightarrow> (\<exists>e \<in> set (Each s). covers L e d)"
proof -
  have "covers L (rule_str r) d \<longleftrightarrow> prefix r (name_labels L d)" if "r \<in> ds_rules s" for r
    by (simp add: covers_def rule_of_rule_str [OF assms that])
  then have "(\<exists>e \<in> set (Each s). covers L e d)
      \<longleftrightarrow> (\<exists>r \<in> top_rules (ds_rules s). prefix r (name_labels L d))"
    by (auto simp: set_Each [OF assms(1)] top_rules_def)
  also have "\<dots> \<longleftrightarrow> (\<exists>r \<in> ds_rules s. prefix r (name_labels L d))"
    by (metis (no_types, lifting) mem_Collect_eq prefix_order.trans top_rules_below top_rules_def)
  finally show ?thesis by (simp add: Has_rules)
qed

lemma Has_Add: "Has L (snd (Add L s e)) d \<longleftrightarrow> Has L s d \<or> covers L e d"
  by (auto simp: Has_rules Add_rules covers_def split: option.split)

lemma not_Has_NewDomainSet: "\<not> Has L NewDomainSet d"
  by (simp add: Has_rules ds_rules_def NewDomainSet_def)

section \<open>The interface of a suffix set\<close>

text \<open>
  What the filter engine relies on: after adding an entry exactly the names it covers are new,
  and the walk of a clean set names entries that together cover what the set has.
\<close>

locale suffix_set =
  fixes empty :: 's
    and add :: "'s \<Rightarrow> string \<Rightarrow> bool \<times> 's"
    and has :: "'s \<Rightarrow> string \<Rightarrow> bool"
    and each :: "'s \<Rightarrow> string list"
    and cov :: "string \<Rightarrow> string \<Rightarrow> bool"
    and invar :: "'s \<Rightarrow> bool"
    and clean :: "'s \<Rightarrow> bool"
  assumes has_empty: "\<not> has empty d"
    and has_add: "has (snd (add s e)) d \<longleftrightarrow> has s d \<or> cov e d"
    and has_each: "invar s \<Longrightarrow> clean s \<Longrightarrow> has s d \<longleftrightarrow> (\<exists>e \<in> set (each s). cov e d)"
    and invar_empty: "invar empty"
    and invar_add: "invar s \<Longrightarrow> invar (snd (add s e))"
begin

lemma has_fold: "has (fold (\<lambda>e s. snd (add s e)) es s) d \<longleftrightarrow> has s d \<or> (\<exists>e \<in> set es. cov e d)"
  by (induction es arbitrary: s) (auto simp: has_add)

lemma has_build: "has (fold (\<lambda>e s. snd (add s e)) es empty) d \<longleftrightarrow> (\<exists>e \<in> set es. cov e d)"
  by (simp add: has_fold has_empty)

lemma invar_fold: "invar s \<Longrightarrow> invar (fold (\<lambda>e s. snd (add s e)) es s)"
  by (induction es arbitrary: s) (auto intro: invar_add)

text \<open>Adding everything a walk names, in any order, is union.\<close>

lemma has_union:
  assumes "invar old" and "clean old" and "mset es = mset (each old)"
  shows "has (fold (\<lambda>e s. snd (add s e)) es s) d \<longleftrightarrow> has s d \<or> has old d"
  using has_each [OF assms(1,2)] mset_eq_setD [OF assms(3)] by (simp add: has_fold)

end

interpretation ds: suffix_set NewDomainSet "Add L" "Has L" Each "covers L" wf_set clean_set
  for L :: name_lib
  by unfold_locales
    (auto simp: not_Has_NewDomainSet Has_Add Has_Each intro: wf_intros)

lemma has_add_all: "Has L (add_all L s es) d \<longleftrightarrow> Has L s d \<or> (\<exists>e \<in> set es. covers L e d)"
  unfolding add_all_def by (rule ds.has_fold)

section \<open>Properties\<close>

text \<open>
  C18: \<^verbatim>\<open>DomainSet\<close> answers exactly by label suffix. A set built by any sequence of
  \<^verbatim>\<open>Add\<close> calls has a name precisely when one of the added entries covers it, that is, when
  the last labels of the name (three at most) are those of the entry.
\<close>

theorem domain_set_exact:
  "Has L (add_all L NewDomainSet es) d \<longleftrightarrow> (\<exists>e \<in> set es. covers L e d)"
  unfolding add_all_def by (rule ds.has_build)

text \<open>
  C19: Entries of at most three labels mean what the package comment says: an added entry
  \<^verbatim>\<open>example.com\<close> matches the name itself and every name below it, and nothing else. The
  hypotheses say that the entry is a proper name of one to three labels (a single label must be
  TLD-like, as \<^verbatim>\<open>isTLDLike\<close> asks).
\<close>

theorem short_entry_is_suffix:
  assumes "name_labels L e \<noteq> []" and "length (name_labels L e) \<le> 3"
    and "length (name_labels L e) = 1 \<longrightarrow> isTLDLike (hd (name_labels L e))"
  shows "Has L (snd (Add L NewDomainSet e)) d \<longleftrightarrow> prefix (name_labels L e) (name_labels L d)"
proof -
  have "rule_of L e = Some (name_labels L e)"
    using assms by (cases rule: name_shapes [of L e]) (auto simp: rule_of_simps)
  then show ?thesis by (simp add: Has_Add not_Has_NewDomainSet covers_def)
qed

definition ascii_lib :: name_lib where
  "ascii_lib = \<lparr>uniLower = (\<lambda>s. s), toASCII = (\<lambda>s. None)\<rparr>"

theorem short_entry_is_suffix_witness:
  "Has ascii_lib (snd (Add ascii_lib NewDomainSet ''example.com'')) ''a.b.Example.com.''
   \<and> \<not> Has ascii_lib (snd (Add ascii_lib NewDomainSet ''example.com'')) ''notexample.com''"
proof -
  have e: "name_labels ascii_lib ''example.com'' = [''com'', ''example'']" by code_simp
  have "name_labels ascii_lib ''a.b.Example.com.'' = [''com'', ''example'', ''b'', ''a'']"
    and "name_labels ascii_lib ''notexample.com'' = [''com'', ''notexample'']" by code_simp+
  then show ?thesis
    using short_entry_is_suffix [of ascii_lib "''example.com''", unfolded e] by simp
qed

text \<open>
  An entry of more than three labels blocks more than itself: it is stored as its third label
  from the top, so every name below that label matches, the parent of the entry included. For
  \<^verbatim>\<open>tracker.shop.co.uk\<close> this is all of \<^verbatim>\<open>shop.co.uk\<close>.
\<close>

theorem deep_entry_overblocks:
  assumes "name_labels L e = t # l # u # rest" and "prefix [t, l, u] (name_labels L d)"
  shows "Has L (snd (Add L s e)) d"
  using assms by (simp add: Has_Add covers_def rule_of_simps)

theorem deep_entry_overblocks_witness:
  "Has ascii_lib (snd (Add ascii_lib NewDomainSet ''tracker.shop.co.uk'')) ''shop.co.uk''"
proof -
  have "name_labels ascii_lib ''tracker.shop.co.uk'' = [''uk'', ''co'', ''shop'', ''tracker'']"
    and "name_labels ascii_lib ''shop.co.uk'' = [''uk'', ''co'', ''shop'']" by code_simp+
  then show ?thesis by (intro deep_entry_overblocks) auto
qed

text \<open>
  The counter behind \<^verbatim>\<open>Len\<close> is the number of distinct rules after any sequence of
  \<^verbatim>\<open>Add\<close> calls, and \<^verbatim>\<open>Add\<close> reports true exactly when the rule of its argument is new.
\<close>

theorem len_counts_rules:
  "Len (add_all L NewDomainSet es) = int (card (ds_rules (add_all L NewDomainSet es)))
   \<and> fst (Add L (add_all L NewDomainSet es) e) =
       (\<exists>r. rule_of L e = Some r \<and> r \<notin> (\<Union>d \<in> set es. set_option (rule_of L d)))"
proof
  have "wf_set (add_all L NewDomainSet es)" by (intro wf_intros)
  then show "Len (add_all L NewDomainSet es) = int (card (ds_rules (add_all L NewDomainSet es)))"
    by (simp add: wf_set_def Len_def)
  have "ds_rules NewDomainSet = {}" by (simp add: ds_rules_def NewDomainSet_def)
  then show "fst (Add L (add_all L NewDomainSet es) e) =
      (\<exists>r. rule_of L e = Some r \<and> r \<notin> (\<Union>d \<in> set es. set_option (rule_of L d)))"
    by (auto simp: Add_rules add_all_rules split: option.split)
qed

text \<open>
  C24: Re-adding the names that \<^verbatim>\<open>Each\<close> passes to its callback, in whatever order the map
  iteration yields them, merges a set into another one: this is the union that
  \<^verbatim>\<open>Refresh\<close> relies on. It needs clean labels; \<^verbatim>\<open>Each\<close> prints \<^verbatim>\<open>a..com\<close>-like entries
  in a form that reads back as a different rule.
\<close>

theorem each_readd_is_union:
  assumes "clean_set (add_all L NewDomainSet olds)"
    and "mset names = mset (Each (add_all L NewDomainSet olds))"
  shows "Has L (add_all L s names) d \<longleftrightarrow> Has L s d \<or> Has L (add_all L NewDomainSet olds) d"
  unfolding add_all_def [of L s] using assms by (intro ds.has_union) (auto intro: wf_intros)

theorem each_readd_is_union_witness:
  "Has ascii_lib (add_all ascii_lib NewDomainSet
     (rev (Each (add_all ascii_lib NewDomainSet [''x.a.com'', ''b.org''])))) ''y.x.a.com''"
proof -
  let ?old = "add_all ascii_lib NewDomainSet [''x.a.com'', ''b.org'']"
  have r: "rule_of ascii_lib ''x.a.com'' = Some [''com'', ''a'', ''x'']"
    "rule_of ascii_lib ''b.org'' = Some [''org'', ''b'']" by code_simp+
  have "ds_rules NewDomainSet = {}" by (simp add: ds_rules_def NewDomainSet_def)
  then have "clean_set ?old"
    by (simp add: clean_set_def add_all_rules r plain_label_def plain_char_def)
  moreover have "Has ascii_lib ?old ''y.x.a.com''" by code_simp
  ultimately show ?thesis using each_readd_is_union by fastforce
qed

end
