(* ===== verification/Supp_Tls.thy ===== *)
theory Supp_Tls
  imports Supp_Config Go_Tls Matcher
begin

text \<open>
  \<^verbatim>\<open>src/internal/ops/tls.go\<close>: the certificates of the encrypted listeners, from the ACME
  manager for a public domain, self-signed without one. The manager is a third-party package: what
  is known of it is what it is built with, and the protocols of its own TLS configuration, which
  are the argument \<open>mgrProtos\<close>.
\<close>

section \<open>Certificates\<close>

record autocert_Manager =
  mg_Cache :: string
  mg_HostPolicy :: string
  mg_Email :: string

record TLSCerts =
  tc_Cert :: "Certificate option"
  tc_Domain :: string
  tc_SelfSign :: bool
  tc_Manager :: "autocert_Manager option"

datatype tls_error = KeyFailed | SerialFailed | CreateFailed | ParseCertFailed | CertDirFailed

definition cert_template :: "string \<Rightarrow> int \<Rightarrow> time \<Rightarrow> x509_Certificate" where
  "cert_template host serial now =
     \<lparr>x_SerialNumber = serial, x_CommonName = host, x_Organization = [''Supp''],
      x_NotBefore = now - Hour, x_NotAfter = now + 825 * 24 * Hour,
      x_KeyUsage = {KeyUsageDigitalSignature, KeyUsageKeyEncipherment}, x_ExtKeyUsage = [ExtKeyUsageServerAuth],
      x_BasicConstraintsValid = True, x_DNSNames = [host], x_IPAddresses = [ParseIP ''127.0.0.1'']\<rparr>"

definition selfSigned :: "x509_lib \<Rightarrow> time \<Rightarrow> string \<Rightarrow> tls_error + Certificate" where
  "selfSigned X now host =
     (case generateKey X of
        None \<Rightarrow> Inl KeyFailed
      | Some key \<Rightarrow>
          (case randInt X (2 ^ 120) of
             None \<Rightarrow> Inl SerialFailed
           | Some serial \<Rightarrow>
               let tmpl = cert_template host serial now in
               (case createCertificate X tmpl tmpl key of
                  None \<Rightarrow> Inl CreateFailed
                | Some der \<Rightarrow>
                    (case parseCertificate X der of
                       None \<Rightarrow> Inl ParseCertFailed
                     | Some leaf \<Rightarrow> Inr \<lparr>ct_Certificate = [der], ct_PrivateKey = key, ct_Leaf = leaf\<rparr>))))"

text \<open>The environment variable \<^verbatim>\<open>SUPP_ACME_EMAIL\<close>, empty when unset.\<close>

definition acmeEmail :: "(string \<Rightarrow> string) \<Rightarrow> string" where
  "acmeEmail env = env ''SUPP_ACME_EMAIL''"

text \<open>
  \<^verbatim>\<open>GetCerts\<close>; \<open>mkdir\<close> says which directories can be made. With a manager it also starts the
  responder for HTTP challenges on port 80, which has no result.
\<close>

definition GetCerts ::
  "name_lib \<Rightarrow> x509_lib \<Rightarrow> (string \<Rightarrow> bool) \<Rightarrow> (string \<Rightarrow> string) \<Rightarrow> time \<Rightarrow> Config \<Rightarrow> tls_error + TLSCerts" where
  "GetCerts L X mkdir env now c =
     (if sv_Domain (c_Server c) = '''' then
        (case selfSigned X now ''supp.local'' of
           Inl err \<Rightarrow> Inl err
         | Inr cert \<Rightarrow> Inr \<lparr>tc_Cert = Some cert, tc_Domain = ''supp.local'', tc_SelfSign = True, tc_Manager = None\<rparr>)
      else
        let host = go_ToLower (uniLower L) (sv_Domain (c_Server c));
            cacheDir = filepath_Join [sv_DataDir (c_Server c), ''certs'']
        in if \<not> mkdir cacheDir then Inl CertDirFailed
           else Inr \<lparr>tc_Cert = None, tc_Domain = host, tc_SelfSign = False,
                     tc_Manager = Some \<lparr>mg_Cache = cacheDir, mg_HostPolicy = host, mg_Email = acmeEmail env\<rparr>\<rparr>)"

section \<open>Configurations\<close>

text \<open>\<^verbatim>\<open>TLSConfig\<close>; its receiver may be \<^verbatim>\<open>nil\<close>. A protocol is appended unless it is there.\<close>

definition add_proto :: "string \<Rightarrow> string list \<Rightarrow> string list" where
  "add_proto p ps = (if p \<in> set ps then ps else ps @ [p])"

definition TLSConfig :: "string list \<Rightarrow> TLSCerts option \<Rightarrow> string list \<Rightarrow> tls_Config" where
  "TLSConfig mgrProtos t nextProtos =
     (let cfg =
        (case Option.bind t tc_Manager of
           Some m \<Rightarrow> \<lparr>ServerName = '''', NextProtos = mgrProtos, MinVersion = 0, Certificates = [], GetCertificate = True\<rparr>
         | None \<Rightarrow>
             \<lparr>ServerName = '''', NextProtos = [], MinVersion = VersionTLS12,
              Certificates = (case Option.bind t tc_Cert of None \<Rightarrow> [] | Some cert \<Rightarrow> [cert]), GetCertificate = False\<rparr>)
      in cfg\<lparr>NextProtos := fold add_proto nextProtos (NextProtos cfg)\<rparr>)"

section \<open>What the listeners get\<close>

lemma fold_add_proto:
  "prefix ps (fold add_proto xs ps) \<and> set (fold add_proto xs ps) = set ps \<union> set xs"
proof (induction xs arbitrary: ps)
  case (Cons x xs)
  show ?case
    using Cons.IH [of "add_proto x ps"] by (auto simp: add_proto_def dest: append_prefixD)
qed simp

text \<open>The manager's own protocol, which answers ACME challenges, is kept in front of the requested ones.\<close>

lemma TLSConfig_protos:
  "prefix (case Option.bind t tc_Manager of None \<Rightarrow> [] | Some _ \<Rightarrow> mp) (NextProtos (TLSConfig mp t xs)) \<and>
   set xs \<subseteq> set (NextProtos (TLSConfig mp t xs))"
  using fold_add_proto [of _ xs] by (auto simp: TLSConfig_def Let_def split: option.split)

lemma GetCerts_listenable:
  "GetCerts L X mkdir env now c = Inr t \<Longrightarrow> tls_listenable (TLSConfig mp (Some t) xs)"
  by (auto simp: GetCerts_def TLSConfig_def tls_listenable_def Let_def split: if_splits sum.splits)

lemma selfSigned_leaf:
  assumes "x509_documented X" and "selfSigned X now host = Inr cert"
  shows "\<exists>serial. ct_Leaf cert = cert_template host serial now \<and> 0 \<le> serial \<and> serial < 2 ^ 120"
  using assms by (auto simp: selfSigned_def x509_documented_def Let_def split: option.splits)

end
