(* ===== verification/Wg_Conf.thy ===== *)
theory Wg_Conf
  imports Netip "HOL-Library.List_Lexorder" "HOL-Library.Char_ord"
begin

text \<open>
  Peer configuration text and tunnel addresses, \<^verbatim>\<open>src/internal/wg/conf.go\<close>: the routes and
  the \<^verbatim>\<open>wg-quick\<close> file of a peer, the choice of a free tunnel address, the gateway address;
  and the byte reader of \<^verbatim>\<open>src/internal/wg/util.go\<close>. The search for an address is a loop
  that the source bounds only by the prefix: it is a partial function whose value is \<open>None\<close> when
  the loop does not end, and that it always ends is proved.
\<close>

unbundle bit_operations_syntax

section \<open>The configuration text of a peer\<close>

record PeerConfig =
  pc_PrivateKey :: string
  pc_Address :: string
  pc_ServerPub :: string
  pc_Endpoint :: string
  pc_FullTunnel :: bool
  pc_SplitDNSIP :: string
  pc_SplitNetworks :: "string list"

text \<open>The loop over the split networks: the routes so far, which are also the ones seen.\<close>

definition route_step :: "string \<Rightarrow> string list \<Rightarrow> string list" where
  "route_step n nets =
     (let n = TrimSpace n in
      if n = '''' \<or> n \<in> set nets then nets
      else if ParsePrefix n = None then nets
      else nets @ [n])"

definition AllowedIPs :: "PeerConfig \<Rightarrow> string" where
  "AllowedIPs p =
     (if pc_FullTunnel p then ''0.0.0.0/0, ::/0''
      else go_Join '', '' (sort (fold route_step (pc_SplitNetworks p) [''0.0.0.0/0''])))"

abbreviation newline :: string where
  "newline \<equiv> [CHR 0x0A]"

definition Render :: "PeerConfig \<Rightarrow> string" where
  "Render p =
     ''[Interface]'' @ newline
     @ ''PrivateKey = '' @ pc_PrivateKey p @ newline
     @ ''Address = '' @ pc_Address p @ ''/32'' @ newline
     @ ''DNS = '' @ pc_SplitDNSIP p @ newline
     @ newline @ ''[Peer]'' @ newline
     @ ''PublicKey = '' @ pc_ServerPub p @ newline
     @ ''Endpoint = '' @ pc_Endpoint p @ newline
     @ ''AllowedIPs = '' @ AllowedIPs p @ newline
     @ ''PersistentKeepalive = 25'' @ newline"

section \<open>Tunnel addresses\<close>

text \<open>\<^verbatim>\<open>As4\<close>, the four bytes of an IPv4 address; it panics on an IPv6 one, which no call reaches.\<close>

definition word_As4 :: "u32 \<Rightarrow> u8 list" where
  "word_As4 w = map (\<lambda>i. ucast (drop_bit (24 - 8 * i) w)) [0 ..< 4]"

text \<open>
  The loop of \<^verbatim>\<open>isBroadcast\<close>, from the last byte to the first, with the host bits still to be set.
\<close>

fun set_host_bits :: "u8 list \<Rightarrow> nat \<Rightarrow> nat \<Rightarrow> u8 list \<Rightarrow> u8 list" where
  "set_host_bits net4 0 remaining lst = lst"
| "set_host_bits net4 (Suc i) remaining lst =
     (if remaining = 0 then lst
      else
        let took = (if 8 < remaining then 8 else remaining)
        in set_host_bits net4 i (remaining - took) (lst[i := net4 ! i OR drop_bit (8 - took) 0xff]))"

definition isBroadcast :: "Prefix \<Rightarrow> Addr \<Rightarrow> bool" where
  "isBroadcast p addr =
     (case (pfx_Addr p, addr) of
        (Addr4 n, Addr4 a) \<Rightarrow>
          let net4 = word_As4 n; hostBits = 32 - pfx_Bits p in
          if hostBits = 0 \<or> 31 < hostBits then False
          else set_host_bits net4 4 hostBits net4 = word_As4 a
      | _ \<Rightarrow> False)"

datatype alloc_error = SubnetError string | NoFree string | TooSmall string

partial_function (option) alloc_loop :: "Prefix \<Rightarrow> string set \<Rightarrow> Addr \<Rightarrow> string option option" where
  "alloc_loop p taken addr =
     (if \<not> pfx_Contains p addr then Some None
      else if addr_Is4 (pfx_Addr p) \<and> isBroadcast p addr then alloc_loop p taken (addr_Next addr)
      else if addr_String addr \<in> taken then alloc_loop p taken (addr_Next addr)
      else Some (Some (addr_String addr)))"

declare alloc_loop.simps [code]

text \<open>\<open>None\<close> is a call that does not return.\<close>

definition AllocIP :: "string \<Rightarrow> string set \<Rightarrow> (alloc_error + string) option" where
  "AllocIP subnet taken =
     (case ParsePrefix (TrimSpace subnet) of
        None \<Rightarrow> Some (Inl (SubnetError subnet))
      | Some p \<Rightarrow>
          let p = pfx_Masked p in
          map_option (\<lambda>r. case r of None \<Rightarrow> Inl (NoFree subnet) | Some s \<Rightarrow> Inr s)
            (alloc_loop p taken (addr_Next (pfx_Addr p))))"

definition ServerIP :: "string \<Rightarrow> alloc_error + string" where
  "ServerIP subnet =
     (case ParsePrefix (TrimSpace subnet) of
        None \<Rightarrow> Inl (SubnetError subnet)
      | Some p \<Rightarrow>
          let first = addr_Next (pfx_Addr p) in
          if \<not> pfx_Contains p first then Inl (TooSmall subnet) else Inr (addr_String first))"

text \<open>\<^verbatim>\<open>strconv.Atoi\<close>: an optional sign and digits, in the range of a 64-bit integer.\<close>

definition go_Atoi :: "string \<Rightarrow> int option" where
  "go_Atoi s =
     (let neg = (s \<noteq> [] \<and> hd s = CHR ''-'');
          ds = (if s \<noteq> [] \<and> hd s \<in> {CHR ''-'', CHR ''+''} then tl s else s)
      in case atoi_plain ds of
           None \<Rightarrow> None
         | Some v \<Rightarrow>
             let v = (if neg then - v else v) in
             if v < - (2 ^ 63) \<or> 2 ^ 63 \<le> v then None else Some v)"

definition SplitEndpointPort :: "string \<Rightarrow> int \<Rightarrow> string \<times> int" where
  "SplitEndpointPort ep defaultPort =
     (case LastIndexByte ep CHR '':'' of
        None \<Rightarrow> (ep, defaultPort)
      | Some i \<Rightarrow> (case go_Atoi (drop (i + 1) ep) of None \<Rightarrow> (ep, defaultPort) | Some p \<Rightarrow> (take i ep, p)))"

section \<open>The byte reader\<close>

record sliceReader =
  sr_b :: bytes
  sr_i :: nat

text \<open>\<open>Read\<close> with a buffer of length \<open>n\<close>: what is copied, \<open>None\<close> at the end.\<close>

definition sliceReader_Read :: "sliceReader \<Rightarrow> nat \<Rightarrow> bytes option \<times> sliceReader" where
  "sliceReader_Read r n =
     (if length (sr_b r) \<le> sr_i r then (None, r)
      else
        let got = take n (drop (sr_i r) (sr_b r))
        in (Some got, r\<lparr>sr_i := sr_i r + length got\<rparr>))"

definition bytesReader :: "bytes \<Rightarrow> sliceReader" where
  "bytesReader b = \<lparr>sr_b = b, sr_i = 0\<rparr>"

section \<open>QR codes\<close>

text \<open>
  \<^verbatim>\<open>src/internal/wg/qr.go\<close> on the bitmap that the third-party encoder \<open>enc\<close> gives (\<open>None\<close> for its
  error); an index out of a row panics and is \<open>None\<close> of the outer option. The upper half block is
  the three bytes of U+2580.
\<close>

definition upper_half :: string where
  "upper_half = [CHR 0xE2, CHR 0x96, CHR 0x80]"

definition qr_cell :: "bool \<Rightarrow> bool \<Rightarrow> string" where
  "qr_cell upper lower =
     (if upper \<and> \<not> lower then [CHR 0x1B] @ ''[7m '' @ [CHR 0x1B] @ ''[0m''
      else if \<not> upper \<and> lower then [CHR 0x1B] @ ''[7m'' @ upper_half @ [CHR 0x1B] @ ''[0m''
      else '' '')"

definition bitmap_at :: "bool list list \<Rightarrow> nat \<Rightarrow> nat \<Rightarrow> bool option" where
  "bitmap_at m y x = (if y < length m \<and> x < length (m ! y) then Some (m ! y ! x) else None)"

definition qr_pair :: "bool list list \<Rightarrow> nat \<Rightarrow> nat \<Rightarrow> string option" where
  "qr_pair m y x =
     (case bitmap_at m y x of
        None \<Rightarrow> None
      | Some upper \<Rightarrow>
          (case (if y + 1 < length m then bitmap_at m (y + 1) x else Some False) of
             None \<Rightarrow> None
           | Some lower \<Rightarrow> Some (qr_cell upper lower)))"

fun qr_lines :: "bool list list \<Rightarrow> nat list \<Rightarrow> string option" where
  "qr_lines m [] = Some []"
| "qr_lines m (y # ys) =
     (case those (map (qr_pair m y) [0 ..< length (m ! 0)]) of
        None \<Rightarrow> None
      | Some cells \<Rightarrow> map_option (\<lambda>rest. concat cells @ newline @ rest) (qr_lines m ys))"

definition QRTerminal :: "(string \<Rightarrow> bool list list option) \<Rightarrow> string \<Rightarrow> string option option" where
  "QRTerminal enc conf =
     (case enc conf of
        None \<Rightarrow> Some None
      | Some m \<Rightarrow> map_option Some (qr_lines m (filter even [0 ..< length m])))"

definition QRPNG :: "(string \<Rightarrow> int \<Rightarrow> bytes option) \<Rightarrow> string \<Rightarrow> int \<Rightarrow> bytes option" where
  "QRPNG enc conf sz = enc conf (if sz \<le> 0 then 512 else sz)"

text \<open>
  A cell with both modules dark prints as one with both modules light, so the terminal picture does
  not determine the code.
\<close>

lemma qr_terminal_ambiguous:
  "QRTerminal (\<lambda>_. Some [[True], [True]]) c = QRTerminal (\<lambda>_. Some [[False], [False]]) c"
  by (simp add: QRTerminal_def qr_pair_def bitmap_at_def qr_cell_def upt_rec)

lemma those_Some: "(\<forall>x \<in> set xs. f x \<noteq> None) \<Longrightarrow> those (map f xs) \<noteq> None"
  by (induction xs) auto

text \<open>On a rectangular bitmap no index is out of range.\<close>

lemma qr_terminal_no_panic:
  assumes "enc conf = Some m" and "\<forall>row \<in> set m. length row = w"
  shows "QRTerminal enc conf \<noteq> None"
proof -
  have "qr_lines m ys \<noteq> None" if "\<forall>y \<in> set ys. y < length m" for ys
    using that
  proof (induction ys)
    case (Cons y ys)
    have len: "length (m ! k) = w" if "k < length m" for k
      using that assms(2) by simp
    have "m \<noteq> []" using Cons.prems by auto
    then have "\<forall>x \<in> set [0 ..< length (m ! 0)]. qr_pair m y x \<noteq> None"
      using Cons.prems len by (auto simp: qr_pair_def bitmap_at_def)
    then have "those (map (qr_pair m y) [0 ..< length (m ! 0)]) \<noteq> None" by (rule those_Some)
    with Cons show ?case by auto
  qed simp
  with assms(1) show ?thesis by (simp add: QRTerminal_def)
qed

section \<open>The broadcast address\<close>

lemma length_set_host_bits [simp]: "length (set_host_bits net4 i r lst) = length lst"
  by (induction net4 i r lst rule: set_host_bits.induct) (auto simp: Let_def)

lemma byte_mask: "took \<le> 8 \<Longrightarrow> drop_bit (8 - took) (0xff :: u8) = mask took"
proof -
  assume "took \<le> 8"
  then have "drop_bit (8 - took) (mask 8 :: u8) = mask took"
    by (intro bit_word_eqI) (auto simp: bit_simps)
  moreover have "mask 8 = (0xff :: u8)" by (simp add: mask_eq_exp_minus_1)
  ultimately show ?thesis by simp
qed

text \<open>Byte \<open>j\<close> gets the host bits that reach into it and keeps what the loop has not reached.\<close>

lemma set_host_bits_nth:
  assumes "i \<le> length lst" and "length net4 = length lst" and "\<forall>k < i. lst ! k = net4 ! k" and "j < length lst"
  shows "set_host_bits net4 i r lst ! j = (if j < i then net4 ! j OR mask (min 8 (r - 8 * (i - 1 - j))) else lst ! j)"
  using assms
proof (induction net4 i r lst rule: set_host_bits.induct)
  case (1 net4 r lst)
  then show ?case by simp
next
  case (2 net4 i r lst)
  show ?case
  proof (cases "r = 0")
    case True
    with 2(4) show ?thesis by simp
  next
    case False
    let ?took = "if 8 < r then 8 else r"
    let ?lst = "lst[i := net4 ! i OR mask ?took]"
    have step: "set_host_bits net4 (Suc i) r lst = set_host_bits net4 i (r - ?took) ?lst"
      using False by (simp add: byte_mask Let_def)
    have "set_host_bits net4 i (r - ?took) ?lst ! j =
        (if j < i then net4 ! j OR mask (min 8 (r - ?took - 8 * (i - 1 - j))) else ?lst ! j)"
      using 2(1) [OF False refl] 2(2-) by (simp add: byte_mask)
    moreover have "min 8 (r - ?took - 8 * (i - 1 - j)) = min 8 (r - 8 * (Suc i - 1 - j))" if "j < i"
      using that by auto
    moreover have "min 8 r = ?took" by simp
    ultimately show ?thesis
      unfolding step using 2(2) by (cases "j = i") auto
  qed
qed

lemma word_As4_nth: "j < 4 \<Longrightarrow> word_As4 w ! j = ucast (drop_bit (24 - 8 * j) w)"
  by (simp add: word_As4_def)

lemma length_word_As4 [simp]: "length (word_As4 w) = 4"
  by (simp add: word_As4_def)

lemma word_As4_inj: "word_As4 a = word_As4 b \<longleftrightarrow> a = b"
proof
  assume eq: "word_As4 a = word_As4 b"
  show "a = b"
  proof (rule bit_word_eqI)
    fix n assume n: "n < LENGTH(32)"
    define j where "j = 3 - n div 8"
    have "n div 8 \<le> 3" using n by simp
    then have "24 - 8 * j = n div 8 * 8" by (simp add: j_def)
    then have j: "j < 4" "24 - 8 * j + n mod 8 = n"
      using div_mult_mod_eq [of n 8] by (simp_all add: j_def)
    have "bit (word_As4 w ! j) (n mod 8) = bit w n" for w
      using j n by (simp add: word_As4_nth bit_simps)
    with eq show "bit a n = bit b n" by metis
  qed
qed simp

lemma set_host_bits_As4:
  assumes "h \<le> 32"
  shows "set_host_bits (word_As4 n) 4 h (word_As4 n) = word_As4 (n OR mask h)"
proof (rule nth_equalityI)
  fix j assume "j < length (set_host_bits (word_As4 n) 4 h (word_As4 n))"
  then have j: "j < 4" by simp
  have "set_host_bits (word_As4 n) 4 h (word_As4 n) ! j = word_As4 n ! j OR mask (min 8 (h - 8 * (3 - j)))"
    using set_host_bits_nth [of 4 "word_As4 n" "word_As4 n" j h] j by simp
  also have "\<dots> = word_As4 (n OR mask h) ! j"
    using j assms by (intro bit_word_eqI) (auto simp: word_As4_nth bit_simps)
  finally show "set_host_bits (word_As4 n) 4 h (word_As4 n) ! j = word_As4 (n OR mask h) ! j" .
qed simp

text \<open>
  C38: The byte-wise loop that recognises the broadcast address agrees with its definition on whole
  addresses: an address is the broadcast address of an IPv4 prefix exactly when it is the network
  address with every host bit set and the prefix has at least one and at most 31 host bits.
\<close>
theorem broadcast_is_all_host_bits:
  "isBroadcast \<lparr>pfx_Addr = Addr4 n, pfx_Bits = bits\<rparr> (Addr4 a) \<longleftrightarrow>
     1 \<le> bits \<and> bits \<le> 31 \<and> a = n OR mask (32 - bits)"
proof -
  have "word_As4 (n OR mask (32 - bits)) = word_As4 a \<longleftrightarrow> a = n OR mask (32 - bits)"
    using word_As4_inj by metis
  then show ?thesis
    by (auto simp: isBroadcast_def set_host_bits_As4 Let_def)
qed

section \<open>The order of addresses\<close>

text \<open>Addresses of one family and zone are ordered by their bits, others are not comparable.\<close>

instantiation Addr :: order
begin

fun less_eq_Addr :: "Addr \<Rightarrow> Addr \<Rightarrow> bool" where
  "less_eq_Addr AddrZero AddrZero = True"
| "less_eq_Addr (Addr4 a) (Addr4 b) = (a \<le> b)"
| "less_eq_Addr (Addr6 a z) (Addr6 b z') = (z = z' \<and> a \<le> b)"
| "less_eq_Addr _ _ = False"

definition less_Addr :: "Addr \<Rightarrow> Addr \<Rightarrow> bool" where
  "less_Addr a b \<longleftrightarrow> a \<le> b \<and> \<not> b \<le> (a :: Addr)"

instance
proof
  fix a b c :: Addr
  show "a \<le> a" by (cases a) simp_all
  show "a \<le> b \<Longrightarrow> b \<le> c \<Longrightarrow> a \<le> c" by (cases "(a, b)" rule: less_eq_Addr.cases; cases c) auto
  show "a \<le> b \<Longrightarrow> b \<le> a \<Longrightarrow> a = b" by (cases "(a, b)" rule: less_eq_Addr.cases) auto
qed (rule less_Addr_def)

end

lemma Zero_le [simp]: "AddrZero \<le> b \<longleftrightarrow> b = AddrZero"
  by (cases b) simp_all

lemma word_Suc_le: "(a :: 'a::len word) \<le> b \<Longrightarrow> a \<noteq> b \<Longrightarrow> a + 1 \<noteq> 0 \<and> a + 1 \<le> b"
proof -
  assume "a \<le> b" "a \<noteq> b"
  then have less: "a < b" by simp
  then have "a \<noteq> - 1" using word_order.extremum_strict by blast
  then have "a + 1 \<noteq> 0" by (metis add_eq_0_iff2)
  with inc_le [OF less] show ?thesis by simp
qed

lemma word_le_Suc: "(a :: 'a::len word) + 1 \<noteq> 0 \<Longrightarrow> unat (a + 1) = Suc (unat a)"
  using unatSuc [of a] by (simp add: add.commute)

lemma drop_bit_mono: "(a :: 'a::len word) \<le> b \<Longrightarrow> drop_bit h a \<le> drop_bit h b"
  unfolding word_le_nat_alt unat_drop_bit_eq by (simp add: drop_bit_eq_div div_le_mono)

lemma drop_bit_gap:
  "(x :: 'a::len word) \<le> y \<Longrightarrow> y \<le> z \<Longrightarrow> drop_bit h x \<noteq> drop_bit h y \<Longrightarrow> drop_bit h x \<noteq> drop_bit h z"
  using drop_bit_mono [of x y h] drop_bit_mono [of y z h] by auto

lemma mask_word_le: "drop_bit h x = drop_bit h w \<Longrightarrow> mask_word h x \<le> (w :: 'a::len word)"
proof -
  assume "drop_bit h x = drop_bit h w"
  moreover have "mask_word h w = w AND NOT (mask h)"
    by (rule bit_word_eqI) (auto simp: mask_word_def bit_simps)
  ultimately show ?thesis by (simp add: mask_word_def word_and_le2)
qed

lemma mask_word_drop [simp]: "drop_bit h (mask_word h (w :: 'a::len word)) = drop_bit h w"
  by (rule bit_word_eqI) (auto simp: mask_word_def bit_simps dest: bit_imp_le_length)

lemma le_Next: "a \<le> b \<Longrightarrow> a = b \<or> addr_Next a \<le> b"
  by (cases "(a, b)" rule: less_eq_Addr.cases) (auto dest: word_Suc_le)

lemma Next_le: "addr_Next a \<noteq> AddrZero \<Longrightarrow> a \<le> addr_Next a"
  by (cases a) (auto simp: word_le_nat_alt word_le_Suc split: if_splits)

text \<open>Once the walk has left a prefix upwards it stays outside.\<close>

lemma contains_upwards:
  assumes "pfx_Addr p \<le> a" and "\<not> pfx_Contains p a" and "a \<le> b"
  shows "\<not> pfx_Contains p b"
  using assms
  by (cases "(pfx_Addr p, a)" rule: less_eq_Addr.cases; cases b) (auto simp: pfx_Contains_def dest: drop_bit_gap)

text \<open>The network address is the least address of its prefix.\<close>

lemma masked_least: "pfx_Contains (pfx_Masked p) b \<Longrightarrow> pfx_Addr (pfx_Masked p) \<le> b"
  by (cases "pfx_Addr p"; cases b) (auto simp: pfx_Contains_def pfx_Masked_def mask_word_le)

section \<open>The search for a free address\<close>

text \<open>A host address of a prefix: contained in it and neither its network nor its broadcast address.\<close>

definition host_addr :: "Prefix \<Rightarrow> Addr \<Rightarrow> bool" where
  "host_addr p a \<longleftrightarrow> pfx_Contains p a \<and> a \<noteq> pfx_Addr p \<and> \<not> (addr_Is4 (pfx_Addr p) \<and> isBroadcast p a)"

fun addr_room :: "Addr \<Rightarrow> nat" where
  "addr_room AddrZero = 0"
| "addr_room (Addr4 w) = 2 ^ 32 - unat w"
| "addr_room (Addr6 w z) = 2 ^ 128 - unat w"

lemma addr_room_Next: "a \<noteq> AddrZero \<Longrightarrow> addr_room (addr_Next a) < addr_room a"
proof (cases a)
  case (Addr4 w)
  then show ?thesis using unsigned_less [of w, where ?'a = nat] by (auto simp: word_le_Suc)
next
  case (Addr6 w z)
  then show ?thesis using unsigned_less [of w, where ?'a = nat] by (auto simp: word_le_Suc)
qed simp

lemma addr_room_mono: "a \<le> b \<Longrightarrow> addr_room b \<le> addr_room a"
  by (cases "(a, b)" rule: less_eq_Addr.cases) (auto simp: word_le_nat_alt)

lemma not_contains_Zero [simp]: "\<not> pfx_Contains p AddrZero"
  by (simp add: pfx_Contains_def split: Addr.split)

text \<open>What the loop promises when it stands at \<open>a\<close>, above the network address.\<close>

definition first_free :: "Prefix \<Rightarrow> string set \<Rightarrow> Addr \<Rightarrow> string option \<Rightarrow> bool" where
  "first_free p taken a r =
     (case r of
        None \<Rightarrow> \<forall>b. a \<le> b \<and> host_addr p b \<longrightarrow> addr_String b \<in> taken
      | Some s \<Rightarrow> s \<notin> taken \<and>
          (\<exists>b. a \<le> b \<and> host_addr p b \<and> s = addr_String b \<and>
            (\<forall>c. a \<le> c \<and> host_addr p c \<and> c < b \<longrightarrow> addr_String c \<in> taken)))"

lemma first_free_skip:
  assumes "first_free p taken (addr_Next a) r" and "host_addr p a \<Longrightarrow> addr_String a \<in> taken"
    and "addr_Next a \<noteq> AddrZero \<Longrightarrow> a \<le> addr_Next a"
  shows "first_free p taken a r"
proof -
  have up: "addr_Next a \<le> b \<Longrightarrow> host_addr p b \<Longrightarrow> a \<le> b" for b
    using assms(3) order_trans [of a "addr_Next a" b] by (cases "addr_Next a = AddrZero") (auto simp: host_addr_def)
  show ?thesis
  proof (cases r)
    case None
    then show ?thesis
      using assms(1,2) le_Next by (auto simp: first_free_def)
  next
    case (Some s)
    then obtain b where "s \<notin> taken" and b: "addr_Next a \<le> b" "host_addr p b" "s = addr_String b"
      "\<forall>c. addr_Next a \<le> c \<and> host_addr p c \<and> c < b \<longrightarrow> addr_String c \<in> taken"
      using assms(1) by (auto simp: first_free_def)
    moreover have "addr_String c \<in> taken" if "a \<le> c \<and> host_addr p c \<and> c < b" for c
      using that b(4) assms(2) le_Next [of a c] by blast
    ultimately show ?thesis
      using Some up by (auto simp: first_free_def)
  qed
qed

lemma alloc_loop_first_free:
  assumes "a \<noteq> AddrZero \<Longrightarrow> pfx_Addr p \<le> a \<and> a \<noteq> pfx_Addr p"
  shows "\<exists>r. alloc_loop p taken a = Some r \<and> first_free p taken a r"
  using assms
proof (induction a rule: measure_induct_rule [of addr_room])
  case (less a)
  let ?n = "addr_Next a"
  have eq: "alloc_loop p taken a =
    (if \<not> pfx_Contains p a then Some None
     else if addr_Is4 (pfx_Addr p) \<and> isBroadcast p a \<or> addr_String a \<in> taken then alloc_loop p taken ?n
     else Some (Some (addr_String a)))"
    by (subst alloc_loop.simps) simp
  show ?case
  proof (cases "pfx_Contains p a")
    case False
    then have "first_free p taken a None"
      using less.prems contains_upwards [of p a] by (cases "a = AddrZero") (auto simp: first_free_def host_addr_def)
    with False show ?thesis by (simp add: eq)
  next
    case True
    then have "a \<noteq> AddrZero" by auto
    with less.prems have a: "a \<noteq> AddrZero" "pfx_Addr p \<le> a" "a \<noteq> pfx_Addr p" by auto
    have "?n \<noteq> AddrZero \<Longrightarrow> pfx_Addr p \<le> ?n \<and> ?n \<noteq> pfx_Addr p"
      using Next_le [of a] order_trans [OF a(2)] addr_room_Next [OF a(1)] addr_room_mono [OF a(2)] by auto
    then obtain r where r: "alloc_loop p taken ?n = Some r" "first_free p taken ?n r"
      using less.IH addr_room_Next a(1) by blast
    show ?thesis
    proof (cases "addr_Is4 (pfx_Addr p) \<and> isBroadcast p a \<or> addr_String a \<in> taken")
      case skip: True
      then have "first_free p taken a r"
        using first_free_skip [OF r(2)] Next_le by (auto simp: host_addr_def)
      with skip True r(1) show ?thesis by (simp add: eq)
    next
      case False
      with True a have "first_free p taken a (Some (addr_String a))"
        by (auto simp: first_free_def host_addr_def intro!: exI [of _ a])
      with False True show ?thesis by (auto simp: eq)
    qed
  qed
qed

lemma host_above_first: "host_addr (pfx_Masked p) b \<Longrightarrow> addr_Next (pfx_Addr (pfx_Masked p)) \<le> b"
  using masked_least le_Next by (fastforce simp: host_addr_def)

lemma AllocIP_run:
  assumes "ParsePrefix (TrimSpace subnet) = Some p"
  shows "\<exists>r. AllocIP subnet taken = Some (case r of None \<Rightarrow> Inl (NoFree subnet) | Some s \<Rightarrow> Inr s) \<and>
     first_free (pfx_Masked p) taken (addr_Next (pfx_Addr (pfx_Masked p))) r"
proof -
  let ?p = "pfx_Masked p"
  let ?a = "addr_Next (pfx_Addr ?p)"
  have "?a \<noteq> AddrZero \<Longrightarrow> pfx_Addr ?p \<le> ?a \<and> ?a \<noteq> pfx_Addr ?p"
    using Next_le [of "pfx_Addr ?p"] addr_room_Next [of "pfx_Addr ?p"] by (cases "pfx_Addr ?p = AddrZero") auto
  then show ?thesis
    using alloc_loop_first_free [of ?a ?p taken] assms by (auto simp: AllocIP_def)
qed

lemma AllocIP_returns: "\<exists>r. AllocIP subnet taken = Some r"
proof (cases "ParsePrefix (TrimSpace subnet)")
  case (Some p)
  with AllocIP_run [OF Some, of taken] show ?thesis by blast
qed (simp add: AllocIP_def)

lemma AllocIP_fresh:
  assumes "AllocIP subnet taken = Some (Inr s)"
  shows "s \<notin> taken \<and> (\<exists>p b. ParsePrefix (TrimSpace subnet) = Some p \<and> host_addr (pfx_Masked p) b \<and> s = addr_String b)"
proof (cases "ParsePrefix (TrimSpace subnet)")
  case None
  with assms show ?thesis by (simp add: AllocIP_def)
next
  case (Some p)
  with assms AllocIP_run [OF Some, of taken] show ?thesis
    by (auto simp: first_free_def split: option.splits)
qed

text \<open>
  C16: The search for a tunnel address ends on every readable subnet, also on prefixes that reach
  the top of the address space, and gives the first free one: an address it returns is not taken
  and is a host of the masked subnet (never the network address nor, for IPv4, the broadcast
  address), and every lower host is taken; and it reports a full subnet only when every host
  address is taken.
\<close>
theorem alloc_ip_first_free:
  assumes "ParsePrefix (TrimSpace subnet) = Some p"
  shows "case AllocIP subnet taken of
      None \<Rightarrow> False
    | Some (Inr s) \<Rightarrow> s \<notin> taken \<and>
        (\<exists>b. host_addr (pfx_Masked p) b \<and> s = addr_String b \<and>
          (\<forall>c. host_addr (pfx_Masked p) c \<and> c < b \<longrightarrow> addr_String c \<in> taken))
    | Some (Inl err) \<Rightarrow> err = NoFree subnet \<and> (\<forall>b. host_addr (pfx_Masked p) b \<longrightarrow> addr_String b \<in> taken)"
  using AllocIP_run [OF assms, of taken] host_above_first
  by (auto simp: first_free_def split: option.splits)

lemma parse_30: "ParsePrefix (TrimSpace ''10.66.0.0/30'') = Some \<lparr>pfx_Addr = Addr4 0x0A420000, pfx_Bits = 30\<rparr>"
  by code_simp

theorem alloc_ip_first_free_witness:
  "\<exists>s. AllocIP ''10.66.0.0/30'' {''10.66.0.1''} = Some (Inr s) \<and> s = ''10.66.0.2'' \<and> s \<notin> {''10.66.0.1''}"
proof -
  have "AllocIP ''10.66.0.0/30'' {''10.66.0.1''} = Some (Inr ''10.66.0.2'')"
    by code_simp
  with alloc_ip_first_free [OF parse_30, of "{''10.66.0.1''}"] show ?thesis by simp
qed

section \<open>Routes, gateway, reader\<close>

lemma set_fold_route:
  "set (fold route_step ns acc) = set acc \<union> {n. n \<in> TrimSpace ` set ns \<and> n \<noteq> '''' \<and> ParsePrefix n \<noteq> None}"
  by (induction ns arbitrary: acc) (auto simp: route_step_def Let_def)

text \<open>
  A split-tunnel peer is given the readable split networks and always the default route
  \<^verbatim>\<open>0.0.0.0/0\<close>, so all of its IPv4 traffic enters the tunnel.
\<close>

lemma split_tunnel_routes:
  "\<not> pc_FullTunnel p \<Longrightarrow>
     \<exists>nets. AllowedIPs p = go_Join '', '' nets \<and> sorted nets \<and>
       set nets = {''0.0.0.0/0''} \<union> {n. n \<in> TrimSpace ` set (pc_SplitNetworks p) \<and> n \<noteq> '''' \<and> ParsePrefix n \<noteq> None}"
  unfolding AllowedIPs_def by (intro exI conjI) (auto simp: set_fold_route)

lemma server_ip_in_subnet:
  "ServerIP subnet = Inr s \<Longrightarrow>
     \<exists>p. ParsePrefix (TrimSpace subnet) = Some p \<and> s = addr_String (addr_Next (pfx_Addr p)) \<and>
       pfx_Contains p (addr_Next (pfx_Addr p))"
  by (auto simp: ServerIP_def Let_def split: option.splits if_splits)

text \<open>
  The gateway is the address after the written one, not after the network address: the two agree
  on a subnet written with its network address only.
\<close>

lemma server_ip_unmasked:
  "ServerIP ''10.66.0.5/24'' = Inr ''10.66.0.6'' \<and> AllocIP ''10.66.0.5/24'' {''10.66.0.6''} = Some (Inr ''10.66.0.1'')"
  by code_simp

text \<open>Reading to the end, with a buffer of length \<open>n\<close>: every byte once and in order.\<close>

fun read_all :: "nat \<Rightarrow> sliceReader \<Rightarrow> nat \<Rightarrow> bytes option" where
  "read_all 0 r n = None"
| "read_all (Suc fuel) r n =
     (case sliceReader_Read r n of
        (None, _) \<Rightarrow> Some []
      | (Some got, r') \<Rightarrow> map_option ((@) got) (read_all fuel r' n))"

lemma read_all_rest:
  "0 < n \<Longrightarrow> length (sr_b r) - sr_i r < fuel \<Longrightarrow> read_all fuel r n = Some (drop (sr_i r) (sr_b r))"
proof (induction fuel arbitrary: r)
  case (Suc fuel)
  show ?case
  proof (cases "length (sr_b r) \<le> sr_i r")
    case False
    have "take n (drop i b) @ drop (i + n) b = drop i b" for i and b :: bytes
      using append_take_drop_id [of n "drop i b"] by (simp add: add.commute)
    with False Suc show ?thesis
      by (auto simp: sliceReader_Read_def Let_def min_def)
  qed (simp add: sliceReader_Read_def)
qed simp

lemma bytesReader_complete: "0 < n \<Longrightarrow> read_all (Suc (length b)) (bytesReader b) n = Some b"
  using read_all_rest [of n "bytesReader b" "Suc (length b)"] by (simp add: bytesReader_def del: read_all.simps)

end
