(* ===== verification/Wg_Manager.thy ===== *)
theory Wg_Manager
  imports Netip
begin

text \<open>
  The kernel side of the VPN: \<^verbatim>\<open>src/internal/wg/manager.go\<close>, \<^verbatim>\<open>manager_linux.go\<close>,
  \<^verbatim>\<open>manager_other.go\<close>, \<^verbatim>\<open>keys.go\<close> and \<^verbatim>\<open>fs.go\<close>. The host is
  a parameter: the record \<open>host\<close> gives the netlink client and its key type (the third-party
  package \<^verbatim>\<open>wgctrl\<close>), the commands that are run, the files, and the order in which Go walks
  a map; the state of the machine is its type parameter and is passed on explicitly. Each method
  holds the manager's mutex from its first to its last line, so a call is one step.
\<close>

section \<open>The host\<close>

text \<open>\<^verbatim>\<open>net.IPNet\<close>: the masked address and the length of the mask.\<close>

type_synonym IPNet = "Addr \<times> nat"

record wg_PeerConfig =
  wpc_PublicKey :: bytes
  wpc_Remove :: bool
  wpc_ReplaceAllowedIPs :: bool
  wpc_AllowedIPs :: "IPNet list"

record wg_Config =
  wgc_PrivateKey :: "bytes option"
  wgc_ListenPort :: "int option"
  wgc_Peers :: "wg_PeerConfig list"

record wg_Peer =
  wgp_PublicKey :: bytes
  wgp_ReceiveBytes :: int
  wgp_TransmitBytes :: int
  wgp_LastHandshakeTime :: time

record 'os host =
  h_linux :: bool
  h_wgNew :: "'os \<Rightarrow> bool"
  h_Devices :: "'os \<Rightarrow> string list option"
  h_Device :: "'os \<Rightarrow> string \<Rightarrow> wg_Peer list option"
  h_ConfigureDevice :: "'os \<Rightarrow> string \<Rightarrow> wg_Config \<Rightarrow> bool \<times> 'os"
  h_ParseKey :: "string \<Rightarrow> bytes option"
  h_KeyString :: "bytes \<Rightarrow> string"
  h_PublicKey :: "bytes \<Rightarrow> bytes"
  h_GenerateKey :: "'os \<Rightarrow> bytes option \<times> 'os"
  h_exec :: "'os \<Rightarrow> string \<Rightarrow> string list \<Rightarrow> bytes \<Rightarrow> bytes option \<times> 'os"
  h_LookPath :: "'os \<Rightarrow> string \<Rightarrow> string option"
  h_ReadFile :: "'os \<Rightarrow> string \<Rightarrow> bytes option"
  h_WriteFile :: "'os \<Rightarrow> string \<Rightarrow> bytes \<Rightarrow> bool \<times> 'os"
  h_MkdirAll :: "'os \<Rightarrow> string \<Rightarrow> bool \<times> 'os"
  h_range :: "string list \<Rightarrow> string list"

datatype mgr_error =
    ErrUnsupported
  | ErrWgctrl
  | ListDevices
  | CreateLink string
  | ServerKey
  | ConfigureErr string
  | AssignAddr string
  | LinkUp string
  | DeviceErr string
  | PeerKey
  | PeerAllowedIPs string
  | ApplyErr
  | PeerAbsent string
  | RunErr string
  | NoNatTool
  | NftErr
  | IpForward
  | IptablesErr string
  | GenerateKeyErr
  | InvalidPrivateKey

section \<open>Keys and commands\<close>

definition GeneratePrivateKey :: "'os host \<Rightarrow> 'os \<Rightarrow> (mgr_error + string) \<times> 'os" where
  "GeneratePrivateKey H os =
     (case h_GenerateKey H os of
        (None, os') \<Rightarrow> (Inl GenerateKeyErr, os')
      | (Some k, os') \<Rightarrow> (Inr (h_KeyString H k), os'))"

definition PublicKey :: "'os host \<Rightarrow> string \<Rightarrow> mgr_error + string" where
  "PublicKey H privateB64 =
     (case h_ParseKey H privateB64 of
        None \<Rightarrow> Inl InvalidPrivateKey
      | Some priv \<Rightarrow> Inr (h_KeyString H (h_PublicKey H priv)))"

text \<open>\<^verbatim>\<open>run\<close> and \<^verbatim>\<open>runStdin\<close>: whether the command succeeded.\<close>

definition runStdin :: "'os host \<Rightarrow> 'os \<Rightarrow> string \<Rightarrow> bytes \<Rightarrow> string list \<Rightarrow> bool \<times> 'os" where
  "runStdin H os name input args = (case h_exec H os name args input of (out, os') \<Rightarrow> (out \<noteq> None, os'))"

definition run :: "'os host \<Rightarrow> 'os \<Rightarrow> string \<Rightarrow> string list \<Rightarrow> bool \<times> 'os" where
  "run H os name args = (case h_exec H os name args '''' of (out, os') \<Rightarrow> (out \<noteq> None, os'))"

definition hasBinary :: "'os host \<Rightarrow> 'os \<Rightarrow> string \<Rightarrow> bool" where
  "hasBinary H os name = (case h_LookPath H os name of None \<Rightarrow> False | Some p \<Rightarrow> p \<noteq> '''')"

definition writeSysctl :: "'os host \<Rightarrow> 'os \<Rightarrow> string \<Rightarrow> string \<Rightarrow> bool \<times> 'os" where
  "writeSysctl H os path val =
     (case h_WriteFile H os (''/proc/sys/'' @ path) (val @ [CHR 0x0A]) of
        (True, os') \<Rightarrow> (True, os')
      | (False, os') \<Rightarrow>
          run H os' ''sysctl'' [''-w'', map (\<lambda>c. if c = CHR ''/'' then CHR ''.'' else c) path @ ''='' @ val])"

text \<open>The field after the first \<^verbatim>\<open>dev\<close> that is not the last field.\<close>

fun after_dev :: "string list \<Rightarrow> string" where
  "after_dev (f # g # fs) = (if f = ''dev'' then g else after_dev (g # fs))"
| "after_dev _ = ''''"

definition outboundInterface :: "'os host \<Rightarrow> 'os \<Rightarrow> string \<times> 'os" where
  "outboundInterface H os =
     (case h_exec H os ''ip'' [''route'', ''show'', ''default''] '''' of
        (None, os') \<Rightarrow> ('''', os')
      | (Some out, os') \<Rightarrow> (after_dev (go_Fields out), os'))"

section \<open>Interface and peers\<close>

record linuxManager =
  lm_iface :: string

datatype Manager = Linux linuxManager | Other string

definition newKernelManager :: "'os host \<Rightarrow> 'os \<Rightarrow> string \<Rightarrow> mgr_error + Manager" where
  "newKernelManager H os iface =
     (if h_linux H then (if h_wgNew H os then Inr (Linux \<lparr>lm_iface = iface\<rparr>) else Inl ErrWgctrl)
      else Inr (Other iface))"

definition NewManager :: "'os host \<Rightarrow> 'os \<Rightarrow> string \<Rightarrow> mgr_error + Manager" where
  "NewManager H os iface = newKernelManager H os iface"

definition set_key_addr ::
  "'os host \<Rightarrow> linuxManager \<Rightarrow> 'os \<Rightarrow> string \<Rightarrow> int \<Rightarrow> string \<Rightarrow> int \<Rightarrow> mgr_error option \<times> 'os" where
  "set_key_addr H m os privateKey port ip plen =
     (case h_ParseKey H privateKey of
        None \<Rightarrow> (Some ServerKey, os)
      | Some key \<Rightarrow>
          (case h_ConfigureDevice H os (lm_iface m)
             \<lparr>wgc_PrivateKey = Some key, wgc_ListenPort = Some port, wgc_Peers = []\<rparr> of
             (False, os1) \<Rightarrow> (Some (ConfigureErr (lm_iface m)), os1)
           | (True, os1) \<Rightarrow>
               let addr = ip @ ''/'' @ itoa plen in
               (case run H os1 ''ip'' [''addr'', ''replace'', addr, ''dev'', lm_iface m] of
                  (False, os2) \<Rightarrow> (Some (AssignAddr addr), os2)
                | (True, os2) \<Rightarrow>
                    (case run H os2 ''ip'' [''link'', ''set'', ''up'', ''dev'', lm_iface m] of
                       (False, os3) \<Rightarrow> (Some (LinkUp (lm_iface m)), os3)
                     | (True, os3) \<Rightarrow> (None, os3)))))"

definition EnsureInterface_linux ::
  "'os host \<Rightarrow> linuxManager \<Rightarrow> 'os \<Rightarrow> string \<Rightarrow> int \<Rightarrow> string \<Rightarrow> int \<Rightarrow> mgr_error option \<times> 'os" where
  "EnsureInterface_linux H m os privateKey port ip plen =
     (case h_Devices H os of
        None \<Rightarrow> (Some ListDevices, os)
      | Some devs \<Rightarrow>
          if lm_iface m \<in> set devs then set_key_addr H m os privateKey port ip plen
          else (case run H os ''ip'' [''link'', ''add'', ''dev'', lm_iface m, ''type'', ''wireguard''] of
              (False, os1) \<Rightarrow> (Some (CreateLink (lm_iface m)), os1)
            | (True, os1) \<Rightarrow> set_key_addr H m os1 privateKey port ip plen))"

record KernelPeer =
  kp_PublicKey :: string
  kp_AllowedIP :: string
  kp_Remove :: bool

text \<open>
  \<^verbatim>\<open>net.ParseCIDR\<close>: the part before the first slash is an address without a zone, the rest
  a decimal number that fits the address family.
\<close>

definition ParseCIDR :: "string \<Rightarrow> IPNet option" where
  "ParseCIDR s =
     (case IndexByte s CHR ''/'' of
        None \<Rightarrow> None
      | Some i \<Rightarrow>
          (case (ParseIP (take i s), atoi_plain (drop (i + 1) s)) of
             (Some ip, Some n) \<Rightarrow>
               if (if addr_Is4 ip then 32 else 128) < n then None
               else Some (pfx_Addr (pfx_Masked \<lparr>pfx_Addr = ip, pfx_Bits = nat n\<rparr>), nat n)
           | _ \<Rightarrow> None))"

text \<open>
  The loop over the desired peers: the keys desired so far and the configurations to send; it
  returns at the first key or network that does not parse.
\<close>

fun peer_cfgs ::
  "'os host \<Rightarrow> string set \<Rightarrow> KernelPeer list \<Rightarrow> string set \<Rightarrow> wg_PeerConfig list \<Rightarrow>
    mgr_error + string set \<times> wg_PeerConfig list" where
  "peer_cfgs H existing [] desired cfgs = Inr (desired, cfgs)"
| "peer_cfgs H existing (kp # kps) desired cfgs =
     (case h_ParseKey H (kp_PublicKey kp) of
        None \<Rightarrow> Inl PeerKey
      | Some pub \<Rightarrow>
          if kp_Remove kp then
            peer_cfgs H existing kps desired
              (if kp_PublicKey kp \<in> existing then cfgs @ [\<lparr>wpc_PublicKey = pub, wpc_Remove = True,
                 wpc_ReplaceAllowedIPs = False, wpc_AllowedIPs = []\<rparr>] else cfgs)
          else
            (case ParseCIDR (kp_AllowedIP kp) of
               None \<Rightarrow> Inl (PeerAllowedIPs (kp_AllowedIP kp))
             | Some ipnet \<Rightarrow>
                 peer_cfgs H existing kps (insert (kp_PublicKey kp) desired)
                   (if kp_PublicKey kp \<notin> existing then cfgs @ [\<lparr>wpc_PublicKey = pub, wpc_Remove = False,
                      wpc_ReplaceAllowedIPs = True, wpc_AllowedIPs = [ipnet]\<rparr>] else cfgs)))"

text \<open>The key a failed parse leaves behind is 32 zero bytes.\<close>

definition stale_cfgs :: "'os host \<Rightarrow> string list \<Rightarrow> string set \<Rightarrow> wg_PeerConfig list" where
  "stale_cfgs H existing desired =
     map (\<lambda>pub. \<lparr>wpc_PublicKey = (case h_ParseKey H pub of None \<Rightarrow> replicate 32 (CHR 0x00) | Some k \<Rightarrow> k),
             wpc_Remove = True, wpc_ReplaceAllowedIPs = False, wpc_AllowedIPs = []\<rparr>)
       (filter (\<lambda>pub. pub \<notin> desired) (h_range H (remdups existing)))"

definition ApplyPeers_linux ::
  "'os host \<Rightarrow> linuxManager \<Rightarrow> 'os \<Rightarrow> KernelPeer list \<Rightarrow> mgr_error option \<times> 'os" where
  "ApplyPeers_linux H m os peers =
     (case h_Device H os (lm_iface m) of
        None \<Rightarrow> (Some (DeviceErr (lm_iface m)), os)
      | Some devPeers \<Rightarrow>
          let existing = map (\<lambda>p. h_KeyString H (wgp_PublicKey p)) devPeers in
          (case peer_cfgs H (set existing) peers {} [] of
             Inl err \<Rightarrow> (Some err, os)
           | Inr (desired, cfgs) \<Rightarrow>
               let cfgs = cfgs @ stale_cfgs H existing desired in
               if cfgs = [] then (None, os)
               else (case h_ConfigureDevice H os (lm_iface m)
                   \<lparr>wgc_PrivateKey = None, wgc_ListenPort = None, wgc_Peers = cfgs\<rparr> of
                   (False, os') \<Rightarrow> (Some ApplyErr, os')
                 | (True, os') \<Rightarrow> (None, os'))))"

record PeerRuntime =
  rt_RxBytes :: u64
  rt_TxBytes :: u64
  rt_LastHandsha :: time

definition Runtime_linux :: "'os host \<Rightarrow> linuxManager \<Rightarrow> 'os \<Rightarrow> string \<Rightarrow> mgr_error + PeerRuntime" where
  "Runtime_linux H m os publicKey =
     (case h_Device H os (lm_iface m) of
        None \<Rightarrow> Inl (DeviceErr (lm_iface m))
      | Some devPeers \<Rightarrow>
          (case find (\<lambda>p. h_KeyString H (wgp_PublicKey p) = publicKey) devPeers of
             None \<Rightarrow> Inl (PeerAbsent publicKey)
           | Some p \<Rightarrow> Inr \<lparr>rt_RxBytes = word_of_int (wgp_ReceiveBytes p), rt_TxBytes = word_of_int (wgp_TransmitBytes p),
                           rt_LastHandsha = wgp_LastHandshakeTime p\<rparr>))"

definition CloseInterface_linux :: "'os host \<Rightarrow> linuxManager \<Rightarrow> 'os \<Rightarrow> mgr_error option \<times> 'os" where
  "CloseInterface_linux H m os =
     (case run H os ''ip'' [''link'', ''del'', ''dev'', lm_iface m] of
        (ok, os') \<Rightarrow> (if ok then None else Some (RunErr ''ip''), os'))"

section \<open>Routing\<close>

abbreviation nl :: string where
  "nl \<equiv> [CHR 0x0A]"

abbreviation tab :: string where
  "tab \<equiv> [CHR 0x09]"

abbreviation quoted :: string where
  "quoted \<equiv> [CHR 0x22] @ ''supp-wg'' @ [CHR 0x22]"

definition nft_script :: "string \<Rightarrow> string" where
  "nft_script tunnelCIDR =
     ''add table inet supp_wg'' @ nl
     @ ''delete table inet supp_wg'' @ nl
     @ ''add table inet supp_wg'' @ nl
     @ ''table inet supp_wg {'' @ nl
     @ tab @ ''chain postrouting {'' @ nl
     @ tab @ tab @ ''type nat hook postrouting priority srcnat; policy accept;'' @ nl
     @ tab @ tab @ ''ip saddr '' @ tunnelCIDR @ '' masquerade comment '' @ quoted @ nl
     @ tab @ ''}'' @ nl
     @ tab @ ''chain forward {'' @ nl
     @ tab @ tab @ ''type filter hook forward priority filter; policy accept;'' @ nl
     @ tab @ tab @ ''ip saddr '' @ tunnelCIDR @ '' accept comment '' @ quoted @ nl
     @ tab @ tab @ ''ip daddr '' @ tunnelCIDR @ '' ct state established,related accept comment '' @ quoted @ nl
     @ tab @ ''}'' @ nl
     @ ''}'' @ nl"

definition setupNft :: "'os host \<Rightarrow> linuxManager \<Rightarrow> 'os \<Rightarrow> string \<Rightarrow> mgr_error option \<times> 'os" where
  "setupNft H m os tunnelCIDR =
     (case runStdin H os ''nft'' (nft_script tunnelCIDR) [''-f'', ''-''] of
        (ok, os') \<Rightarrow> (if ok then None else Some NftErr, os'))"

definition iptables_rules :: "linuxManager \<Rightarrow> string \<Rightarrow> string \<Rightarrow> (string \<times> string \<times> string list) list" where
  "iptables_rules m tunnelCIDR iface =
     [(''nat'', ''POSTROUTING'', [''-s'', tunnelCIDR, ''-o'', iface, ''-j'', ''MASQUERADE'', ''-m'', ''comment'', ''--comment'', ''supp-wg'']),
      (''filter'', ''FORWARD'', [''-i'', lm_iface m, ''-j'', ''ACCEPT'', ''-m'', ''comment'', ''--comment'', ''supp-wg'']),
      (''filter'', ''FORWARD'', [''-o'', lm_iface m, ''-m'', ''conntrack'', ''--ctstate'', ''ESTABLISHED,RELATED'', ''-j'', ''ACCEPT'',
         ''-m'', ''comment'', ''--comment'', ''supp-wg''])]"

text \<open>A rule is added only when the check for it fails; the first rule that cannot be added ends the loop.\<close>

fun add_rules :: "'os host \<Rightarrow> 'os \<Rightarrow> (string \<times> string \<times> string list) list \<Rightarrow> mgr_error option \<times> 'os" where
  "add_rules H os [] = (None, os)"
| "add_rules H os ((table, chain, args) # rules) =
     (case run H os ''iptables'' ([''-t'', table, ''-C'', chain] @ args) of
        (True, os1) \<Rightarrow> add_rules H os1 rules
      | (False, os1) \<Rightarrow>
          (case run H os1 ''iptables'' ([''-t'', table, ''-A'', chain] @ args) of
             (True, os2) \<Rightarrow> add_rules H os2 rules
           | (False, os2) \<Rightarrow> (Some (IptablesErr chain), os2)))"

definition nat_interface :: "'os host \<Rightarrow> 'os \<Rightarrow> string \<times> 'os" where
  "nat_interface H os =
     (case outboundInterface H os of (iface, os') \<Rightarrow> (if iface = '''' then ''eth0'' else iface, os'))"

definition setupIptables :: "'os host \<Rightarrow> linuxManager \<Rightarrow> 'os \<Rightarrow> string \<Rightarrow> mgr_error option \<times> 'os" where
  "setupIptables H m os tunnelCIDR =
     (case nat_interface H os of
        (iface, os1) \<Rightarrow>
          (case run H os1 ''sysctl'' [''-w'', ''net.ipv4.ip_forward=1''] of
             (False, os2) \<Rightarrow> (Some IpForward, os2)
           | (True, os2) \<Rightarrow> add_rules H os2 (iptables_rules m tunnelCIDR iface)))"

definition SetupRouting_linux :: "'os host \<Rightarrow> linuxManager \<Rightarrow> 'os \<Rightarrow> string \<Rightarrow> mgr_error option \<times> 'os" where
  "SetupRouting_linux H m os tunnelCIDR =
     (let os = snd (writeSysctl H os ''net/ipv4/ip_forward'' ''1'') in
      if hasBinary H os ''nft'' then setupNft H m os tunnelCIDR
      else if hasBinary H os ''iptables'' then setupIptables H m os tunnelCIDR
      else (Some NoNatTool, os))"

definition TeardownRouting_linux :: "'os host \<Rightarrow> linuxManager \<Rightarrow> 'os \<Rightarrow> string \<Rightarrow> mgr_error option \<times> 'os" where
  "TeardownRouting_linux H m os tunnelCIDR =
     (let os = (if hasBinary H os ''nft'' then snd (run H os ''nft'' [''delete'', ''table'', ''inet'', ''supp_wg'']) else os) in
      if hasBinary H os ''iptables'' then
        (case nat_interface H os of
           (iface, os) \<Rightarrow>
             let os = snd (run H os ''iptables'' [''-t'', ''nat'', ''-D'', ''POSTROUTING'', ''-s'', tunnelCIDR, ''-o'', iface,
                        ''-j'', ''MASQUERADE'', ''-m'', ''comment'', ''--comment'', ''supp-wg'']);
                 os = snd (run H os ''iptables'' [''-D'', ''FORWARD'', ''-i'', lm_iface m, ''-j'', ''ACCEPT'',
                        ''-m'', ''comment'', ''--comment'', ''supp-wg'']);
                 os = snd (run H os ''iptables'' [''-D'', ''FORWARD'', ''-o'', lm_iface m, ''-m'', ''conntrack'',
                        ''--ctstate'', ''ESTABLISHED,RELATED'', ''-j'', ''ACCEPT'', ''-m'', ''comment'', ''--comment'', ''supp-wg''])
             in (None, os))
      else (None, os))"

section \<open>The interface of a manager\<close>

text \<open>Off Linux every method of the manager fails and changes nothing.\<close>

definition mgr_EnsureInterface ::
  "'os host \<Rightarrow> Manager \<Rightarrow> 'os \<Rightarrow> string \<Rightarrow> int \<Rightarrow> string \<Rightarrow> int \<Rightarrow> mgr_error option \<times> 'os" where
  "mgr_EnsureInterface H mgr os privateKey port ip plen =
     (case mgr of Linux m \<Rightarrow> EnsureInterface_linux H m os privateKey port ip plen | Other _ \<Rightarrow> (Some ErrUnsupported, os))"

definition mgr_ApplyPeers :: "'os host \<Rightarrow> Manager \<Rightarrow> 'os \<Rightarrow> KernelPeer list \<Rightarrow> mgr_error option \<times> 'os" where
  "mgr_ApplyPeers H mgr os peers =
     (case mgr of Linux m \<Rightarrow> ApplyPeers_linux H m os peers | Other _ \<Rightarrow> (Some ErrUnsupported, os))"

definition mgr_Runtime :: "'os host \<Rightarrow> Manager \<Rightarrow> 'os \<Rightarrow> string \<Rightarrow> mgr_error + PeerRuntime" where
  "mgr_Runtime H mgr os publicKey =
     (case mgr of Linux m \<Rightarrow> Runtime_linux H m os publicKey | Other _ \<Rightarrow> Inl ErrUnsupported)"

definition mgr_CloseInterface :: "'os host \<Rightarrow> Manager \<Rightarrow> 'os \<Rightarrow> mgr_error option \<times> 'os" where
  "mgr_CloseInterface H mgr os =
     (case mgr of Linux m \<Rightarrow> CloseInterface_linux H m os | Other _ \<Rightarrow> (Some ErrUnsupported, os))"

definition mgr_SetupRouting :: "'os host \<Rightarrow> Manager \<Rightarrow> 'os \<Rightarrow> string \<Rightarrow> mgr_error option \<times> 'os" where
  "mgr_SetupRouting H mgr os tunnelCIDR =
     (case mgr of Linux m \<Rightarrow> SetupRouting_linux H m os tunnelCIDR | Other _ \<Rightarrow> (Some ErrUnsupported, os))"

definition mgr_TeardownRouting :: "'os host \<Rightarrow> Manager \<Rightarrow> 'os \<Rightarrow> string \<Rightarrow> mgr_error option \<times> 'os" where
  "mgr_TeardownRouting H mgr os tunnelCIDR =
     (case mgr of Linux m \<Rightarrow> TeardownRouting_linux H m os tunnelCIDR | Other _ \<Rightarrow> (Some ErrUnsupported, os))"

section \<open>What the host documents\<close>

text \<open>
  A configuration call that succeeds removes the peers marked for removal and adds the others, in
  order; a key has one canonical text, which parses back to it; a map walk visits the keys of the
  map.
\<close>

definition peer_effect :: "wg_PeerConfig \<Rightarrow> bytes set \<Rightarrow> bytes set" where
  "peer_effect c ks = (if wpc_Remove c then ks - {wpc_PublicKey c} else insert (wpc_PublicKey c) ks)"

definition device_keys :: "'os host \<Rightarrow> 'os \<Rightarrow> string \<Rightarrow> bytes set" where
  "device_keys H os iface = (case h_Device H os iface of None \<Rightarrow> {} | Some ps \<Rightarrow> wgp_PublicKey ` set ps)"

definition wgctrl_documented :: "'os host \<Rightarrow> bool" where
  "wgctrl_documented H \<longleftrightarrow>
     (\<forall>k. h_ParseKey H (h_KeyString H k) = Some k) \<and>
     (\<forall>xs. set (h_range H xs) = set xs) \<and>
     (\<forall>os iface c os'. h_ConfigureDevice H os iface c = (True, os') \<longrightarrow>
        device_keys H os' iface = fold peer_effect (wgc_Peers c) (device_keys H os iface))"

text \<open>The texts of the keys on an interface, and the canonical key texts.\<close>

definition kernel_keys :: "'os host \<Rightarrow> Manager \<Rightarrow> 'os \<Rightarrow> string set" where
  "kernel_keys H mgr os =
     h_KeyString H ` (case mgr of Linux m \<Rightarrow> device_keys H os (lm_iface m) | Other _ \<Rightarrow> {})"

definition canonical :: "'os host \<Rightarrow> string \<Rightarrow> bool" where
  "canonical H s \<longleftrightarrow> (case h_ParseKey H s of None \<Rightarrow> False | Some k \<Rightarrow> h_KeyString H k = s)"

section \<open>Reconciling the peers\<close>

lemma effect_keep:
  "\<forall>c \<in> set cs. wpc_PublicKey c = k \<longrightarrow> \<not> wpc_Remove c \<Longrightarrow>
     k \<in> fold peer_effect cs ks \<longleftrightarrow> k \<in> ks \<or> (\<exists>c \<in> set cs. wpc_PublicKey c = k)"
  by (induction cs arbitrary: ks) (auto simp: peer_effect_def split: if_splits)

lemma effect_drop:
  "\<forall>c \<in> set cs. wpc_PublicKey c = k \<longrightarrow> wpc_Remove c \<Longrightarrow>
     k \<in> fold peer_effect cs ks \<longleftrightarrow> k \<in> ks \<and> \<not> (\<exists>c \<in> set cs. wpc_PublicKey c = k)"
  by (induction cs arbitrary: ks) (auto simp: peer_effect_def split: if_splits)

abbreviation wanted :: "KernelPeer list \<Rightarrow> string set" where
  "wanted kps \<equiv> kp_PublicKey ` {kp \<in> set kps. \<not> kp_Remove kp}"

abbreviation revoked :: "KernelPeer list \<Rightarrow> string set" where
  "revoked kps \<equiv> kp_PublicKey ` {kp \<in> set kps. kp_Remove kp}"

text \<open>What a run of the loop adds: one entry for each wanted key that is missing, removals of revoked ones.\<close>

lemma peer_cfgs_run:
  assumes "peer_cfgs H ex kps d cs = Inr (d', cs')" and "\<forall>kp \<in> set kps. canonical H (kp_PublicKey kp)"
  shows "d' = d \<union> wanted kps \<and>
    (\<exists>new. cs' = cs @ new \<and>
      (\<forall>c \<in> set new. if wpc_Remove c then h_KeyString H (wpc_PublicKey c) \<in> revoked kps
        else h_KeyString H (wpc_PublicKey c) \<in> wanted kps - ex) \<and>
      (\<forall>s \<in> wanted kps - ex. \<exists>c \<in> set new. \<not> wpc_Remove c \<and> h_KeyString H (wpc_PublicKey c) = s))"
  using assms
proof (induction kps arbitrary: d cs)
  case (Cons kp kps)
  obtain pub where pub: "h_ParseKey H (kp_PublicKey kp) = Some pub" "h_KeyString H pub = kp_PublicKey kp"
    using Cons.prems(2) by (auto simp: canonical_def split: option.splits)
  let ?rm = "\<lparr>wpc_PublicKey = pub, wpc_Remove = True, wpc_ReplaceAllowedIPs = False, wpc_AllowedIPs = []\<rparr>"
  show ?case
  proof (cases "kp_Remove kp")
    case True
    then have "peer_cfgs H ex kps d (if kp_PublicKey kp \<in> ex then cs @ [?rm] else cs) = Inr (d', cs')"
      using Cons.prems(1) pub by simp
    from Cons.IH [OF this] Cons.prems(2) obtain new where new:
      "d' = d \<union> wanted kps" "cs' = (if kp_PublicKey kp \<in> ex then cs @ [?rm] else cs) @ new"
      "\<forall>c \<in> set new. if wpc_Remove c then h_KeyString H (wpc_PublicKey c) \<in> revoked kps
        else h_KeyString H (wpc_PublicKey c) \<in> wanted kps - ex"
      "\<forall>s \<in> wanted kps - ex. \<exists>c \<in> set new. \<not> wpc_Remove c \<and> h_KeyString H (wpc_PublicKey c) = s"
      by auto
    have w: "wanted (kp # kps) = wanted kps" "revoked (kp # kps) = insert (kp_PublicKey kp) (revoked kps)"
      using True by auto
    show ?thesis
      unfolding w using new pub(2)
      by (intro conjI exI [of _ "(if kp_PublicKey kp \<in> ex then [?rm] else []) @ new"]) auto
  next
    case False
    then obtain ipnet where ip: "ParseCIDR (kp_AllowedIP kp) = Some ipnet"
      using Cons.prems(1) pub by (auto split: option.splits)
    let ?ad = "\<lparr>wpc_PublicKey = pub, wpc_Remove = False, wpc_ReplaceAllowedIPs = True, wpc_AllowedIPs = [ipnet]\<rparr>"
    have "peer_cfgs H ex kps (insert (kp_PublicKey kp) d) (if kp_PublicKey kp \<notin> ex then cs @ [?ad] else cs) = Inr (d', cs')"
      using Cons.prems(1) pub False ip by simp
    from Cons.IH [OF this] Cons.prems(2) obtain new where new:
      "d' = insert (kp_PublicKey kp) d \<union> wanted kps" "cs' = (if kp_PublicKey kp \<notin> ex then cs @ [?ad] else cs) @ new"
      "\<forall>c \<in> set new. if wpc_Remove c then h_KeyString H (wpc_PublicKey c) \<in> revoked kps
        else h_KeyString H (wpc_PublicKey c) \<in> wanted kps - ex"
      "\<forall>s \<in> wanted kps - ex. \<exists>c \<in> set new. \<not> wpc_Remove c \<and> h_KeyString H (wpc_PublicKey c) = s"
      by auto
    have w: "wanted (kp # kps) = insert (kp_PublicKey kp) (wanted kps)" "revoked (kp # kps) = revoked kps"
      using False by auto
    show ?thesis
      unfolding w using new pub(2)
      by (intro conjI exI [of _ "(if kp_PublicKey kp \<notin> ex then [?ad] else []) @ new"]) auto
  qed
qed simp

lemma stale_cfgs_keys:
  assumes "wgctrl_documented H" and "c \<in> set (stale_cfgs H (map (h_KeyString H) ks) d)"
  shows "wpc_Remove c \<and> wpc_PublicKey c \<in> set ks \<and> h_KeyString H (wpc_PublicKey c) \<notin> d"
  using assms by (auto simp: stale_cfgs_def wgctrl_documented_def)

lemma stale_cfgs_complete:
  assumes "wgctrl_documented H" and "k \<in> set ks" and "h_KeyString H k \<notin> d"
  shows "\<exists>c \<in> set (stale_cfgs H (map (h_KeyString H) ks) d). wpc_PublicKey c = k"
  using assms by (force simp: stale_cfgs_def wgctrl_documented_def)

lemma wanted_revoked_disjoint: "distinct (map kp_PublicKey kps) \<Longrightarrow> s \<in> wanted kps \<Longrightarrow> s \<notin> revoked kps"
  by (auto simp: distinct_map inj_on_def)

lemma KeyString_inj: "wgctrl_documented H \<Longrightarrow> h_KeyString H k = h_KeyString H k' \<longleftrightarrow> k = k'"
  unfolding wgctrl_documented_def by (metis option.inject)

lemma canonical_text: "canonical H s \<Longrightarrow> \<exists>k. s = h_KeyString H k"
  by (auto simp: canonical_def split: option.splits)

lemma cfgs_effect:
  assumes doc: "wgctrl_documented H" and dist: "distinct (map kp_PublicKey kps)"
    and only: "\<forall>c \<in> set cs. if wpc_Remove c then h_KeyString H (wpc_PublicKey c) \<in> revoked kps
        else h_KeyString H (wpc_PublicKey c) \<in> wanted kps - set (map (h_KeyString H) ks)"
    and all: "\<forall>s \<in> wanted kps - set (map (h_KeyString H) ks). \<exists>c \<in> set cs. \<not> wpc_Remove c \<and> h_KeyString H (wpc_PublicKey c) = s"
  shows "k \<in> fold peer_effect (cs @ stale_cfgs H (map (h_KeyString H) ks) (wanted kps)) (set ks) \<longleftrightarrow> h_KeyString H k \<in> wanted kps"
    (is "k \<in> fold _ ?all _ \<longleftrightarrow> _")
proof (cases "h_KeyString H k \<in> wanted kps")
  case True
  then have "\<forall>c \<in> set ?all. wpc_PublicKey c = k \<longrightarrow> \<not> wpc_Remove c"
    using only wanted_revoked_disjoint [OF dist True] stale_cfgs_keys [OF doc, of _ ks "wanted kps"] by (auto split: if_splits)
  moreover have "k \<in> set ks \<or> (\<exists>c \<in> set cs. wpc_PublicKey c = k)"
  proof (cases "h_KeyString H k \<in> set (map (h_KeyString H) ks)")
    case True
    then show ?thesis using KeyString_inj [OF doc] by auto
  next
    case False
    with True all have "\<exists>c \<in> set cs. h_KeyString H (wpc_PublicKey c) = h_KeyString H k" by blast
    then show ?thesis using KeyString_inj [OF doc] by blast
  qed
  ultimately show ?thesis using True effect_keep [of ?all k "set ks"] by auto
next
  case False
  then have "\<forall>c \<in> set ?all. wpc_PublicKey c = k \<longrightarrow> wpc_Remove c"
    using only stale_cfgs_keys [OF doc, of _ ks "wanted kps"] by (auto split: if_splits)
  moreover have "k \<in> set ks \<Longrightarrow> \<exists>c \<in> set ?all. wpc_PublicKey c = k"
    using False stale_cfgs_complete [OF doc, of k ks "wanted kps"] by auto
  ultimately show ?thesis using False effect_drop [of ?all k "set ks"] by blast
qed

lemma ApplyPeers_exact:
  assumes doc: "wgctrl_documented H" and canon: "\<forall>kp \<in> set kps. canonical H (kp_PublicKey kp)"
    and dist: "distinct (map kp_PublicKey kps)" and run: "ApplyPeers_linux H m os kps = (None, os')"
  shows "h_KeyString H ` device_keys H os' (lm_iface m) = wanted kps"
proof -
  obtain ps where ps: "h_Device H os (lm_iface m) = Some ps"
    using run by (auto simp: ApplyPeers_linux_def split: option.splits)
  let ?ks = "map wgp_PublicKey ps"
  let ?ex = "map (h_KeyString H) ?ks"
  have keys: "device_keys H os (lm_iface m) = set ?ks" by (simp add: device_keys_def ps)
  obtain d cs where loop: "peer_cfgs H (set ?ex) kps {} [] = Inr (d, cs)"
    using run ps by (auto simp: ApplyPeers_linux_def comp_def Let_def split: sum.splits)
  obtain new where d: "d = wanted kps" and "cs = [] @ new"
    and new: "\<forall>c \<in> set new. if wpc_Remove c then h_KeyString H (wpc_PublicKey c) \<in> revoked kps
        else h_KeyString H (wpc_PublicKey c) \<in> wanted kps - set ?ex"
      "\<forall>s \<in> wanted kps - set ?ex. \<exists>c \<in> set new. \<not> wpc_Remove c \<and> h_KeyString H (wpc_PublicKey c) = s"
    using peer_cfgs_run [OF loop canon] by blast
  then have cs: "cs = new" by simp
  let ?all = "cs @ stale_cfgs H ?ex (wanted kps)"
  have after: "device_keys H os' (lm_iface m) = fold peer_effect ?all (set ?ks)"
  proof (cases "?all = []")
    case True
    with run ps loop keys show ?thesis by (auto simp: ApplyPeers_linux_def comp_def d)
  next
    case False
    then have "h_ConfigureDevice H os (lm_iface m) \<lparr>wgc_PrivateKey = None, wgc_ListenPort = None, wgc_Peers = ?all\<rparr> = (True, os')"
      using run ps loop by (auto simp: ApplyPeers_linux_def comp_def Let_def d split: prod.splits bool.splits if_splits)
    with doc keys show ?thesis by (auto simp: wgctrl_documented_def)
  qed
  have "k \<in> fold peer_effect ?all (set ?ks) \<longleftrightarrow> h_KeyString H k \<in> wanted kps" for k
    unfolding cs by (rule cfgs_effect [OF doc dist new])
  then have "fold peer_effect ?all (set ?ks) = {k. h_KeyString H k \<in> wanted kps}" by blast
  moreover have "wanted kps \<subseteq> range (h_KeyString H)"
    using canon canonical_text by fast
  moreover have "f ` {k. f k \<in> W} = W" if "W \<subseteq> range f" for f :: "bytes \<Rightarrow> string" and W
    using that by blast
  ultimately show ?thesis unfolding after by simp
qed

text \<open>
  The contract of a manager towards the service: after a successful call exactly the wanted keys
  are on the interface.
\<close>

locale peer_manager =
  fixes documented :: "'h \<Rightarrow> bool"
    and canon :: "'h \<Rightarrow> string \<Rightarrow> bool"
    and apply_peers :: "'h \<Rightarrow> 'm \<Rightarrow> 'os \<Rightarrow> KernelPeer list \<Rightarrow> mgr_error option \<times> 'os"
    and present :: "'h \<Rightarrow> 'm \<Rightarrow> 'os \<Rightarrow> string set"
  assumes apply_law: "documented h \<Longrightarrow> \<forall>kp \<in> set kps. canon h (kp_PublicKey kp) \<Longrightarrow>
      distinct (map kp_PublicKey kps) \<Longrightarrow> apply_peers h m os kps = (None, os') \<Longrightarrow> present h m os' = wanted kps"
begin

lemma apply_removes:
  "documented h \<Longrightarrow> \<forall>kp \<in> set kps. canon h (kp_PublicKey kp) \<Longrightarrow> distinct (map kp_PublicKey kps) \<Longrightarrow>
     apply_peers h m os kps = (None, os') \<Longrightarrow> s \<in> revoked kps \<Longrightarrow> s \<notin> present h m os'"
  by (drule (3) apply_law) (use wanted_revoked_disjoint in blast)

lemma apply_twice:
  "documented h \<Longrightarrow> \<forall>kp \<in> set kps. canon h (kp_PublicKey kp) \<Longrightarrow> distinct (map kp_PublicKey kps) \<Longrightarrow>
     apply_peers h m os kps = (None, os1) \<Longrightarrow> apply_peers h m os1 kps = (None, os2) \<Longrightarrow>
     present h m os2 = present h m os1"
  using apply_law by simp

end

interpretation kernel: peer_manager wgctrl_documented canonical mgr_ApplyPeers kernel_keys
proof
  fix h :: "'a host" and kps m os os'
  assume "wgctrl_documented h" "\<forall>kp \<in> set kps. canonical h (kp_PublicKey kp)" "distinct (map kp_PublicKey kps)"
    "mgr_ApplyPeers h m os kps = (None, os')"
  then show "kernel_keys h m os' = wanted kps"
    by (cases m) (auto simp: mgr_ApplyPeers_def kernel_keys_def dest: ApplyPeers_exact)
qed

end
