(* ===== verification/Wg_Service.thy ===== *)
theory Wg_Service
  imports Supp_Config Wg_Conf Wg_Manager Query_Store
begin

text \<open>
  The VPN service, \<^verbatim>\<open>src/internal/wg/service.go\<close>: it ties the configuration, the peer rows of
  the store and the kernel manager together. The store is reached through the contract
  \<open>peer_store\<close> and the kernel through \<open>peer_manager\<close>; an operation takes and returns the store and
  the state of the machine.
\<close>

section \<open>The service\<close>

record Service =
  ws_Cfg :: WG
  ws_Mgr :: "Manager option"
  ws_Domain :: string
  ws_DataDir :: string

definition NewService :: "WG \<Rightarrow> string \<Rightarrow> string \<Rightarrow> Service" where
  "NewService cfg domain dir = \<lparr>ws_Cfg = cfg, ws_Mgr = None, ws_Domain = domain, ws_DataDir = dir\<rparr>"

datatype svc_error =
    MgrErr mgr_error
  | AddrErr alloc_error
  | PrefixErr string
  | MkdirErr
  | PersistKey
  | NameRequired
  | NameExists string
  | DbErr storeErr

definition EnsureKernel :: "'os host \<Rightarrow> 'os \<Rightarrow> Service \<Rightarrow> svc_error option \<times> Service" where
  "EnsureKernel H os s =
     (if ws_Mgr s \<noteq> None then (None, s)
      else (case NewManager H os (wg_Interface (ws_Cfg s)) of
          Inl err \<Rightarrow> (Some (MgrErr err), s)
        | Inr m \<Rightarrow> (None, s\<lparr>ws_Mgr := Some m\<rparr>)))"

definition keyPath :: "Service \<Rightarrow> string" where
  "keyPath s = ws_DataDir s @ ''/wg/server.key''"

definition create_key :: "'os host \<Rightarrow> 'os \<Rightarrow> Service \<Rightarrow> (svc_error + string) \<times> 'os" where
  "create_key H os s =
     (case GeneratePrivateKey H os of
        (Inl err, os1) \<Rightarrow> (Inl (MgrErr err), os1)
      | (Inr priv, os1) \<Rightarrow>
          (case h_MkdirAll H os1 (filepath_Dir (keyPath s)) of
             (False, os2) \<Rightarrow> (Inl MkdirErr, os2)
           | (True, os2) \<Rightarrow>
               (case h_WriteFile H os2 (keyPath s) (priv @ [CHR 0x0A]) of
                  (False, os3) \<Rightarrow> (Inl PersistKey, os3)
                | (True, os3) \<Rightarrow> (Inr priv, os3))))"

definition LoadOrCreateServerKey :: "'os host \<Rightarrow> 'os \<Rightarrow> Service \<Rightarrow> (svc_error + string) \<times> 'os" where
  "LoadOrCreateServerKey H os s =
     (case h_ReadFile H os (keyPath s) of
        Some b \<Rightarrow> if TrimSpace b \<noteq> [] then (Inr (TrimSpace b), os) else create_key H os s
      | None \<Rightarrow> create_key H os s)"

definition svc_Endpoint :: "Service \<Rightarrow> string" where
  "svc_Endpoint s = EffectiveEndpoint (ws_Cfg s) (ws_Domain s)"

section \<open>Peers in the kernel\<close>

definition kernelPeers :: "Store \<Rightarrow> KernelPeer list" where
  "kernelPeers st =
     map (\<lambda>p. \<lparr>kp_PublicKey = wp_PublicKey p, kp_AllowedIP = wp_IP p @ ''/32'', kp_Remove = (\<not> wp_Active p)\<rparr>) (ListWgPeers st)"

definition reconcilePeers :: "'os host \<Rightarrow> Service \<Rightarrow> Store \<Rightarrow> 'os \<Rightarrow> svc_error option \<times> 'os" where
  "reconcilePeers H s st os =
     (case ws_Mgr s of
        None \<Rightarrow> (Some (MgrErr ErrUnsupported), os)
      | Some m \<Rightarrow> (case mgr_ApplyPeers H m os (kernelPeers st) of (r, os') \<Rightarrow> (map_option MgrErr r, os')))"

text \<open>\<^verbatim>\<open>Enable\<close>; the manager is there once \<^verbatim>\<open>EnsureKernel\<close> has succeeded.\<close>

definition bring_up ::
  "'os host \<Rightarrow> Service \<Rightarrow> Store \<Rightarrow> 'os \<Rightarrow> Manager \<Rightarrow> string \<Rightarrow> svc_error option \<times> 'os" where
  "bring_up H s st os m priv =
     (case ServerIP (wg_Subnet (ws_Cfg s)) of
        Inl err \<Rightarrow> (Some (AddrErr err), os)
      | Inr sip \<Rightarrow>
          (case ParsePrefix (wg_Subnet (ws_Cfg s)) of
             None \<Rightarrow> (Some (PrefixErr (wg_Subnet (ws_Cfg s))), os)
           | Some p \<Rightarrow>
               (case mgr_EnsureInterface H m os priv (wg_Port (ws_Cfg s)) sip (int (pfx_Bits p)) of
                  (Some err, os1) \<Rightarrow> (Some (MgrErr err), os1)
                | (None, os1) \<Rightarrow>
                    (case mgr_SetupRouting H m os1 (wg_Subnet (ws_Cfg s)) of
                       (Some err, os2) \<Rightarrow> (Some (MgrErr err), os2)
                     | (None, os2) \<Rightarrow> reconcilePeers H s st os2))))"

definition Enable :: "'os host \<Rightarrow> Service \<Rightarrow> Store \<Rightarrow> 'os \<Rightarrow> svc_error option \<times> Service \<times> 'os" where
  "Enable H s st os =
     (case EnsureKernel H os s of
        (Some err, s') \<Rightarrow> (Some err, s', os)
      | (None, s') \<Rightarrow>
          (case LoadOrCreateServerKey H os s' of
             (Inl err, os1) \<Rightarrow> (Some err, s', os1)
           | (Inr priv, os1) \<Rightarrow>
               (case ws_Mgr s' of
                  None \<Rightarrow> (Some (MgrErr ErrUnsupported), s', os1)
                | Some m \<Rightarrow> (case bring_up H s' st os1 m priv of (r, os2) \<Rightarrow> (r, s', os2)))))"

definition Disable :: "'os host \<Rightarrow> Service \<Rightarrow> 'os \<Rightarrow> svc_error option \<times> 'os" where
  "Disable H s os =
     (case ws_Mgr s of
        None \<Rightarrow> (Some (MgrErr ErrUnsupported), os)
      | Some m \<Rightarrow>
          let os = snd (mgr_TeardownRouting H m os (wg_Subnet (ws_Cfg s)))
          in (case mgr_CloseInterface H m os of (r, os') \<Rightarrow> (map_option MgrErr r, os')))"

section \<open>Operations on peers\<close>

text \<open>
  The outer \<open>None\<close> of \<^verbatim>\<open>AddPeer\<close> is an address search that does not end. A failure of the
  kernel is logged and the row stays.
\<close>

definition AddPeer ::
  "'os host \<Rightarrow> time \<Rightarrow> Service \<Rightarrow> Store \<Rightarrow> 'os \<Rightarrow> string \<Rightarrow> bool \<Rightarrow> int \<Rightarrow> ((svc_error + WgPeer) \<times> Store \<times> 'os) option" where
  "AddPeer H now s st os name0 fullTunnel clientID =
     (let name = TrimSpace name0 in
      if name = [] then Some (Inl NameRequired, st, os)
      else if isr (WgPeerByName st name) then Some (Inl (NameExists name), st, os)
      else
        let taken = WgPeerIPs st;
            taken = (case ServerIP (wg_Subnet (ws_Cfg s)) of Inr sip \<Rightarrow> insert sip taken | Inl _ \<Rightarrow> taken)
        in (case AllocIP (wg_Subnet (ws_Cfg s)) taken of
              None \<Rightarrow> None
            | Some (Inl err) \<Rightarrow> Some (Inl (AddrErr err), st, os)
            | Some (Inr ip) \<Rightarrow>
                (case GeneratePrivateKey H os of
                   (Inl err, os1) \<Rightarrow> Some (Inl (MgrErr err), st, os1)
                 | (Inr priv, os1) \<Rightarrow>
                     (case PublicKey H priv of
                        Inl err \<Rightarrow> Some (Inl (MgrErr err), st, os1)
                      | Inr pub \<Rightarrow>
                          (case CreateWgPeer now st name pub priv ip fullTunnel clientID of
                             (Inl err, st') \<Rightarrow> Some (Inl (DbErr err), st', os1)
                           | (Inr p, st') \<Rightarrow>
                               Some (Inr p, st', if ws_Mgr s = None then os1 else snd (reconcilePeers H s st' os1)))))))"

definition RemovePeer :: "'os host \<Rightarrow> Service \<Rightarrow> Store \<Rightarrow> 'os \<Rightarrow> int \<Rightarrow> svc_error option \<times> Store \<times> 'os" where
  "RemovePeer H s st os i =
     (let st = DeleteWgPeer st i in
      if ws_Mgr s = None then (None, st, os)
      else (case reconcilePeers H s st os of (r, os') \<Rightarrow> (r, st, os')))"

definition SetPeerActive :: "'os host \<Rightarrow> Service \<Rightarrow> Store \<Rightarrow> 'os \<Rightarrow> int \<Rightarrow> bool \<Rightarrow> svc_error option \<times> Store \<times> 'os" where
  "SetPeerActive H s st os i active =
     (let st = SetWgPeerActive st i active in
      if ws_Mgr s = None then (None, st, os)
      else (case reconcilePeers H s st os of (r, os') \<Rightarrow> (r, st, os')))"

definition PeerConf :: "'os host \<Rightarrow> Service \<Rightarrow> 'os \<Rightarrow> WgPeer \<Rightarrow> (svc_error + string) \<times> 'os" where
  "PeerConf H s os p =
     (case LoadOrCreateServerKey H os s of
        (Inl err, os1) \<Rightarrow> (Inl err, os1)
      | (Inr serverPriv, os1) \<Rightarrow>
          (case PublicKey H serverPriv of
             Inl err \<Rightarrow> (Inl (MgrErr err), os1)
           | Inr serverPub \<Rightarrow>
               (case ServerIP (wg_Subnet (ws_Cfg s)) of
                  Inl err \<Rightarrow> (Inl (AddrErr err), os1)
                | Inr sip \<Rightarrow>
                    (Inr (Render \<lparr>pc_PrivateKey = wp_PrivateKey p, pc_Address = wp_IP p, pc_ServerPub = serverPub,
                       pc_Endpoint = svc_Endpoint s, pc_FullTunnel = wp_FullTunnel p, pc_SplitDNSIP = sip,
                       pc_SplitNetworks = (if wp_FullTunnel p then [] else wg_SplitNetworks (ws_Cfg s))\<rparr>), os1))))"

text \<open>A peer that the kernel does not know, or whose counters the store refuses, is passed over.\<close>

definition refresh_peer :: "'os host \<Rightarrow> Manager \<Rightarrow> 'os \<Rightarrow> WgPeer \<Rightarrow> Store \<Rightarrow> Store" where
  "refresh_peer H m os p st =
     (case mgr_Runtime H m os (wp_PublicKey p) of
        Inl _ \<Rightarrow> st
      | Inr rt \<Rightarrow> snd (UpdateWgPeerStats st (wp_ID p) (rt_RxBytes rt) (rt_TxBytes rt) (rt_LastHandsha rt)))"

definition RefreshStats :: "'os host \<Rightarrow> Service \<Rightarrow> Store \<Rightarrow> 'os \<Rightarrow> Store" where
  "RefreshStats H s st os =
     (case ws_Mgr s of
        None \<Rightarrow> st
      | Some m \<Rightarrow> fold (refresh_peer H m os) (ListWgPeers st) st)"

text \<open>The loop around it; a tick finds the machine in some state.\<close>

definition svc_Loop :: "'os host \<Rightarrow> Service \<Rightarrow> Store \<Rightarrow> 'os loop_event list \<Rightarrow> Store \<times> bool" where
  "svc_Loop H s st evs = select_loop (\<lambda>os st. RefreshStats H s st os) st evs"

record Status =
  sts_Interface :: string
  sts_Endpoint :: string
  sts_Port :: int
  sts_Subnet :: string
  sts_ServerIP :: string
  sts_Peers :: "WgPeer list"
  sts_Up :: bool

definition svc_Status :: "Service \<Rightarrow> Store \<Rightarrow> Status" where
  "svc_Status s st =
     \<lparr>sts_Interface = wg_Interface (ws_Cfg s), sts_Endpoint = svc_Endpoint s, sts_Port = wg_Port (ws_Cfg s),
      sts_Subnet = wg_Subnet (ws_Cfg s),
      sts_ServerIP = (case ServerIP (wg_Subnet (ws_Cfg s)) of Inl _ \<Rightarrow> [] | Inr sip \<Rightarrow> sip),
      sts_Peers = ListWgPeers st, sts_Up = (ws_Mgr s \<noteq> None)\<rparr>"

section \<open>The invariant of the peer rows\<close>

definition vpn_ok :: "'os host \<Rightarrow> Store \<Rightarrow> bool" where
  "vpn_ok H st \<longleftrightarrow> wf_store st \<and> (\<forall>p \<in> set (ListWgPeers st). canonical H (wp_PublicKey p))"

definition active_keys :: "Store \<Rightarrow> string set" where
  "active_keys st = wp_PublicKey ` {p \<in> set (ListWgPeers st). wp_Active p}"

text \<open>
  The stores the service works on: a new one, what its operations leave, in any order and on any
  state of the machine, and what the rest of the program does to the other tables.
\<close>

inductive vpn_reach :: "'os host \<Rightarrow> Store \<Rightarrow> bool" for H where
  vpn_open: "vpn_reach H (Open lq ret)"
| vpn_add: "vpn_reach H st \<Longrightarrow> AddPeer H now s st os name ft cid = Some (r, st', os') \<Longrightarrow> vpn_reach H st'"
| vpn_remove: "vpn_reach H st \<Longrightarrow> RemovePeer H s st os i = (r, st', os') \<Longrightarrow> vpn_reach H st'"
| vpn_active: "vpn_reach H st \<Longrightarrow> SetPeerActive H s st os i a = (r, st', os') \<Longrightarrow> vpn_reach H st'"
| vpn_refresh: "vpn_reach H st \<Longrightarrow> vpn_reach H (RefreshStats H s st os)"
| vpn_other: "vpn_reach H st \<Longrightarrow> wf_store st' \<Longrightarrow> st_peers st' = st_peers st \<Longrightarrow> vpn_reach H st'"

lemma svc_Loop_reach: "vpn_reach H st \<Longrightarrow> vpn_reach H (fst (svc_Loop H s st evs))"
  unfolding svc_Loop_def by (rule select_loop_invariant [of "vpn_reach H"]) (auto intro: vpn_refresh)

lemma PublicKey_canonical: "wgctrl_documented H \<Longrightarrow> PublicKey H priv = Inr pub \<Longrightarrow> canonical H pub"
  by (auto simp: PublicKey_def canonical_def wgctrl_documented_def split: option.splits)

text \<open>The addresses a new peer may not get.\<close>

definition reserved :: "Service \<Rightarrow> Store \<Rightarrow> string set" where
  "reserved s st =
     (case ServerIP (wg_Subnet (ws_Cfg s)) of Inr sip \<Rightarrow> insert sip (WgPeerIPs st) | Inl _ \<Rightarrow> WgPeerIPs st)"

lemma CreateWgPeer_Inl: "CreateWgPeer now st name pub priv ip ft cid = (Inl err, st') \<Longrightarrow> st' = st"
  by (auto simp: CreateWgPeer_def Let_def split: if_splits)

text \<open>Every way through \<^verbatim>\<open>AddPeer\<close>: it returns, and either leaves the store or has created the row.\<close>

lemma AddPeer_run:
  "\<exists>r st' os'. AddPeer H now s st os name ft cid = Some (r, st', os') \<and>
     (case r of
        Inl _ \<Rightarrow> st' = st
      | Inr p \<Rightarrow> \<exists>priv pub ip. PublicKey H priv = Inr pub \<and> TrimSpace name \<noteq> [] \<and> isl (WgPeerByName st (TrimSpace name)) \<and>
          AllocIP (wg_Subnet (ws_Cfg s)) (reserved s st) = Some (Inr ip) \<and>
          CreateWgPeer now st (TrimSpace name) pub priv ip ft cid = (Inr p, st'))"
proof -
  obtain a where a: "AllocIP (wg_Subnet (ws_Cfg s)) (reserved s st) = Some a"
    using AllocIP_returns by blast
  note eq = AddPeer_def Let_def reserved_def [symmetric]
  show ?thesis
  proof (cases "TrimSpace name = [] \<or> isr (WgPeerByName st (TrimSpace name)) \<or> isl a")
    case True
    with a show ?thesis by (cases a) (auto simp: eq)
  next
    case False
    then obtain ip where ip: "a = Inr ip" by (cases a) auto
    obtain g os1 where g: "GeneratePrivateKey H os = (g, os1)" by fastforce
    show ?thesis
    proof (cases "\<exists>priv pub. g = Inr priv \<and> PublicKey H priv = Inr pub")
      case True
      then obtain priv pub where k: "g = Inr priv" "PublicKey H priv = Inr pub" by blast
      obtain c st' where c: "CreateWgPeer now st (TrimSpace name) pub priv ip ft cid = (c, st')" by fastforce
      with False a ip g k show ?thesis
        by (cases c) (auto simp: eq dest: CreateWgPeer_Inl)
    next
      case bad: False
      with False a ip g show ?thesis
        by (cases g; cases "PublicKey H (projr g)") (auto simp: eq)
    qed
  qed
qed

lemma vpn_ok_cong: "wf_store st' \<Longrightarrow> set (map wp_PublicKey (ListWgPeers st')) \<subseteq> set (map wp_PublicKey (ListWgPeers st)) \<Longrightarrow>
    vpn_ok H st \<Longrightarrow> vpn_ok H st'"
  by (auto simp: vpn_ok_def subset_iff image_iff)

lemma peer_keys: "set (map wp_PublicKey (ListWgPeers st)) = prow_pub ` set (st_peers st)"
  by (simp add: ListWgPeers_def image_image)

lemma refresh_peer_keys:
  assumes "wf_store st"
  shows "wf_store (refresh_peer H m os p st) \<and> prow_pub ` set (st_peers (refresh_peer H m os p st)) \<subseteq> prow_pub ` set (st_peers st)"
proof (cases "mgr_Runtime H m os (wp_PublicKey p)")
  case (Inl e)
  with assms show ?thesis by (simp add: refresh_peer_def)
next
  case (Inr rt)
  obtain e st' where u: "UpdateWgPeerStats st (wp_ID p) (rt_RxBytes rt) (rt_TxBytes rt) (rt_LastHandsha rt) = (e, st')"
    by fastforce
  then have "prow_pub ` set (st_peers st') \<subseteq> prow_pub ` set (st_peers st)"
    by (auto simp: UpdateWgPeerStats_def split: if_splits)
  with u Inr wf_UpdateWgPeerStats [OF assms u] show ?thesis by (simp add: refresh_peer_def)
qed

lemma refresh_all_keys:
  "wf_store st \<Longrightarrow> wf_store (fold (refresh_peer H m os) ps st) \<and>
     prow_pub ` set (st_peers (fold (refresh_peer H m os) ps st)) \<subseteq> prow_pub ` set (st_peers st)"
proof (induction ps arbitrary: st)
  case (Cons p ps)
  from Cons.IH [of "refresh_peer H m os p st"] refresh_peer_keys [OF Cons.prems, of H m os p] show ?case
    by (auto dest: subset_trans)
qed simp

lemma vpn_ok_AddPeer:
  assumes "wgctrl_documented H" and "vpn_ok H st" and "AddPeer H now s st os name ft cid = Some (r, st', os')"
  shows "vpn_ok H st'"
proof (cases r)
  case (Inl e)
  with assms AddPeer_run [of H now s st os name ft cid] show ?thesis by simp
next
  case (Inr p)
  then obtain priv pub ip where k: "PublicKey H priv = Inr pub"
    and c: "CreateWgPeer now st (TrimSpace name) pub priv ip ft cid = (Inr p, st')"
    using AddPeer_run [of H now s st os name ft cid] assms(3) by auto
  have wf: "wf_store st" using assms(2) by (simp add: vpn_ok_def)
  obtain t where "ListWgPeers st' = p\<lparr>wp_CreatedAt := t\<rparr> # ListWgPeers st" "wp_PublicKey p = pub" "wf_store st'"
    using db.create_law [OF wf c] by (auto split: if_splits)
  with assms(2) PublicKey_canonical [OF assms(1) k] show ?thesis by (auto simp: vpn_ok_def)
qed

lemma vpn_reach_ok: "vpn_reach H st \<Longrightarrow> wgctrl_documented H \<Longrightarrow> vpn_ok H st"
proof (induction rule: vpn_reach.induct)
  case (vpn_open lq ret)
  then show ?case by (simp add: vpn_ok_def wf_Open) (simp add: Open_def ListWgPeers_def)
next
  case (vpn_add st now s os name ft cid r st' os')
  then show ?case by (intro vpn_ok_AddPeer [OF _ _ vpn_add.hyps(2)])
next
  case (vpn_remove st s os i r st' os')
  then have "st' = DeleteWgPeer st i" by (auto simp: RemovePeer_def Let_def split: if_splits prod.splits)
  with vpn_remove show ?case by (auto simp: vpn_ok_def db.del_law)
next
  case (vpn_active st s os i a r st' os')
  then have "st' = SetWgPeerActive st i a" by (auto simp: SetPeerActive_def Let_def split: if_splits prod.splits)
  with vpn_active show ?case by (auto simp: vpn_ok_def db.set_active_law)
next
  case (vpn_refresh st s os)
  then show ?case
    using refresh_all_keys [of st H _ os "ListWgPeers st"] vpn_ok_cong [of "RefreshStats H s st os" st H]
    unfolding peer_keys by (auto simp: RefreshStats_def vpn_ok_def split: option.splits)
next
  case (vpn_other st st')
  then show ?case using vpn_ok_cong [of st' st H] unfolding peer_keys by simp
qed

section \<open>The kernel follows the store\<close>

lemma kernelPeers_keys:
  "map kp_PublicKey (kernelPeers st) = map wp_PublicKey (ListWgPeers st)" "wanted (kernelPeers st) = active_keys st"
  by (auto simp: kernelPeers_def active_keys_def intro!: rev_image_eqI)

lemma reconcilePeers_exact:
  assumes "wgctrl_documented H" and "vpn_ok H st" and "ws_Mgr s = Some m" and "reconcilePeers H s st os = (None, os')"
  shows "kernel_keys H m os' = active_keys st"
proof -
  have "mgr_ApplyPeers H m os (kernelPeers st) = (None, os')"
    using assms(3,4) by (auto simp: reconcilePeers_def split: prod.splits)
  moreover have "distinct (map kp_PublicKey (kernelPeers st))"
    using assms(2) db.unique by (simp add: kernelPeers_keys vpn_ok_def)
  moreover have "\<forall>kp \<in> set (kernelPeers st). canonical H (kp_PublicKey kp)"
    using assms(2) by (auto simp: kernelPeers_def vpn_ok_def)
  ultimately show ?thesis
    using kernel.apply_law [OF assms(1), of "kernelPeers st" m os os'] kernelPeers_keys(2) [of st] by simp
qed

lemma EnsureKernel_attached: "EnsureKernel H os s = (None, s') \<Longrightarrow> ws_Mgr s' \<noteq> None"
  by (auto simp: EnsureKernel_def split: if_splits sum.splits)

text \<open>A successful \<^verbatim>\<open>Enable\<close> has ended with a successful reconciliation.\<close>

lemma Enable_reconciles:
  assumes "Enable H s st os = (None, s', os')"
  shows "\<exists>os1. reconcilePeers H s' st os1 = (None, os')"
proof -
  obtain priv os1 m where "LoadOrCreateServerKey H os s' = (Inr priv, os1)" "bring_up H s' st os1 m priv = (None, os')"
    using assms by (auto simp: Enable_def split: prod.splits option.splits sum.splits)
  then show ?thesis
    by (auto simp: bring_up_def split: prod.splits option.splits sum.splits)
qed

lemma Enable_keeps_manager: "ws_Mgr s \<noteq> None \<Longrightarrow> Enable H s st os = (r, s', os') \<Longrightarrow> s' = s"
  by (auto simp: Enable_def EnsureKernel_def split: prod.splits option.splits sum.splits)


text \<open>
  C15: Adding a peer always returns. When it fails it leaves the store as it was; when it succeeds
  the new peer has the trimmed, non-empty name it was asked for, which no other peer has, and a
  tunnel address that is a host of the configured subnet, that no other peer has and that is not
  the gateway's; and the store lists that peer and the ones before it, no others.
\<close>
theorem add_peer_fresh:
  assumes "wf_store st"
  shows "case AddPeer H now s st os name ft cid of
      None \<Rightarrow> False
    | Some (Inl err, st', os') \<Rightarrow> st' = st
    | Some (Inr p, st', os') \<Rightarrow>
        wp_Name p = TrimSpace name \<and> wp_Name p \<noteq> [] \<and> wp_Name p \<notin> wp_Name ` set (ListWgPeers st) \<and>
        wp_IP p \<notin> WgPeerIPs st \<and> ServerIP (wg_Subnet (ws_Cfg s)) \<noteq> Inr (wp_IP p) \<and>
        (\<exists>q b. ParsePrefix (TrimSpace (wg_Subnet (ws_Cfg s))) = Some q \<and> host_addr (pfx_Masked q) b \<and> wp_IP p = addr_String b) \<and>
        wf_store st' \<and> (\<exists>t. ListWgPeers st' = p\<lparr>wp_CreatedAt := t\<rparr> # ListWgPeers st)"
proof -
  obtain r st' os' where run: "AddPeer H now s st os name ft cid = Some (r, st', os')"
    using AddPeer_run [of H now s st os name ft cid] by blast
  show ?thesis
  proof (cases r)
    case (Inl e)
    with run AddPeer_run [of H now s st os name ft cid] show ?thesis by simp
  next
    case (Inr p)
    then obtain priv pub ip where p: "TrimSpace name \<noteq> []" "isl (WgPeerByName st (TrimSpace name))"
      "AllocIP (wg_Subnet (ws_Cfg s)) (reserved s st) = Some (Inr ip)"
      and c: "CreateWgPeer now st (TrimSpace name) pub priv ip ft cid = (Inr p, st')"
      using AddPeer_run [of H now s st os name ft cid] run by auto
    obtain t where new: "ListWgPeers st' = p\<lparr>wp_CreatedAt := t\<rparr> # ListWgPeers st" "wp_Name p = TrimSpace name"
      "wp_IP p = ip" "wf_store st'"
      using db.create_law [OF assms c] by (auto split: if_splits)
    have "TrimSpace name \<notin> wp_Name ` set (ListWgPeers st)"
      using p(2) db.by_name_law [OF assms] by (auto split: option.splits simp: find_None_iff)
    with p new AllocIP_fresh [OF p(3)] run Inr show ?thesis
      by (auto simp: reserved_def split: sum.splits)
  qed
qed

section \<open>A host for the witnesses\<close>

text \<open>One interface whose keys are the state of the machine, the text of a key being its bytes.\<close>

definition tiny_apply :: "wg_PeerConfig \<Rightarrow> bytes list \<Rightarrow> bytes list" where
  "tiny_apply c ks =
     (if wpc_Remove c then filter (\<lambda>k. k \<noteq> wpc_PublicKey c) ks
      else if wpc_PublicKey c \<in> set ks then ks else ks @ [wpc_PublicKey c])"

definition tiny_host :: "bytes \<Rightarrow> (bytes list) host" where
  "tiny_host fresh =
     \<lparr>h_linux = True, h_wgNew = (\<lambda>_. True), h_Devices = (\<lambda>_. Some [''supp0'']),
      h_Device = (\<lambda>os _. Some (map (\<lambda>k. \<lparr>wgp_PublicKey = k, wgp_ReceiveBytes = 0, wgp_TransmitBytes = 0, wgp_LastHandshakeTime = 0\<rparr>) os)),
      h_ConfigureDevice = (\<lambda>os _ c. (True, fold tiny_apply (wgc_Peers c) os)),
      h_ParseKey = Some, h_KeyString = (\<lambda>k. k), h_PublicKey = (\<lambda>k. k), h_GenerateKey = (\<lambda>os. (Some fresh, os)),
      h_exec = (\<lambda>os _ _ _. (Some [], os)), h_LookPath = (\<lambda>_ n. Some n), h_ReadFile = (\<lambda>_ _. None),
      h_WriteFile = (\<lambda>os _ _. (True, os)), h_MkdirAll = (\<lambda>os _. (True, os)), h_range = rev\<rparr>"

lemma set_tiny_apply: "set (fold tiny_apply cs ks) = fold peer_effect cs (set ks)"
proof (induction cs arbitrary: ks)
  case (Cons c cs)
  have "set (tiny_apply c ks) = peer_effect c (set ks)"
    by (auto simp: tiny_apply_def peer_effect_def)
  with Cons.IH show ?case by simp
qed simp

lemma tiny_host_documented: "wgctrl_documented (tiny_host fresh)"
  by (simp add: wgctrl_documented_def device_keys_def tiny_host_def image_image set_tiny_apply)

definition tiny_service :: Service where
  "tiny_service = (NewService (c_WG Default) [] ''/d'')\<lparr>ws_Mgr := Some (Linux \<lparr>lm_iface = ''supp0''\<rparr>)\<rparr>"

definition one_peer :: Store where
  "one_peer = fst (snd (the (AddPeer (tiny_host ''k1'') 0 tiny_service (Open True 0) [] ''phone'' True 0)))"

lemma one_peer_reach: "vpn_reach (tiny_host ''k1'') one_peer"
proof -
  obtain r st' os' where "AddPeer (tiny_host ''k1'') 0 tiny_service (Open True 0) [] ''phone'' True 0 = Some (r, st', os')"
    using AddPeer_run [of "tiny_host ''k1''" 0 tiny_service "Open True 0" "[]" "''phone''" True 0] by blast
  then show ?thesis
    using vpn_add [OF vpn_open] by (simp add: one_peer_def)
qed


theorem add_peer_fresh_witness:
  "\<exists>p st' os'. AddPeer (tiny_host ''k1'') 0 tiny_service (Open True 0) [] '' phone '' True 0 = Some (Inr p, st', os') \<and>
     wp_IP p = ''10.66.0.2'' \<and> wp_Name p = ''phone'' \<and> ServerIP ''10.66.0.0/24'' \<noteq> Inr (wp_IP p)"
proof -
  let ?r = "AddPeer (tiny_host ''k1'') 0 tiny_service (Open True 0) [] '' phone '' True 0"
  have "(case ?r of Some (Inr p, _) \<Rightarrow> wp_IP p = ''10.66.0.2'' | _ \<Rightarrow> False)" by code_simp
  then obtain p st' os' where r: "?r = Some (Inr p, st', os')" "wp_IP p = ''10.66.0.2''"
    by (auto split: option.splits sum.splits)
  moreover have "wg_Subnet (ws_Cfg tiny_service) = ''10.66.0.0/24''" "TrimSpace '' phone '' = ''phone''"
    by (simp add: tiny_service_def NewService_def Default_def, code_simp)
  ultimately show ?thesis
    using add_peer_fresh [OF wf_Open [of True 0], where H = "tiny_host ''k1''" and now = 0 and s = tiny_service and os = "[]" and
        name = "'' phone ''" and ft = True and cid = 0] by simp
qed

section \<open>Observed limits\<close>

text \<open>
  A service that was just built has no manager, so disabling the VPN through it fails and leaves the
  interface and the routing as they are.
\<close>

lemma disable_without_kernel: "Disable H (NewService cfg domain dir) os = (Some (MgrErr ErrUnsupported), os)"
  by (simp add: Disable_def NewService_def)

text \<open>Without a manager a new peer is a row only; the machine changes by the drawing of the key alone.\<close>

lemma add_peer_without_kernel:
  assumes "ws_Mgr s = None" and "AddPeer H now s st os name ft cid = Some (r, st', os')"
  shows "os' = os \<or> os' = snd (GeneratePrivateKey H os)"
  using assms by (auto simp: AddPeer_def Let_def split: if_splits option.splits sum.splits prod.splits)

text \<open>
  A subnet with blanks around it passes validation, which trims it, and then cannot be enabled,
  which does not.
\<close>

lemma blank_subnet_not_enabled:
  assumes "w = (c_WG Default)\<lparr>wg_Enabled := True, wg_Subnet := '' 10.66.0.0/24''\<rparr>"
  shows "WG_Validate w = None \<and> fst (Enable (tiny_host ''k1'') (NewService w '''' ''/d'') (Open True 0) []) = Some (PrefixErr '' 10.66.0.0/24'')"
  unfolding assms by code_simp

text \<open>
  In an IPv6 tunnel the route of a peer is still cut at 32 bits: two peers of the subnet get the
  same network.
\<close>

lemma ipv6_peers_share_route:
  "AllocIP ''fd00::/64'' {''fd00::1''} = Some (Inr ''fd00::2'') \<and>
   ParseCIDR (''fd00::2'' @ ''/32'') = ParseCIDR (''fd00::3'' @ ''/32'')"
  by code_simp

end
