(* ===== verification/List_Parse.thy ===== *)
theory List_Parse
  imports Supp_Prelude
begin

text \<open>
  The blocklist parsers, \<^verbatim>\<open>src/internal/filter/parse.go\<close>: the hosts, domains and AdGuard
  formats, and \<^verbatim>\<open>ParseAuto\<close>, which sniffs the format through a \<^verbatim>\<open>bufio.Reader\<close>
  before it hands the same reader to a parser. A reader over a byte slice is the list of the
  bytes it has still to deliver.
\<close>

section \<open>Results\<close>

definition FormatHosts :: string where "FormatHosts = ''hosts''"
definition FormatDomains :: string where "FormatDomains = ''domains''"
definition FormatAdguard :: string where "FormatAdguard = ''adguard''"
definition FormatAuto :: string where "FormatAuto = ''auto''"

lemmas format_defs = FormatHosts_def FormatDomains_def FormatAdguard_def FormatAuto_def

record ParsedList =
  Format :: string
  Blocked :: "string list"
  Allowed :: "string list"

datatype parse_error = ErrTooLong | UnknownFormat string

text \<open>A Go result pair: the list (absent when \<^verbatim>\<open>nil\<close>) and the error (absent when \<^verbatim>\<open>nil\<close>).\<close>

type_synonym parse_result = "ParsedList option \<times> parse_error option"

section \<open>Lines\<close>

abbreviation nl :: char where
  "nl \<equiv> CHR 0x0A"

text \<open>
  \<^verbatim>\<open>bufio.Scanner\<close> with the buffer limit the parsers set (1 MiB): lines without their
  end marker, a trailing carriage return dropped; a line that fills the buffer ends the scan with
  \<^verbatim>\<open>ErrTooLong\<close>.
\<close>

function raw_lines :: "string \<Rightarrow> string list" where
  "raw_lines s =
     (if s = [] then []
      else takeWhile (\<lambda>c. c \<noteq> nl) s # raw_lines (drop 1 (dropWhile (\<lambda>c. c \<noteq> nl) s)))"
  by pat_completeness auto
termination
proof (relation "measure length")
  fix s :: string
  assume "s \<noteq> []"
  moreover have "length (dropWhile (\<lambda>c. c \<noteq> nl) s) \<le> length s" by (rule length_dropWhile_le)
  ultimately show "(drop 1 (dropWhile (\<lambda>c. c \<noteq> nl) s), s) \<in> measure length"
    by (cases s) (auto simp: le_imp_less_Suc length_dropWhile_le less_Suc_eq_le diff_le_self
        intro: le_trans [OF diff_le_self])
qed simp

declare raw_lines.simps [simp del]

definition max_line :: nat where
  "max_line = 1024 * 1024"

definition dropCR :: "string \<Rightarrow> string" where
  "dropCR l = (if l \<noteq> [] \<and> last l = CHR 0x0D then butlast l else l)"

definition scan_lines :: "string \<Rightarrow> string list \<times> parse_error option" where
  "scan_lines s =
     (let ls = raw_lines s; ok = takeWhile (\<lambda>l. length l < max_line) ls
      in (map dropCR ok, if length ok < length ls then Some ErrTooLong else None))"

lemma scan_lines_code [code]:
  "scan_lines s =
     (let ls = raw_lines s; ok = takeWhile (\<lambda>l. int (length l) < 1048576) ls
      in (map dropCR ok, if length ok < length ls then Some ErrTooLong else None))"
proof -
  have "(\<lambda>l :: string. length l < max_line) = (\<lambda>l. int (length l) < 1048576)"
    by (auto simp: max_line_def)
  then show ?thesis by (simp add: scan_lines_def)
qed

section \<open>The three formats\<close>

definition is_digit :: "char \<Rightarrow> bool" where
  "is_digit c = (let n = (of_char c :: int) in 48 \<le> n \<and> n \<le> 57)"

definition isIP :: "string \<Rightarrow> bool" where
  "isIP s =
     (if CHR '':'' \<in> set s then True
      else
        let parts = go_Split CHR ''.'' s in
        length parts = 4 \<and> list_all (\<lambda>p. p \<noteq> [] \<and> length p \<le> 3 \<and> list_all is_digit p) parts)"

definition strip_comment :: "string \<Rightarrow> string" where
  "strip_comment line = (case IndexByte line CHR ''#'' of None \<Rightarrow> line | Some i \<Rightarrow> take i line)"

definition hosts_line :: "string \<Rightarrow> string list" where
  "hosts_line text =
     (let f = go_Fields (strip_comment text) in
      if length f < 2 \<or> \<not> isIP (f ! 0) then []
      else filter (\<lambda>d. d \<noteq> '''' \<and> d \<noteq> ''localhost'' \<and> \<not> HasPrefix d ''ip6-'') (drop 1 f))"

definition parseHosts :: "string \<Rightarrow> parse_result" where
  "parseHosts r =
     (let (ls, err) = scan_lines r
      in (Some \<lparr>Format = FormatHosts, Blocked = concat (map hosts_line ls), Allowed = []\<rparr>, err))"

definition domains_line :: "string \<Rightarrow> string list" where
  "domains_line text =
     (let line = TrimSpace (strip_comment text) in
      if line = '''' \<or> HasPrefix line ''!'' \<or> HasPrefix line ''['' then [] else [line])"

definition parseDomains :: "string \<Rightarrow> parse_result" where
  "parseDomains r =
     (let (ls, err) = scan_lines r
      in (Some \<lparr>Format = FormatDomains, Blocked = concat (map domains_line ls), Allowed = []\<rparr>, err))"

text \<open>
  \<^verbatim>\<open>reAdguard\<close>: two bars, a run of name bytes, a caret, then the end or a dollar sign and
  options without a comma. The result is the pair of the submatches 1 and 3.
\<close>

definition adguard_char :: "char \<Rightarrow> bool" where
  "adguard_char c =
     (let n = (of_char c :: int) in
      97 \<le> n \<and> n \<le> 122 \<or> 48 \<le> n \<and> n \<le> 57 \<or> c \<in> set ''*._-'')"

definition reAdguard :: "string \<Rightarrow> (string \<times> string) option" where
  "reAdguard line =
     (if \<not> prefix ''||'' line then None
      else
        let rest = drop 2 line; m1 = takeWhile adguard_char rest in
        if m1 = [] then None
        else (case dropWhile adguard_char rest of
            CHR ''^'' # t \<Rightarrow>
              (case t of
                 [] \<Rightarrow> Some (m1, [])
               | CHR ''$'' # m3 \<Rightarrow> if CHR '','' \<in> set m3 then None else Some (m1, m3)
               | _ \<Rightarrow> None)
          | _ \<Rightarrow> None))"

definition adguard_dom :: "string \<Rightarrow> string" where
  "adguard_dom m1 = go_Trim (TrimPrefix m1 ''*.'') ''*.''"

text \<open>
  One line of an AdGuard list: what it adds to the blocked and to the allowed names. The
  branch on \<^verbatim>\<open>$important\<close> and the one after it append the same name.
\<close>

definition adguard_line :: "string \<Rightarrow> string list \<times> string list" where
  "adguard_line text =
     (let line = TrimSpace text in
      if line = '''' \<or> HasPrefix line ''!'' \<or> HasPrefix line ''#'' \<or> HasPrefix line ''['' then ([], [])
      else (case reAdguard line of
          Some (m1, m3) \<Rightarrow>
            let dom = adguard_dom m1 in
            if dom = '''' then ([], [])
            else if go_Contains line ''$important'' \<or> go_Contains m3 ''important'' then ([dom], [])
            else ([dom], [])
        | None \<Rightarrow>
            if HasPrefix line ''@@||'' then
              (case reAdguard (TrimPrefix line ''@@'') of
                 Some (m1, m3) \<Rightarrow>
                   let dom = adguard_dom m1 in if dom \<noteq> '''' then ([], [dom]) else ([], [])
               | None \<Rightarrow> ([], []))
            else ([], [])))"

definition parseAdguard :: "string \<Rightarrow> parse_result" where
  "parseAdguard r =
     (let (ls, err) = scan_lines r
      in (Some \<lparr>Format = FormatAdguard, Blocked = concat (map (fst \<circ> adguard_line) ls),
               Allowed = concat (map (snd \<circ> adguard_line) ls)\<rparr>, err))"

section \<open>Sniffing the format\<close>

text \<open>
  The state of \<^verbatim>\<open>bufio.NewReader(io.LimitReader(r, 8<<10))\<close>: bytes buffered and not yet
  returned, bytes the limit still allows, whether the source reported its end, and the bytes
  that \<^verbatim>\<open>r\<close> itself still holds.
\<close>

record breader =
  br_buf :: string
  br_lim :: nat
  br_err :: bool
  br_src :: string

definition buf_size :: nat where
  "buf_size = 4096"

definition sniff_limit :: nat where
  "sniff_limit = 8192"

definition NewReader :: "string \<Rightarrow> breader" where
  "NewReader r = \<lparr>br_buf = [], br_lim = sniff_limit, br_err = False, br_src = r\<rparr>"

text \<open>\<^verbatim>\<open>fill\<close>: one read into the free part of the buffer.\<close>

definition br_fill :: "breader \<Rightarrow> breader" where
  "br_fill b =
     (if br_lim b = 0 \<or> br_src b = [] then b\<lparr>br_err := True\<rparr>
      else
        let k = min (min (buf_size - length (br_buf b)) (br_lim b)) (length (br_src b)) in
        b\<lparr>br_buf := br_buf b @ take k (br_src b), br_lim := br_lim b - k,
          br_src := drop k (br_src b)\<rparr>)"

text \<open>\<^verbatim>\<open>ReadString\<close>: the line with its end marker, whether an error came with it, the reader.\<close>

function read_string :: "string \<Rightarrow> breader \<Rightarrow> (string \<times> bool) \<times> breader" where
  "read_string acc b =
     (if nl \<in> set (br_buf b) then
        ((acc @ takeWhile (\<lambda>c. c \<noteq> nl) (br_buf b) @ [nl], False),
         b\<lparr>br_buf := drop 1 (dropWhile (\<lambda>c. c \<noteq> nl) (br_buf b))\<rparr>)
      else if br_err b then ((acc @ br_buf b, True), b\<lparr>br_buf := [], br_err := False\<rparr>)
      else if buf_size \<le> length (br_buf b) then read_string (acc @ br_buf b) (b\<lparr>br_buf := []\<rparr>)
      else read_string acc (br_fill b))"
  by pat_completeness auto
termination
  by (relation "measures [\<lambda>(acc, b). length (br_src b) + (if br_err b then 0 else 1),
        \<lambda>(acc, b). length (br_buf b)]")
    (auto simp: br_fill_def Let_def buf_size_def min_def)

declare read_string.simps [simp del]

text \<open>Bytes the reader has not returned yet; every line read without an error shortens it.\<close>

definition br_size :: "breader \<Rightarrow> nat" where
  "br_size b = length (br_buf b) + length (br_src b)"

lemma br_size_fill: "br_size (br_fill b) = br_size b"
  by (auto simp: br_fill_def br_size_def Let_def)

lemma read_string_shrinks:
  "\<not> snd (fst (read_string acc b)) \<Longrightarrow> br_size (snd (read_string acc b)) < br_size b"
proof (induction acc b rule: read_string.induct)
  case (1 acc b)
  have drop: "length (drop 1 (dropWhile (\<lambda>c. c \<noteq> nl) (br_buf b))) < length (br_buf b)"
    if "nl \<in> set (br_buf b)"
    using that length_dropWhile_le [of "\<lambda>c. c \<noteq> nl" "br_buf b"]
    by (cases "br_buf b") auto
  show ?case
    using 1 drop by (auto simp: read_string.simps [of acc b] br_size_fill split: if_splits)
      (auto simp: br_size_def)
qed

lemma read_string_line:
  "read_string acc b = ((line, False), b') \<Longrightarrow> br_size b' < br_size b"
  using read_string_shrinks [of acc b] by simp

definition meaningful :: "string \<Rightarrow> bool" where
  "meaningful t = (t \<noteq> '''' \<and> \<not> HasPrefix t ''#'' \<and> \<not> HasPrefix t ''!'' \<and> \<not> HasPrefix t ''['')"

text \<open>The loop that collects up to eight meaningful lines.\<close>

function sniff :: "string list \<Rightarrow> breader \<Rightarrow> string list \<times> breader" where
  "sniff first b =
     (case read_string [] b of ((line, err), b') \<Rightarrow>
        let t = TrimSpace line;
            first' = (if line \<noteq> '''' \<and> meaningful t then first @ [t] else first)
        in if line \<noteq> '''' \<and> meaningful t \<and> 8 \<le> length first' then (first', b')
           else if err then (first', b')
           else sniff first' b')"
  by pat_completeness auto
termination
  by (relation "measure (\<lambda>(first, b). br_size b)") (auto dest: sym [THEN read_string_line])

declare sniff.simps [simp del]

definition ParseAuto :: "string \<Rightarrow> parse_result" where
  "ParseAuto r =
     (let (first, b) = sniff [] (NewReader r); rest = br_src b in
      if length first = 0 then parseDomains rest
      else if list_ex (\<lambda>t. let f = go_Fields t in 2 \<le> length f \<and> isIP (f ! 0)) first
        then parseHosts rest
      else if list_ex (\<lambda>t. HasPrefix t ''||'') first then parseAdguard rest
      else parseDomains rest)"

definition Parse :: "string \<Rightarrow> string \<Rightarrow> parse_result" where
  "Parse r format =
     (if format = FormatHosts then parseHosts r
      else if format = FormatDomains then parseDomains r
      else if format = FormatAdguard then parseAdguard r
      else if format = FormatAuto \<or> format = '''' then ParseAuto r
      else (None, Some (UnknownFormat format)))"

text \<open>\<^verbatim>\<open>LoadList\<close>: \<open>open_file\<close> is the content \<^verbatim>\<open>os.Open\<close> gives access to, if it succeeds.\<close>

definition LoadList :: "(string \<Rightarrow> bytes option) \<Rightarrow> string \<Rightarrow> parse_result option" where
  "LoadList open_file path = map_option ParseAuto (open_file path)"

text \<open>\<^verbatim>\<open>ValidURL\<close>: \<open>url_scheme\<close> is the scheme \<^verbatim>\<open>net/url.Parse\<close> finds, \<open>None\<close> on its error.\<close>

definition ValidURL :: "(string \<Rightarrow> string option) \<Rightarrow> string \<Rightarrow> bool" where
  "ValidURL url_scheme s =
     (case url_scheme s of None \<Rightarrow> False | Some sch \<Rightarrow> sch = ''http'' \<or> sch = ''https'')"

section \<open>What sniffing consumes\<close>

lemma suffix_fill: "suffix (br_src (br_fill b)) (br_src b)"
  by (simp add: br_fill_def Let_def suffix_drop)

lemma suffix_read_string: "suffix (br_src (snd (read_string acc b))) (br_src b)"
proof (induction acc b rule: read_string.induct)
  case (1 acc b)
  show ?case
    using 1 suffix_fill [of b] suffix_order.trans
    by (simp add: read_string.simps [of acc b]) blast
qed

lemma suffix_sniff: "suffix (br_src (snd (sniff first b))) (br_src (snd (read_string [] b)))"
proof (induction "br_size b" arbitrary: first b rule: less_induct)
  case less
  obtain line err b' where r: "read_string [] b = ((line, err), b')" by (metis prod.exhaust)
  have "suffix (br_src (snd (sniff f b'))) (br_src b')" if "\<not> err" for f
    using less read_string_line [of "[]" b line b'] r that suffix_read_string [of "[]" b']
    by (metis (full_types) suffix_order.trans)
  with r show ?case by (subst sniff.simps) (simp add: Let_def)
qed

text \<open>The first read fills the whole buffer, so at least its size is gone from the source.\<close>

lemma sniff_drops_buffer: "suffix (br_src (snd (sniff [] (NewReader r)))) (drop buf_size r)"
proof -
  have "br_src (br_fill (NewReader r)) = drop buf_size r"
    by (auto simp: br_fill_def NewReader_def Let_def buf_size_def sniff_limit_def min_def)
  moreover have "read_string [] (NewReader r) = read_string [] (br_fill (NewReader r))"
    by (subst read_string.simps) (simp add: NewReader_def buf_size_def)
  ultimately show ?thesis
    using suffix_sniff [of "[]" "NewReader r"] suffix_read_string [of "[]" "br_fill (NewReader r)"]
    by (metis suffix_order.trans)
qed

lemma scan_lines_Nil [simp]: "scan_lines [] = ([], None)"
  by (simp add: scan_lines_def raw_lines.simps)

lemma ParseAuto_cases:
  assumes "\<And>s. suffix s (drop buf_size r) \<Longrightarrow> P (parseHosts s)"
    and "\<And>s. suffix s (drop buf_size r) \<Longrightarrow> P (parseDomains s)"
    and "\<And>s. suffix s (drop buf_size r) \<Longrightarrow> P (parseAdguard s)"
  shows "P (ParseAuto r)"
  using assms sniff_drops_buffer [of r]
  by (auto simp: ParseAuto_def Let_def split: prod.split)

section \<open>Lines of printed lists\<close>

lemma raw_lines_Nil [simp]: "raw_lines [] = []"
  by (simp add: raw_lines.simps)

lemma raw_lines_line: "nl \<notin> set l \<Longrightarrow> raw_lines (l @ nl # s) = l # raw_lines s"
  by (subst raw_lines.simps) (auto simp: takeWhile_append dropWhile_append)

lemma raw_lines_unlines:
  "\<forall>l \<in> set ls. nl \<notin> set l \<Longrightarrow> raw_lines (concat (map (\<lambda>l. l @ [nl]) ls)) = ls"
  by (induction ls) (auto simp: raw_lines_line)

lemma scan_unlines:
  assumes "\<forall>l \<in> set ls. nl \<notin> set l \<and> CHR 0x0D \<notin> set l \<and> length l < max_line"
  shows "scan_lines (concat (map (\<lambda>l. l @ [nl]) ls)) = (ls, None)"
proof -
  have t: "takeWhile (\<lambda>l. length l < max_line) ls = ls" using assms by (simp add: takeWhile_eq_all_conv)
  have "map dropCR ls = ls"
    by (rule map_idI) (use assms last_in_set in \<open>fastforce simp: dropCR_def\<close>)
  then show ?thesis
    using assms by (simp add: scan_lines_def raw_lines_unlines Let_def t)
qed

section \<open>Properties\<close>

text \<open>Host names as lists print them, and the three ways to print a list of them.\<close>

definition host_char :: "char \<Rightarrow> bool" where
  "host_char c = (adguard_char c \<and> c \<noteq> CHR ''*'')"

definition host_name :: "string \<Rightarrow> bool" where
  "host_name d \<longleftrightarrow> d \<noteq> [] \<and> list_all host_char d \<and> hd d \<noteq> CHR ''.'' \<and> last d \<noteq> CHR ''.'' \<and>
     d \<noteq> ''localhost'' \<and> \<not> prefix ''ip6-'' d \<and> length d < 1000000"

definition print_domains :: "string list \<Rightarrow> string" where
  "print_domains ds = concat (map (\<lambda>l. l @ [nl]) ds)"

definition print_hosts :: "string list \<Rightarrow> string" where
  "print_hosts ds = concat (map (\<lambda>l. l @ [nl]) (map (\<lambda>d. ''0.0.0.0 '' @ d) ds))"

definition print_adguard :: "string list \<Rightarrow> string list \<Rightarrow> string" where
  "print_adguard ds as =
     concat (map (\<lambda>l. l @ [nl])
       (map (\<lambda>d. ''||'' @ d @ ''^'') ds @ map (\<lambda>d. ''@@||'' @ d @ ''^'') as))"

lemma host_char_facts:
  assumes "host_char c"
  shows "c \<noteq> nl" "c \<noteq> CHR 0x0D" "c \<noteq> CHR ''#'' \<and> c \<noteq> CHR ''!'' \<and> c \<noteq> CHR ''['' \<and> c \<noteq> CHR ''^''"
    and "\<not> may_space c" "adguard_char c" "c \<noteq> CHR ''*''"
proof -
  show "c \<noteq> nl" "c \<noteq> CHR 0x0D" "c \<noteq> CHR ''#'' \<and> c \<noteq> CHR ''!'' \<and> c \<noteq> CHR ''['' \<and> c \<noteq> CHR ''^''"
    and "adguard_char c" "c \<noteq> CHR ''*''"
    using assms by (auto simp: host_char_def adguard_char_def Let_def)
  have "(of_char c :: int) < 128"
    using assms by (auto simp: host_char_def adguard_char_def Let_def)
  then show "\<not> may_space c"
    using assms digit7_ascii [of c] by (auto simp: may_space_def host_char_def adguard_char_def)
qed

lemma host_name_ends:
  assumes "host_name d"
  shows "d \<noteq> []" "host_char (hd d)" "host_char (last d)"
  using assms by (auto simp: host_name_def list_all_iff)

lemma IndexByte_None: "IndexByte s c = None \<longleftrightarrow> c \<notin> set s"
  by (induction s) auto

lemma strip_comment_id: "CHR ''#'' \<notin> set s \<Longrightarrow> strip_comment s = s"
  by (simp add: strip_comment_def IndexByte_None [symmetric])

lemma host_no_hash: "host_name d \<Longrightarrow> CHR ''#'' \<notin> set d"
  by (auto simp: host_name_def list_all_iff dest: host_char_facts)

lemma domains_line_host:
  assumes "host_name d"
  shows "domains_line d = [d]"
proof -
  note e = host_name_ends [OF assms]
  have "TrimSpace d = d" using e by (intro TrimSpace_ends) (auto dest: host_char_facts)
  moreover have "\<not> prefix ''!'' d" "\<not> prefix ''['' d"
    using e by (cases d; auto dest: host_char_facts(3))+
  ultimately show ?thesis
    using e by (simp add: domains_line_def strip_comment_id [OF host_no_hash [OF assms]] HasPrefix_def)
qed

lemma hosts_line_host:
  assumes "host_name d"
  shows "hosts_line (''0.0.0.0 '' @ d) = [d]"
proof -
  have "go_Fields (''0.0.0.0'' @ CHR '' '' # d) = [''0.0.0.0'', d]"
  proof (rule go_Fields_two)
    have "\<forall>c \<in> set ''0.0.0.0''. \<not> may_space c" by (simp add: may_space_def)
    moreover have "\<forall>c \<in> set d. \<not> may_space c"
      using assms by (auto simp: host_name_def list_all_iff dest: host_char_facts(4))
    ultimately show "\<forall>c \<in> set ''0.0.0.0'' \<union> set d. \<not> may_space c" by blast
  qed (use assms in \<open>simp_all add: host_name_def\<close>)
  moreover have "strip_comment (''0.0.0.0 '' @ d) = ''0.0.0.0 '' @ d"
    using host_no_hash [OF assms] by (intro strip_comment_id) simp
  moreover have "isIP ''0.0.0.0''" by code_simp
  ultimately show ?thesis
    using assms by (simp add: hosts_line_def HasPrefix_def host_name_def)
qed

lemma reAdguard_host:
  assumes "host_name d"
  shows "reAdguard (''||'' @ d @ ''^'') = Some (d, [])" and "adguard_dom d = d"
proof -
  have all: "\<forall>c \<in> set d. adguard_char c" and ne: "d \<noteq> []"
    using assms by (auto simp: host_name_def list_all_iff dest: host_char_facts)
  have c: "\<not> adguard_char CHR ''^''" by (simp add: adguard_char_def)
  have "takeWhile adguard_char (d @ ''^'') = d" "dropWhile adguard_char (d @ ''^'') = ''^''"
    using all c by (auto simp: takeWhile_append dropWhile_append)
  then show "reAdguard (''||'' @ d @ ''^'') = Some (d, [])"
    using ne by (simp add: reAdguard_def Let_def)
  have "hd d \<notin> set ''*.''" "last d \<notin> set ''*.''"
    using assms host_name_ends [OF assms] by (auto simp: host_name_def dest: host_char_facts)
  moreover from this have "\<not> prefix ''*.'' d" by (cases d) auto
  ultimately show "adguard_dom d = d"
    using ne by (simp add: adguard_dom_def TrimPrefix_def go_Trim_ends)
qed

lemma adguard_line_host:
  assumes "host_name d"
  shows "adguard_line (''||'' @ d @ ''^'') = ([d], [])"
    and "adguard_line (''@@||'' @ d @ ''^'') = ([], [d])"
proof -
  have ne: "d \<noteq> []" using assms by (simp add: host_name_def)
  have t: "TrimSpace (''||'' @ d @ ''^'') = ''||'' @ d @ ''^''"
    "TrimSpace (''@@||'' @ d @ ''^'') = ''@@||'' @ d @ ''^''"
    by (intro TrimSpace_ends; simp add: may_space_def)+
  show "adguard_line (''||'' @ d @ ''^'') = ([d], [])"
    unfolding adguard_line_def t
    using ne reAdguard_host [OF assms] by (simp add: HasPrefix_def Let_def)
  have "reAdguard (''@@||'' @ d @ ''^'') = None" by (simp add: reAdguard_def)
  moreover have "TrimPrefix (''@@||'' @ d @ ''^'') ''@@'' = ''||'' @ d @ ''^''"
    by (simp add: TrimPrefix_def)
  ultimately show "adguard_line (''@@||'' @ d @ ''^'') = ([], [d])"
    unfolding adguard_line_def t
    using ne reAdguard_host [OF assms] by (simp add: HasPrefix_def Let_def)
qed

lemma host_print_line:
  assumes "host_name d"
  shows "nl \<notin> set d" "CHR 0x0D \<notin> set d" "length d + 8 < max_line"
proof -
  show "nl \<notin> set d" using assms by (auto simp: host_name_def list_all_iff dest: host_char_facts(1))
  show "CHR 0x0D \<notin> set d"
    using assms by (auto simp: host_name_def list_all_iff dest: host_char_facts(2))
  show "length d + 8 < max_line" using assms by (simp add: host_name_def max_line_def)
qed

lemma concat_map_singleton: "\<forall>x \<in> set xs. f x = [x] \<Longrightarrow> concat (map f xs) = xs"
  by (induction xs) auto

lemma concat_map_Nil: "\<forall>x \<in> set xs. f x = [] \<Longrightarrow> concat (map f xs) = []"
  by (induction xs) auto

lemma host_lines_ok:
  "list_all host_name ds \<Longrightarrow> d \<in> set ds \<Longrightarrow>
     nl \<notin> set d \<and> CHR 0x0D \<notin> set d \<and> length d + 8 < max_line"
  using host_print_line [of d] by (auto simp: list_all_iff)

lemma parse_print_domains:
  assumes "list_all host_name ds"
  shows "parseDomains (print_domains ds) =
    (Some \<lparr>Format = FormatDomains, Blocked = ds, Allowed = []\<rparr>, None)"
proof -
  have "scan_lines (print_domains ds) = (ds, None)"
    unfolding print_domains_def using host_lines_ok [OF assms] by (intro scan_unlines) fastforce
  then show ?thesis
    using assms concat_map_singleton [of ds domains_line]
    by (simp add: parseDomains_def domains_line_host list_all_iff)
qed

lemma parse_print_hosts:
  assumes "list_all host_name ds"
  shows "parseHosts (print_hosts ds) = (Some \<lparr>Format = FormatHosts, Blocked = ds, Allowed = []\<rparr>, None)"
proof -
  have "scan_lines (print_hosts ds) = (map (\<lambda>d. ''0.0.0.0 '' @ d) ds, None)"
    unfolding print_hosts_def using host_lines_ok [OF assms] by (intro scan_unlines) fastforce
  then show ?thesis
    using assms concat_map_singleton [of ds "\<lambda>d. hosts_line (''0.0.0.0 '' @ d)"] hosts_line_host
    by (simp add: parseHosts_def list_all_iff comp_def)
qed

lemma parse_print_adguard:
  assumes "list_all host_name ds" and "list_all host_name as"
  shows "parseAdguard (print_adguard ds as) =
    (Some \<lparr>Format = FormatAdguard, Blocked = ds, Allowed = as\<rparr>, None)"
proof -
  have "scan_lines (print_adguard ds as) =
      (map (\<lambda>d. ''||'' @ d @ ''^'') ds @ map (\<lambda>d. ''@@||'' @ d @ ''^'') as, None)"
    unfolding print_adguard_def using host_lines_ok [OF assms(1)] host_lines_ok [OF assms(2)]
    by (intro scan_unlines) fastforce
  moreover have "concat (map (\<lambda>d. fst (adguard_line (''||'' @ d @ ''^''))) ds) = ds"
    "concat (map (\<lambda>d. snd (adguard_line (''@@||'' @ d @ ''^''))) as) = as"
    "concat (map (\<lambda>d. snd (adguard_line (''||'' @ d @ ''^''))) ds) = []"
    "concat (map (\<lambda>d. fst (adguard_line (''@@||'' @ d @ ''^''))) as) = []"
    using assms adguard_line_host unfolding list_all_iff
    by (auto intro!: concat_map_singleton concat_map_Nil)
  ultimately show ?thesis by (simp add: parseAdguard_def comp_def)
qed

text \<open>
  C23: Parsing is the inverse of printing. A list of host names printed one per line, as
  \<^verbatim>\<open>0.0.0.0 name\<close> lines, or as AdGuard rules (blocked names, then exceptions) is read back
  by the parser of that format as exactly those names in that order, without an error.
\<close>

theorem parse_print_roundtrip:
  assumes "list_all host_name ds" and "list_all host_name as"
  shows "Parse (print_domains ds) FormatDomains =
      (Some \<lparr>Format = FormatDomains, Blocked = ds, Allowed = []\<rparr>, None)
    \<and> Parse (print_hosts ds) FormatHosts =
      (Some \<lparr>Format = FormatHosts, Blocked = ds, Allowed = []\<rparr>, None)
    \<and> Parse (print_adguard ds as) FormatAdguard =
      (Some \<lparr>Format = FormatAdguard, Blocked = ds, Allowed = as\<rparr>, None)"
  using parse_print_domains [OF assms(1)] parse_print_hosts [OF assms(1)] parse_print_adguard [OF assms]
  by (simp add: Parse_def format_defs)

theorem parse_print_roundtrip_witness:
  "Parse (print_hosts [''ads.example.com'', ''t.net'']) FormatHosts =
     (Some \<lparr>Format = FormatHosts, Blocked = [''ads.example.com'', ''t.net''], Allowed = []\<rparr>, None)
   \<and> Parse (print_adguard [''ads.example.com'', ''t.net''] [''ok.org'']) FormatAdguard =
     (Some \<lparr>Format = FormatAdguard, Blocked = [''ads.example.com'', ''t.net''], Allowed = [''ok.org'']\<rparr>, None)"
proof -
  have "list_all host_name [''ads.example.com'', ''t.net'']" "list_all host_name [''ok.org'']"
    by (simp_all add: host_name_def host_char_def adguard_char_def)
  then show ?thesis using parse_print_roundtrip by blast
qed

text \<open>
  Sniffing eats the list. \<^verbatim>\<open>ParseAuto\<close> reads ahead through a buffered reader and then
  parses what is left in the source, so a list of at most 4096 bytes given with format
  \<^verbatim>\<open>auto\<close> (or none) yields no entry at all, whatever it contains.
\<close>

theorem auto_format_loses_small_lists:
  assumes "length data \<le> 4096" and "fmt = FormatAuto \<or> fmt = ''''"
  shows "\<exists>f. Parse data fmt = (Some \<lparr>Format = f, Blocked = [], Allowed = []\<rparr>, None)"
proof -
  have d: "drop buf_size data = []" using assms(1) by (simp add: buf_size_def)
  have "\<exists>f. ParseAuto data = (Some \<lparr>Format = f, Blocked = [], Allowed = []\<rparr>, None)"
    by (rule ParseAuto_cases [of data]; simp add: d parseHosts_def parseDomains_def parseAdguard_def)
  then show ?thesis using assms(2) by (auto simp: Parse_def format_defs)
qed

theorem auto_format_loses_small_lists_witness:
  "(\<exists>f. Parse ''0.0.0.0 ads.example.com'' FormatAuto = (Some \<lparr>Format = f, Blocked = [], Allowed = []\<rparr>, None))
   \<and> Parse ''0.0.0.0 ads.example.com'' FormatHosts =
       (Some \<lparr>Format = FormatHosts, Blocked = [''ads.example.com''], Allowed = []\<rparr>, None)"
proof
  show "\<exists>f. Parse ''0.0.0.0 ads.example.com'' FormatAuto = (Some \<lparr>Format = f, Blocked = [], Allowed = []\<rparr>, None)"
    by (rule auto_format_loses_small_lists) simp_all
  show "Parse ''0.0.0.0 ads.example.com'' FormatHosts =
       (Some \<lparr>Format = FormatHosts, Blocked = [''ads.example.com''], Allowed = []\<rparr>, None)"
    by code_simp
qed

end
