(* ===== verification/Filter_Engine.thy ===== *)
theory Filter_Engine
  imports Matcher List_Parse Netip
begin

text \<open>
  The filter engine, \<^verbatim>\<open>src/internal/filter/engine.go\<close>: the block and allow sets, the verdict
  \<^verbatim>\<open>Check\<close>, and \<^verbatim>\<open>Refresh\<close>, which downloads the lists (falling back to cached copies)
  and swaps in new sets. The file system is a map from paths to contents; the HTTP server, the
  effect of \<^verbatim>\<open>os.WriteFile\<close> and \<^verbatim>\<open>net/url.Parse\<close> are the fields of \<open>list_env\<close>.
  Operations that hold the engine's lock are atomic steps of the model.
\<close>

section \<open>State and environment\<close>

record listMeta =
  etag :: string
  lastMod :: time

record ListSpec =
  spec_Name :: string
  spec_URL :: string
  spec_Format :: string

record Engine =
  eng_blocked :: DomainSet
  eng_allowed :: DomainSet
  eng_metas :: "(string, listMeta) gomap"
  eng_counts :: "(string, int) gomap"
  lastErr :: string
  lastTry :: time
  eng_lists :: "ListSpec list"
  eng_allow :: "string list"
  eng_deny :: "string list"
  respA4 :: "Addr option"
  respA6 :: "Addr option"
  dataDir :: string
  refreshEvery :: duration
  hitsBlock :: u64
  hitsAllow :: u64
  hitsPass :: u64

text \<open>
  A request carries the conditional headers that are set; a response its status, the body
  (\<open>None\<close> when reading it fails), the \<^verbatim>\<open>ETag\<close> header and the parsed \<^verbatim>\<open>Last-Modified\<close>.
\<close>

record http_req =
  rq_url :: string
  rq_none_match :: "string option"
  rq_since :: "time option"

record http_resp =
  rs_status :: int
  rs_body :: "bytes option"
  rs_etag :: string
  rs_lastMod :: "time option"

record list_env =
  urlScheme :: "string \<Rightarrow> string option"
  httpDo :: "http_req \<Rightarrow> http_resp option"
  writeFile :: "string \<Rightarrow> bytes \<Rightarrow> fs \<Rightarrow> fs"

definition defaultBlockA4 :: Addr where "defaultBlockA4 = Addr4 0"
definition defaultBlockAAAA6 :: Addr where "defaultBlockAAAA6 = Addr6 0 []"

definition NewEngine ::
  "name_lib \<Rightarrow> string \<Rightarrow> ListSpec list \<Rightarrow> string list \<Rightarrow> string list \<Rightarrow> duration \<Rightarrow> Engine" where
  "NewEngine L dir specs al dn every =
     \<lparr>eng_blocked = add_all L NewDomainSet dn, eng_allowed = add_all L NewDomainSet al,
      eng_metas = [], eng_counts = [], lastErr = '''', lastTry = zero_time,
      eng_lists = specs, eng_allow = al, eng_deny = dn,
      respA4 = Some defaultBlockA4, respA6 = Some defaultBlockAAAA6,
      dataDir = dir, refreshEvery = every, hitsBlock = 0, hitsAllow = 0, hitsPass = 0\<rparr>"

section \<open>Verdicts\<close>

definition blockIPs :: "Engine \<Rightarrow> Addr \<times> Addr" where
  "blockIPs e =
     (case respA4 e of None \<Rightarrow> defaultBlockA4 | Some a \<Rightarrow> a,
      case respA6 e of None \<Rightarrow> defaultBlockAAAA6 | Some a \<Rightarrow> a)"

definition Check :: "name_lib \<Rightarrow> Engine \<Rightarrow> string \<Rightarrow> bool \<times> Engine" where
  "Check L e domain =
     (if Has L (eng_allowed e) domain then (False, e\<lparr>hitsAllow := hitsAllow e + 1\<rparr>)
      else if Has L (eng_blocked e) domain then (True, e\<lparr>hitsBlock := hitsBlock e + 1\<rparr>)
      else (False, e\<lparr>hitsPass := hitsPass e + 1\<rparr>))"

definition SetResponseIP :: "Engine \<Rightarrow> string \<Rightarrow> string \<Rightarrow> Engine" where
  "SetResponseIP e a4 a6 =
     (let e = (if a4 \<noteq> '''' then
                 (case ParseAddr a4 of
                    Some a \<Rightarrow> if addr_IsValid a then e\<lparr>respA4 := Some a\<rparr> else e
                  | None \<Rightarrow> e)
               else e)
      in if a6 \<noteq> '''' then
           (case ParseAddr a6 of
              Some a \<Rightarrow> if addr_IsValid a then e\<lparr>respA6 := Some a\<rparr> else e
            | None \<Rightarrow> e)
         else e)"

definition BlockIPv4 :: "Engine \<Rightarrow> Addr" where
  "BlockIPv4 e = fst (blockIPs e)"

definition BlockIPv6 :: "Engine \<Rightarrow> Addr" where
  "BlockIPv6 e = snd (blockIPs e)"

section \<open>The dashboard snapshot\<close>

record SourceStatus =
  ss_Name :: string
  ss_URL :: string
  ss_Entries :: int
  ss_Fetched :: time
  ss_ETag :: string
  ss_Error :: string

record EngineStats =
  st_BlockedDomains :: int
  st_AllowedDomains :: int
  st_HitsBlock :: u64
  st_HitsAllow :: u64
  st_LastRefresh :: time
  st_LastError :: string
  st_Sources :: "SourceStatus list"

definition source_status :: "Engine \<Rightarrow> ListSpec \<Rightarrow> SourceStatus" where
  "source_status e spec =
     \<lparr>ss_Name = spec_Name spec, ss_URL = spec_URL spec,
      ss_Entries = (case map_of (eng_counts e) (spec_Name spec) of None \<Rightarrow> 0 | Some c \<Rightarrow> c),
      ss_Fetched = lastTry e,
      ss_ETag = (case map_of (eng_metas e) (spec_Name spec) of None \<Rightarrow> '''' | Some m \<Rightarrow> etag m),
      ss_Error = (case map_of (eng_counts e) (spec_Name spec) of
                    None \<Rightarrow> '''' | Some c \<Rightarrow> if c < 0 then ''last fetch failed'' else '''')\<rparr>"

definition Stats :: "Engine \<Rightarrow> EngineStats" where
  "Stats e =
     \<lparr>st_BlockedDomains = Len (eng_blocked e), st_AllowedDomains = Len (eng_allowed e),
      st_HitsBlock = hitsBlock e, st_HitsAllow = hitsAllow e, st_LastRefresh = lastTry e,
      st_LastError = lastErr e, st_Sources = map (source_status e) (eng_lists e)\<rparr>"

section \<open>Downloading one list\<close>

definition cachePath :: "Engine \<Rightarrow> ListSpec \<Rightarrow> string" where
  "cachePath e spec =
     (let safe = map (\<lambda>c. if c \<in> set ''/:?&'' then CHR ''_'' else c) (spec_URL spec)
      in filepath_Join [dataDir e, ''lists'', safe @ ''.cache''])"

definition list_request :: "Engine \<Rightarrow> ListSpec \<Rightarrow> http_req" where
  "list_request e spec =
     (let (et, lm) = (case map_of (eng_metas e) (spec_Name spec) of
                        None \<Rightarrow> ('''', zero_time) | Some m \<Rightarrow> (etag m, lastMod m))
      in \<lparr>rq_url = spec_URL spec,
          rq_none_match = (if et \<noteq> '''' then Some et else None),
          rq_since = (if lm \<noteq> zero_time then Some lm else None)\<rparr>)"

text \<open>
  \<^verbatim>\<open>fetch\<close>: the bytes if it reports success, the engine (its conditional-request metadata
  may change) and the file system. A request that cannot be built or sent is \<open>httpDo = None\<close>.
\<close>

definition fetch :: "list_env \<Rightarrow> Engine \<Rightarrow> fs \<Rightarrow> ListSpec \<Rightarrow> bytes option \<times> Engine \<times> fs" where
  "fetch env e f spec =
     (if \<not> ValidURL (urlScheme env) (spec_URL spec) then (f (spec_URL spec), e, f)
      else
        (case httpDo env (list_request e spec) of
           None \<Rightarrow> (None, e, f)
         | Some resp \<Rightarrow>
             if rs_status resp = 304 then (f (cachePath e spec), e, f)
             else if rs_status resp \<noteq> 200 then (None, e, f)
             else
               (case rs_body resp of
                  None \<Rightarrow> (None, e, f)
                | Some body \<Rightarrow>
                    let b = limit_read 268435456 body;
                        nm = \<lparr>etag = rs_etag resp,
                              lastMod = (case rs_lastMod resp of None \<Rightarrow> zero_time | Some t \<Rightarrow> t)\<rparr>
                    in (Some b, e\<lparr>eng_metas := AList.update (spec_Name spec) nm (eng_metas e)\<rparr>,
                        writeFile env (cachePath e spec) b f))))"

definition add_count :: "name_lib \<Rightarrow> string \<Rightarrow> int \<times> DomainSet \<Rightarrow> int \<times> DomainSet" where
  "add_count L d ns = (let (new, s) = Add L (snd ns) d in (if new then fst ns + 1 else fst ns, s))"

definition parseInto ::
  "name_lib \<Rightarrow> ListSpec \<Rightarrow> bytes \<Rightarrow> DomainSet \<Rightarrow> DomainSet \<Rightarrow> int \<times> DomainSet \<times> DomainSet" where
  "parseInto L spec data blocked allowed =
     (case Parse data (spec_Format spec) of
        (Some pl, None) \<Rightarrow>
          let (n, blocked') = fold (add_count L) (Blocked pl) (0, blocked)
          in (n, blocked', add_all L allowed (Allowed pl))
      | _ \<Rightarrow> (0, blocked, allowed))"

section \<open>Refresh\<close>

record refresh_state =
  rf_eng :: Engine
  rf_fs :: fs
  rf_blocked :: DomainSet
  rf_allowed :: DomainSet
  rf_counts :: "(string, int) gomap"
  rf_err :: "string option"

text \<open>The body of the loop over the lists.\<close>

definition refresh_spec :: "name_lib \<Rightarrow> list_env \<Rightarrow> ListSpec \<Rightarrow> refresh_state \<Rightarrow> refresh_state" where
  "refresh_spec L env spec r =
     (let (got, e, f) = fetch env (rf_eng r) (rf_fs r) spec;
          r = r\<lparr>rf_eng := e, rf_fs := f\<rparr>;
          (data, r) =
            (case got of
               Some b \<Rightarrow> (Some b, r)
             | None \<Rightarrow>
                 (f (cachePath e spec),
                  r\<lparr>rf_counts := AList.update (spec_Name spec) (- 1) (rf_counts r),
                    rf_err := (case rf_err r of
                                 None \<Rightarrow> Some (''fetch '' @ spec_Name spec @ '' failed'')
                               | Some err \<Rightarrow> Some err)\<rparr>))
      in (case data of
            None \<Rightarrow> r
          | Some b \<Rightarrow>
              let (n, bl, al) = parseInto L spec b (rf_blocked r) (rf_allowed r)
              in r\<lparr>rf_counts := AList.update (spec_Name spec) n (rf_counts r),
                   rf_blocked := bl, rf_allowed := al\<rparr>))"

definition failed_without_cache :: "(string, int) gomap \<Rightarrow> ListSpec list \<Rightarrow> bool" where
  "failed_without_cache counts specs = list_ex (\<lambda>spec. map_of counts (spec_Name spec) = Some (- 1)) specs"

definition carry_metas :: "(string, listMeta) gomap \<Rightarrow> ListSpec list \<Rightarrow> (string, listMeta) gomap" where
  "carry_metas old specs =
     fold (\<lambda>spec new.
       if map_of new (spec_Name spec) = None then
         (case map_of old (spec_Name spec) of
            Some m \<Rightarrow> AList.update (spec_Name spec) m new
          | None \<Rightarrow> new)
       else new) specs []"

definition Refresh ::
  "name_lib \<Rightarrow> list_env \<Rightarrow> time \<Rightarrow> Engine \<Rightarrow> fs \<Rightarrow> string option \<times> Engine \<times> fs" where
  "Refresh L env now e f =
     (if time_Sub now (lastTry e) < 5 * Second then (None, e, f)
      else
        let e = e\<lparr>lastTry := now\<rparr>;
            specs = eng_lists e;
            r = fold (refresh_spec L env) specs
                  \<lparr>rf_eng = e, rf_fs = f, rf_blocked = NewDomainSet, rf_allowed = NewDomainSet,
                   rf_counts = [], rf_err = None\<rparr>;
            e = rf_eng r;
            newBlocked = add_all L (rf_blocked r) (eng_deny e);
            newAllowed = add_all L (rf_allowed r) (eng_allow e);
            (newBlocked, newAllowed) =
              (if failed_without_cache (rf_counts r) specs
               then (add_all L newBlocked (Each (eng_blocked e)), add_all L newAllowed (Each (eng_allowed e)))
               else (newBlocked, newAllowed))
        in (rf_err r,
            e\<lparr>eng_metas := carry_metas (eng_metas e) specs, eng_blocked := newBlocked,
              eng_allowed := newAllowed, eng_counts := rf_counts r,
              lastErr := (case rf_err r of None \<Rightarrow> '''' | Some err \<Rightarrow> err)\<rparr>,
            rf_fs r))"

text \<open>
  \<^verbatim>\<open>Loop\<close>: a refresh on every tick, at a time and in an environment; without a positive
  period it returns at once.
\<close>

definition engine_tick :: "name_lib \<Rightarrow> time \<times> list_env \<Rightarrow> Engine \<times> fs \<Rightarrow> Engine \<times> fs" where
  "engine_tick L te ef = (case te of (now, env) \<Rightarrow> case ef of (e, f) \<Rightarrow> snd (Refresh L env now e f))"

definition engine_Loop :: "name_lib \<Rightarrow> Engine \<times> fs \<Rightarrow> (time \<times> list_env) loop_event list \<Rightarrow> (Engine \<times> fs) \<times> bool" where
  "engine_Loop L ef evs =
     (if refreshEvery (fst ef) \<le> 0 then (ef, True) else select_loop (engine_tick L) ef evs)"

section \<open>What a refresh loads\<close>

text \<open>
  The specification of the loop: for each list the bytes it contributes (a download, or else the
  cached copy), and the names these bytes add to either set.
\<close>

fun load_all :: "list_env \<Rightarrow> ListSpec list \<Rightarrow> Engine \<Rightarrow> fs \<Rightarrow> (ListSpec \<times> bytes option) list" where
  "load_all env [] e f = []"
| "load_all env (spec # specs) e f =
     (case fetch env e f spec of (got, e', f') \<Rightarrow>
        (spec, case got of Some b \<Rightarrow> Some b | None \<Rightarrow> f' (cachePath e' spec)) # load_all env specs e' f')"

definition list_names :: "(ParsedList \<Rightarrow> string list) \<Rightarrow> ListSpec \<times> bytes option \<Rightarrow> string list" where
  "list_names sel sd =
     (case snd sd of
        None \<Rightarrow> []
      | Some b \<Rightarrow> (case Parse b (spec_Format (fst sd)) of (Some pl, None) \<Rightarrow> sel pl | _ \<Rightarrow> []))"

definition loaded_names :: "(ParsedList \<Rightarrow> string list) \<Rightarrow> (ListSpec \<times> bytes option) list \<Rightarrow> string list" where
  "loaded_names sel lds = concat (map (list_names sel) lds)"

lemma fetch_frame: "fetch env e f spec = (got, e', f') \<Longrightarrow> \<exists>m. e' = e\<lparr>eng_metas := m\<rparr>"
  by (auto simp: fetch_def Let_def split: if_splits option.splits intro: exI [of _ "eng_metas e"])

lemma snd_fold_add_count: "snd (fold (add_count L) ds ns) = add_all L (snd ns) ds"
  unfolding add_all_def by (induction ds arbitrary: ns) (auto simp: add_count_def split: prod.split)

lemma parseInto_sets:
  "parseInto L spec b bl al = (n, bl', al') \<Longrightarrow>
     bl' = add_all L bl (list_names Blocked (spec, Some b)) \<and>
     al' = add_all L al (list_names Allowed (spec, Some b))"
  using snd_fold_add_count [of L _ "(0, bl)"]
  by (auto simp: parseInto_def list_names_def add_all_def Let_def
      split: option.splits prod.splits) (metis snd_conv)+

lemma refresh_spec_step:
  assumes "fetch env (rf_eng r) (rf_fs r) spec = (got, e', f')"
  defines "data \<equiv> (case got of Some b \<Rightarrow> Some b | None \<Rightarrow> f' (cachePath e' spec))"
  shows "rf_eng (refresh_spec L env spec r) = e' \<and> rf_fs (refresh_spec L env spec r) = f' \<and>
    rf_blocked (refresh_spec L env spec r) = add_all L (rf_blocked r) (list_names Blocked (spec, data)) \<and>
    rf_allowed (refresh_spec L env spec r) = add_all L (rf_allowed r) (list_names Allowed (spec, data))"
  using assms parseInto_sets
  by (auto simp: refresh_spec_def Let_def data_def list_names_def add_all_def
      split: option.splits prod.splits)

lemma add_all_append: "add_all L s (xs @ ys) = add_all L (add_all L s xs) ys"
  by (simp add: add_all_def)

lemma add_all_Nil [simp]: "add_all L s [] = s"
  by (simp add: add_all_def)

lemma refresh_loop:
  "rf_blocked (fold (refresh_spec L env) specs r) =
     add_all L (rf_blocked r) (loaded_names Blocked (load_all env specs (rf_eng r) (rf_fs r))) \<and>
   rf_allowed (fold (refresh_spec L env) specs r) =
     add_all L (rf_allowed r) (loaded_names Allowed (load_all env specs (rf_eng r) (rf_fs r))) \<and>
   (\<exists>m. rf_eng (fold (refresh_spec L env) specs r) = (rf_eng r)\<lparr>eng_metas := m\<rparr>)"
proof (induction specs arbitrary: r)
  case Nil
  have "\<exists>m. rf_eng r = (rf_eng r)\<lparr>eng_metas := m\<rparr>"
    by (rule exI [of _ "eng_metas (rf_eng r)"]) simp
  then show ?case by (simp add: loaded_names_def)
next
  case (Cons spec specs)
  obtain got e' f' where ft: "fetch env (rf_eng r) (rf_fs r) spec = (got, e', f')"
    by (metis prod.exhaust)
  note st = refresh_spec_step [OF ft, of L]
  obtain m where "e' = (rf_eng r)\<lparr>eng_metas := m\<rparr>" using fetch_frame [OF ft] by blast
  with st Cons.IH [of "refresh_spec L env spec r"] show ?case
    by (auto simp: ft loaded_names_def add_all_append)
qed

text \<open>The sets after a refresh that is not throttled.\<close>

definition refresh_load :: "list_env \<Rightarrow> time \<Rightarrow> Engine \<Rightarrow> fs \<Rightarrow> (ListSpec \<times> bytes option) list" where
  "refresh_load env now e f = load_all env (eng_lists e) (e\<lparr>lastTry := now\<rparr>) f"

abbreviation refreshed :: "name_lib \<Rightarrow> list_env \<Rightarrow> time \<Rightarrow> Engine \<Rightarrow> fs \<Rightarrow> Engine" where
  "refreshed L env now e f \<equiv> fst (snd (Refresh L env now e f))"

definition outage :: "Engine \<Rightarrow> bool" where
  "outage e = failed_without_cache (eng_counts e) (eng_lists e)"

lemma Refresh_sets:
  assumes "\<not> time_Sub now (lastTry e) < 5 * Second"
    and e'_def: "e' = refreshed L env now e f" and lds_def: "lds = refresh_load env now e f"
  shows "eng_blocked e' = add_all L NewDomainSet
      (loaded_names Blocked lds @ eng_deny e @ (if outage e' then Each (eng_blocked e) else []))"
    and "eng_allowed e' = add_all L NewDomainSet
      (loaded_names Allowed lds @ eng_allow e @ (if outage e' then Each (eng_allowed e) else []))"
    and "eng_lists e' = eng_lists e" "eng_deny e' = eng_deny e" "eng_allow e' = eng_allow e"
    and "lastTry e' = now" "respA4 e' = respA4 e" "respA6 e' = respA6 e"
proof -
  let ?init = "\<lparr>rf_eng = e\<lparr>lastTry := now\<rparr>, rf_fs = f, rf_blocked = NewDomainSet,
    rf_allowed = NewDomainSet, rf_counts = [], rf_err = None\<rparr>"
  let ?r = "fold (refresh_spec L env) (eng_lists e) ?init"
  have b: "rf_blocked ?r = add_all L NewDomainSet (loaded_names Blocked lds)"
    and a: "rf_allowed ?r = add_all L NewDomainSet (loaded_names Allowed lds)"
    using refresh_loop [of L env "eng_lists e" ?init] by (simp_all add: lds_def refresh_load_def)
  obtain m where m: "rf_eng ?r = e\<lparr>lastTry := now, eng_metas := m\<rparr>"
    using refresh_loop [of L env "eng_lists e" ?init] by auto
  show "eng_blocked e' = add_all L NewDomainSet
      (loaded_names Blocked lds @ eng_deny e @ (if outage e' then Each (eng_blocked e) else []))"
    "eng_allowed e' = add_all L NewDomainSet
      (loaded_names Allowed lds @ eng_allow e @ (if outage e' then Each (eng_allowed e) else []))"
    "eng_lists e' = eng_lists e" "eng_deny e' = eng_deny e" "eng_allow e' = eng_allow e"
    "lastTry e' = now" "respA4 e' = respA4 e" "respA6 e' = respA6 e"
    using assms(1) by (simp_all add: e'_def Refresh_def Let_def m b a add_all_append outage_def)
qed

lemma Has_refreshed:
  assumes "\<not> time_Sub now (lastTry e) < 5 * Second" and "wf_set (eng_blocked e)"
    and "clean_set (eng_blocked e)"
  defines "e' \<equiv> \<lambda>L env f. refreshed L env now e f"
  shows "Has L (eng_blocked (e' L env f)) d \<longleftrightarrow>
    (\<exists>x \<in> set (loaded_names Blocked (refresh_load env now e f) @ eng_deny e). covers L x d) \<or>
    outage (e' L env f) \<and> Has L (eng_blocked e) d"
  unfolding e'_def Refresh_sets(1) [OF assms(1) refl refl] has_add_all
  using Has_Each [OF assms(2,3), of L d] not_Has_NewDomainSet [of L d] by auto

section \<open>The engine as a blocker\<close>

text \<open>
  The interface \<^verbatim>\<open>Blocker\<close> of \<^verbatim>\<open>src/internal/dns/server.go\<close>: a check returns a
  verdict, and neither the verdicts nor the answer addresses change by checking.
\<close>

locale blocker =
  fixes check :: "'b \<Rightarrow> string \<Rightarrow> bool \<times> 'b"
    and verdict :: "'b \<Rightarrow> string \<Rightarrow> bool"
    and ip4 :: "'b \<Rightarrow> Addr"
    and ip6 :: "'b \<Rightarrow> Addr"
  assumes check_verdict: "fst (check b d) = verdict b d"
    and verdict_kept: "verdict (snd (check b d)) = verdict b"
    and ip4_kept: "ip4 (snd (check b d)) = ip4 b"
    and ip6_kept: "ip6 (snd (check b d)) = ip6 b"
begin

lemma check_after_check: "fst (check (snd (check b d)) d') = fst (check b d')"
  by (simp add: check_verdict verdict_kept)

end

definition Verdict :: "name_lib \<Rightarrow> Engine \<Rightarrow> string \<Rightarrow> bool" where
  "Verdict L e d = (\<not> Has L (eng_allowed e) d \<and> Has L (eng_blocked e) d)"

lemma Check_frame:
  "eng_allowed (snd (Check L e d)) = eng_allowed e" "eng_blocked (snd (Check L e d)) = eng_blocked e"
  "respA4 (snd (Check L e d)) = respA4 e" "respA6 (snd (Check L e d)) = respA6 e"
  by (auto simp: Check_def)

interpretation eng: blocker "Check L" "Verdict L" BlockIPv4 BlockIPv6 for L :: name_lib
  by unfold_locales
    (auto simp: Check_def Verdict_def BlockIPv4_def BlockIPv6_def blockIPs_def fun_eq_iff)

section \<open>Properties\<close>

text \<open>
  The allowlist wins: \<^verbatim>\<open>Check\<close> blocks a name exactly when the block set has it and the
  allow set does not, leaves both sets alone, and counts every query in exactly one of the three
  hit counters.
\<close>

theorem check_allow_wins:
  "fst (Check L e d) = (\<not> Has L (eng_allowed e) d \<and> Has L (eng_blocked e) d)
   \<and> eng_blocked (snd (Check L e d)) = eng_blocked e
   \<and> eng_allowed (snd (Check L e d)) = eng_allowed e
   \<and> hitsAllow (snd (Check L e d)) = hitsAllow e + of_bool (Has L (eng_allowed e) d)
   \<and> hitsBlock (snd (Check L e d)) = hitsBlock e + of_bool (fst (Check L e d))
   \<and> hitsAllow (snd (Check L e d)) + hitsBlock (snd (Check L e d)) + hitsPass (snd (Check L e d))
       = hitsAllow e + hitsBlock e + hitsPass e + 1"
  by (simp add: Check_def)

text \<open>
  C20: What \<^verbatim>\<open>Refresh\<close> installs. Once the five-second throttle has passed, a name is in the
  new block set exactly when it is covered by an entry loaded for one of the lists (downloaded,
  or read from the cached copy when the download failed), by a denylist entry, or, when some
  source is left without data, by the previous block set. The old set must be well-formed and
  have clean labels.
\<close>

theorem refresh_installs_exactly:
  assumes "\<not> time_Sub now (lastTry e) < 5 * Second"
    and "wf_set (eng_blocked e)" and "clean_set (eng_blocked e)"
  shows "Has L (eng_blocked (refreshed L env now e f)) d \<longleftrightarrow>
    (\<exists>x \<in> set (loaded_names Blocked (refresh_load env now e f) @ eng_deny e). covers L x d) \<or>
    outage (refreshed L env now e f) \<and> Has L (eng_blocked e) d"
  by (rule Has_refreshed [OF assms])

definition offline_env :: list_env where
  "offline_env = \<lparr>urlScheme = (\<lambda>s. Some ''https''), httpDo = (\<lambda>r. None), writeFile = (\<lambda>p b f. f)\<rparr>"

definition one_list_engine :: Engine where
  "one_list_engine =
     (NewEngine ascii_lib ''/d'' [\<lparr>spec_Name = ''l'', spec_URL = ''https://x/l'', spec_Format = ''domains''\<rparr>]
        [] [''ads.com''] 0)\<lparr>eng_blocked := add_all ascii_lib NewDomainSet [''ads.com'', ''old.net'']\<rparr>"

lemma one_list_engine_ok:
  "wf_set (eng_blocked one_list_engine)" "clean_set (eng_blocked one_list_engine)"
  "\<not> time_Sub 0 (lastTry one_list_engine) < 5 * Second"
proof -
  have "rule_of ascii_lib ''ads.com'' = Some [''com'', ''ads'']"
    "rule_of ascii_lib ''old.net'' = Some [''net'', ''old'']" by code_simp+
  moreover have "ds_rules NewDomainSet = {}" by (simp add: ds_rules_def NewDomainSet_def)
  ultimately show "clean_set (eng_blocked one_list_engine)"
    by (simp add: one_list_engine_def clean_set_def add_all_rules plain_label_def plain_char_def)
qed (auto simp: one_list_engine_def NewEngine_def time_Sub_def zero_time_def intro: wf_intros)

theorem refresh_installs_exactly_witness:
  "Has ascii_lib (eng_blocked (refreshed ascii_lib offline_env 0 one_list_engine (\<lambda>p. None))) ''a.old.net''"
proof -
  have "outage (refreshed ascii_lib offline_env 0 one_list_engine (\<lambda>p. None))" by code_simp
  moreover have "Has ascii_lib (eng_blocked one_list_engine) ''a.old.net''" by code_simp
  ultimately show ?thesis
    using refresh_installs_exactly [OF one_list_engine_ok(3,1,2)] by blast
qed





section \<open>Limits of the refresh\<close>

text \<open>
  Three concrete runs that show where the refresh does less than its comments say: two lists of
  one name share one counter, so that the success of the second hides the failure of the first
  and the names of the first are dropped; a denylist entry gives way to an exception in a
  downloaded list; and the cache file of a list is shared by every URL that differs only in the
  four replaced characters.
\<close>

definition page_env :: "string \<Rightarrow> bytes \<Rightarrow> list_env" where
  "page_env url body =
     \<lparr>urlScheme = (\<lambda>s. Some ''https''),
      httpDo = (\<lambda>r. if rq_url r = url
        then Some \<lparr>rs_status = 200, rs_body = Some body, rs_etag = '''', rs_lastMod = None\<rparr> else None),
      writeFile = (\<lambda>p b f. f(p \<mapsto> b))\<rparr>"

definition two_lists_engine :: Engine where
  "two_lists_engine =
     (NewEngine ascii_lib ''/d''
        [\<lparr>spec_Name = ''l'', spec_URL = ''https://x/1'', spec_Format = ''domains''\<rparr>,
         \<lparr>spec_Name = ''l'', spec_URL = ''https://x/2'', spec_Format = ''domains''\<rparr>] [] [] 0)
     \<lparr>eng_blocked := add_all ascii_lib NewDomainSet [''old.net'']\<rparr>"

lemma duplicate_name_hides_outage:
  "fst (Check ascii_lib two_lists_engine ''old.net'')
   \<and> \<not> fst (Check ascii_lib
        (refreshed ascii_lib (page_env ''https://x/2'' ''new.net'') 0 two_lists_engine (\<lambda>p. None)) ''old.net'')"
  by code_simp

lemma exception_beats_denylist:
  "\<not> fst (Check ascii_lib (refreshed ascii_lib (page_env ''https://x/l'' ''@@||ads.com^'') 0
       (NewEngine ascii_lib ''/d''
          [\<lparr>spec_Name = ''l'', spec_URL = ''https://x/l'', spec_Format = ''adguard''\<rparr>] [] [''ads.com''] 0)
       (\<lambda>p. None)) ''ads.com'')"
  by code_simp

lemma cache_path_collision:
  "cachePath e \<lparr>spec_Name = n, spec_URL = ''https://x/a?b'', spec_Format = f\<rparr> =
   cachePath e \<lparr>spec_Name = m, spec_URL = ''https://x/a/b'', spec_Format = g\<rparr>"
  by (simp add: cachePath_def)

lemma wildcard_line_matches_only_itself:
  "\<not> Has ascii_lib (snd (Add ascii_lib NewDomainSet (hd (domains_line ''*.example.com'')))) ''www.example.com''"
  by code_simp

end
