(* ===== verification/Dns_Metrics.thy ===== *)
theory Dns_Metrics
  imports Supp_Prelude
begin

text \<open>
  The live counters of the dashboard, \<^verbatim>\<open>src/internal/dns/metrics.go\<close>. Go iterates its
  maps in an unspecified order, so \<open>Snapshot\<close> takes the sequences of entries that its two
  loops happen to visit; the lemmas assume of them only that each entry is visited once.
\<close>

section \<open>State and operations\<close>

record domainCount =
  dc_queries :: u64
  dc_blocked :: u64

record RecentQuery =
  rq_TS :: time
  rq_Client :: string
  rq_QName :: string
  rq_QType :: string
  rq_Blocked :: bool
  rq_Cached :: bool

record Metrics =
  mt_started :: time
  byDomain :: "(string, domainCount) gomap"
  byClient :: "(int, domainCount) gomap"
  mt_recent :: "RecentQuery list"
  blockedTotal :: u64
  queriesTotal :: u64
  cachedTotal :: u64
  staleTotal :: u64

definition NewMetrics :: "time \<Rightarrow> Metrics" where
  "NewMetrics now =
     \<lparr>mt_started = now, byDomain = [], byClient = [], mt_recent = [],
      blockedTotal = 0, queriesTotal = 0, cachedTotal = 0, staleTotal = 0\<rparr>"

definition b2u :: "bool \<Rightarrow> u64" where
  "b2u b = (if b then 1 else 0)"

text \<open>The two identical blocks of \<^verbatim>\<open>Observe\<close> that count under a key.\<close>

definition bump :: "'k \<Rightarrow> bool \<Rightarrow> ('k, domainCount) gomap \<Rightarrow> ('k, domainCount) gomap" where
  "bump k blocked m =
     (case map_of m k of
        Some d \<Rightarrow>
          AList.update k
            (let d = d\<lparr>dc_queries := dc_queries d + 1\<rparr> in
             if blocked then d\<lparr>dc_blocked := dc_blocked d + 1\<rparr> else d) m
      | None \<Rightarrow> AList.update k \<lparr>dc_queries = 1, dc_blocked = b2u blocked\<rparr> m)"

definition Observe ::
  "time \<Rightarrow> Metrics \<Rightarrow> string \<Rightarrow> int \<Rightarrow> string \<Rightarrow> string \<Rightarrow> bool \<Rightarrow> bool \<Rightarrow> Metrics" where
  "Observe now m client clientID qname qtype blocked cached =
     (let m = m\<lparr>queriesTotal := queriesTotal m + 1\<rparr>;
          m = (if blocked then m\<lparr>blockedTotal := blockedTotal m + 1\<rparr> else m);
          m = (if cached then m\<lparr>cachedTotal := cachedTotal m + 1\<rparr> else m);
          m = m\<lparr>byDomain := bump qname blocked (byDomain m)\<rparr>;
          m = (if 0 < clientID then m\<lparr>byClient := bump clientID blocked (byClient m)\<rparr> else m);
          recent = mt_recent m @ [\<lparr>rq_TS = now, rq_Client = client, rq_QName = qname, rq_QType = qtype,
                                   rq_Blocked = blocked, rq_Cached = cached\<rparr>]
      in m\<lparr>mt_recent := if 200 < length recent then drop 100 recent else recent\<rparr>)"

definition ObserveStale :: "Metrics \<Rightarrow> Metrics" where
  "ObserveStale m = m\<lparr>staleTotal := staleTotal m + 1\<rparr>"

record TopEntry =
  te_Domain :: string
  te_Queries :: u64
  te_Blocked :: u64

record ClientEntry =
  cle_ClientID :: int
  cle_Queries :: u64
  cle_Blocked :: u64

record Snapshot =
  sn_Uptime :: duration
  sn_QueriesTotal :: u64
  sn_BlockedTotal :: u64
  sn_CachedTotal :: u64
  sn_StaleTotal :: u64
  sn_Top :: "TopEntry list"
  sn_Clients :: "ClientEntry list"
  sn_Recent :: "RecentQuery list"

text \<open>\<^verbatim>\<open>sortTop\<close> moves each entry left while it has more queries than its neighbour.\<close>

definition sortTop :: "TopEntry list \<Rightarrow> TopEntry list" where
  "sortTop t = insertion_sort (\<lambda>x y. te_Queries y < te_Queries x) t"

definition take_snapshot ::
  "time \<Rightarrow> Metrics \<Rightarrow> (string \<times> domainCount) list \<Rightarrow> (int \<times> domainCount) list \<Rightarrow> Snapshot" where
  "take_snapshot now m doms clients =
     \<lparr>sn_Uptime = time_Sub now (mt_started m), sn_QueriesTotal = queriesTotal m,
      sn_BlockedTotal = blockedTotal m, sn_CachedTotal = cachedTotal m, sn_StaleTotal = staleTotal m,
      sn_Top = sortTop (map (\<lambda>(d, c). \<lparr>te_Domain = d, te_Queries = dc_queries c, te_Blocked = dc_blocked c\<rparr>) doms),
      sn_Clients = map (\<lambda>(i, c). \<lparr>cle_ClientID = i, cle_Queries = dc_queries c, cle_Blocked = dc_blocked c\<rparr>) clients,
      sn_Recent = rev (mt_recent m)\<rparr>"

section \<open>Histories\<close>

record outcome =
  oc_time :: time
  oc_client :: string
  oc_id :: int
  oc_name :: string
  oc_type :: string
  oc_blocked :: bool
  oc_cached :: bool

definition observe_one :: "outcome \<Rightarrow> Metrics \<Rightarrow> Metrics" where
  "observe_one o' m = Observe (oc_time o') m (oc_client o') (oc_id o') (oc_name o') (oc_type o') (oc_blocked o') (oc_cached o')"

definition recent_of :: "outcome \<Rightarrow> RecentQuery" where
  "recent_of o' = \<lparr>rq_TS = oc_time o', rq_Client = oc_client o', rq_QName = oc_name o', rq_QType = oc_type o',
     rq_Blocked = oc_blocked o', rq_Cached = oc_cached o'\<rparr>"

definition observed :: "time \<Rightarrow> outcome list \<Rightarrow> Metrics" where
  "observed now os = fold observe_one os (NewMetrics now)"

definition tally :: "(outcome \<Rightarrow> bool) \<Rightarrow> outcome list \<Rightarrow> u64" where
  "tally P os = of_nat (length (filter P os))"

section \<open>Lemmas\<close>

lemma observe_one_sel [simp]:
  "queriesTotal (observe_one x m) = queriesTotal m + 1"
  "blockedTotal (observe_one x m) = blockedTotal m + of_bool (oc_blocked x)"
  "cachedTotal (observe_one x m) = cachedTotal m + of_bool (oc_cached x)"
  "byDomain (observe_one x m) = bump (oc_name x) (oc_blocked x) (byDomain m)"
  "byClient (observe_one x m) = (if 0 < oc_id x then bump (oc_id x) (oc_blocked x) (byClient m) else byClient m)"
  "mt_recent (observe_one x m) =
     (if 200 \<le> length (mt_recent m) then drop 100 (mt_recent m @ [recent_of x]) else mt_recent m @ [recent_of x])"
  by (auto simp: observe_one_def Observe_def recent_of_def Let_def)

lemma tally_snoc: "tally P (os @ [x]) = tally P os + of_bool (P x)"
  by (simp add: tally_def)

lemma tally_Nil [simp]: "tally P [] = 0"
  by (simp add: tally_def)

text \<open>The counter of a key is the number of matching outcomes, and absent when there is none.\<close>

definition counts :: "('k, domainCount) gomap \<Rightarrow> (outcome \<Rightarrow> bool) \<Rightarrow> (outcome \<Rightarrow> 'k) \<Rightarrow> outcome list \<Rightarrow> bool" where
  "counts m sel key os \<longleftrightarrow> distinct (map fst m) \<and>
     (\<forall>k. map_of m k =
        (if \<exists>x \<in> set os. sel x \<and> key x = k then
           Some \<lparr>dc_queries = tally (\<lambda>x. sel x \<and> key x = k) os,
                 dc_blocked = tally (\<lambda>x. sel x \<and> key x = k \<and> oc_blocked x) os\<rparr>
         else None))"

lemma tally_none: "\<not> (\<exists>x \<in> set os. P x) \<Longrightarrow> tally P os = 0"
  by (simp add: tally_def filter_empty_conv)

lemma counts_bump:
  assumes "counts m sel key os" and "sel x"
  shows "counts (bump (key x) (oc_blocked x) m) sel key (os @ [x])"
proof -
  have d: "distinct (map fst (bump (key x) (oc_blocked x) m))"
    using assms(1) by (auto simp: counts_def bump_def distinct_keys_update split: option.split)
  have z: "tally (\<lambda>y. sel y \<and> key y = k) os = 0" "tally (\<lambda>y. sel y \<and> key y = k \<and> oc_blocked y) os = 0"
    if "\<not> (\<exists>y \<in> set os. sel y \<and> key y = k)" for k
    using that by (intro tally_none; blast)+
  show ?thesis
    using assms d z by (auto simp: counts_def bump_def tally_snoc b2u_def Let_def)
qed

lemma counts_skip: "counts m sel key os \<Longrightarrow> \<not> sel x \<Longrightarrow> counts m sel key (os @ [x])"
  by (auto simp: counts_def tally_snoc)

text \<open>The window of recent queries: how many of \<open>n\<close> observations it still holds.\<close>

definition window :: "nat \<Rightarrow> nat" where
  "window n = (if n \<le> 200 then n else 101 + (n - 201) mod 100)"

lemma window_Suc: "window (Suc n) = (if 200 \<le> window n then 101 else Suc (window n))"
proof (cases "n \<le> 200")
  case True
  then show ?thesis by (cases "n = 200") (simp_all add: window_def)
next
  case False
  then have "Suc n - 201 = Suc (n - 201)" by simp
  then show ?thesis using False mod_less_divisor [of 100 "n - 201"] by (auto simp: window_def mod_Suc)
qed

lemma window_le: "window n \<le> n" "window n \<le> 200"
proof -
  show "window n \<le> n"
  proof (cases "n \<le> 200")
    case False
    have "(n - 201) mod 100 \<le> n - 201" by (rule mod_less_eq_dividend)
    with False show ?thesis by (simp add: window_def)
  qed (simp add: window_def)
  show "window n \<le> 200" using mod_less_divisor [of 100 "n - 201"] by (auto simp: window_def)
qed

lemma drop_snoc_window:
  assumes "r = drop (length xs - window (length xs)) xs"
  shows "(if 200 \<le> length r then drop 100 (r @ [y]) else r @ [y]) =
    drop (Suc (length xs) - window (Suc (length xs))) (xs @ [y])"
proof -
  have len: "length r = window (length xs)" using assms window_le(1) [of "length xs"] by simp
  show ?thesis
    using window_le [of "length xs"] unfolding len window_Suc
    by (auto simp: assms le_diff_conv Suc_diff_le)
qed

lemma observed_recent:
  "mt_recent (observed now os) = drop (length os - window (length os)) (map recent_of os)"
proof (induction os rule: rev_induct)
  case (snoc x os)
  have "mt_recent (observed now (os @ [x])) =
      (if 200 \<le> length (mt_recent (observed now os)) then drop 100 (mt_recent (observed now os) @ [recent_of x])
       else mt_recent (observed now os) @ [recent_of x])"
    by (simp add: observed_def)
  also have "\<dots> = drop (Suc (length os) - window (Suc (length os))) (map recent_of os @ [recent_of x])"
    using drop_snoc_window [of "mt_recent (observed now os)" "map recent_of os" "recent_of x"] snoc by simp
  finally show ?case by simp
qed (simp add: observed_def NewMetrics_def)

lemma observed_counts:
  "counts (byDomain (observed now os)) (\<lambda>_. True) oc_name os"
  "counts (byClient (observed now os)) (\<lambda>x. 0 < oc_id x) oc_id os"
proof (induction os rule: rev_induct)
  case (snoc x os)
  {
    case 1
    show ?case using counts_bump [OF snoc(1), of x] by (simp add: observed_def)
  next
    case 2
    show ?case using counts_bump [OF snoc(2), of x] counts_skip [OF snoc(2), of x]
      by (simp add: observed_def)
  }
qed (simp_all add: observed_def NewMetrics_def counts_def)

lemma observed_totals:
  "queriesTotal (observed now os) = tally (\<lambda>_. True) os"
  "blockedTotal (observed now os) = tally oc_blocked os"
  "cachedTotal (observed now os) = tally oc_cached os"
  by (induction os rule: rev_induct) (simp_all add: observed_def NewMetrics_def tally_snoc)

lemma strict_weak_top: "strict_weak (\<lambda>x y. te_Queries y < te_Queries x)"
  by (auto simp: strict_weak_def)

section \<open>Properties\<close>

text \<open>
  C28: The live counters are exact. After any sequence of observed queries the totals are the
  numbers of all, blocked and cached queries (modulo 2^64), and the entry of a domain or of a
  positive client identifier counts exactly its own queries and is absent when it has none.
\<close>

theorem metrics_count_exactly:
  "queriesTotal (observed now os) = of_nat (length os)
   \<and> blockedTotal (observed now os) = of_nat (length (filter oc_blocked os))
   \<and> cachedTotal (observed now os) = of_nat (length (filter oc_cached os))
   \<and> map_of (byDomain (observed now os)) d =
       (if d \<in> oc_name ` set os then
          Some \<lparr>dc_queries = of_nat (length (filter (\<lambda>x. oc_name x = d) os)),
                dc_blocked = of_nat (length (filter (\<lambda>x. oc_name x = d \<and> oc_blocked x) os))\<rparr>
        else None)
   \<and> map_of (byClient (observed now os)) i =
       (if 0 < i \<and> i \<in> oc_id ` set os then
          Some \<lparr>dc_queries = of_nat (length (filter (\<lambda>x. oc_id x = i) os)),
                dc_blocked = of_nat (length (filter (\<lambda>x. oc_id x = i \<and> oc_blocked x) os))\<rparr>
        else None)"
proof -
  have "filter (\<lambda>x. 0 < oc_id x \<and> oc_id x = i) os = filter (\<lambda>x. oc_id x = i) os"
    "filter (\<lambda>x. 0 < oc_id x \<and> oc_id x = i \<and> oc_blocked x) os = filter (\<lambda>x. oc_id x = i \<and> oc_blocked x) os"
    if "0 < i" using that by (auto intro: filter_cong)
  then show ?thesis
    using observed_counts [of now os]
    by (auto simp: observed_totals counts_def tally_def)
qed

text \<open>
  The dashboard snapshot. Whatever order the map iteration takes, the top list contains every
  domain once with its counters, most queried first, and the recent list shows the newest queries
  first: at least the last 101 (all of them up to 200), never more than 200.
\<close>

theorem snapshot_view:
  assumes "mset doms = mset (byDomain (observed start os))"
    and "snap = take_snapshot now (observed start os) doms clients"
  shows "sorted_wrt (\<lambda>x y. te_Queries y \<le> te_Queries x) (sn_Top snap)
    \<and> mset (map (\<lambda>t. (te_Domain t, te_Queries t, te_Blocked t)) (sn_Top snap))
        = mset (map (\<lambda>(d, c). (d, dc_queries c, dc_blocked c)) (byDomain (observed start os)))
    \<and> sn_Recent snap = rev (map recent_of (drop (length os - length (sn_Recent snap)) os))
    \<and> min 101 (length os) \<le> length (sn_Recent snap) \<and> length (sn_Recent snap) \<le> 200"
proof -
  have top: "sn_Top snap = sortTop (map (\<lambda>(d, c). \<lparr>te_Domain = d, te_Queries = dc_queries c, te_Blocked = dc_blocked c\<rparr>) doms)"
    and rec: "sn_Recent snap = rev (drop (length os - window (length os)) (map recent_of os))"
    using assms(2) by (simp_all add: take_snapshot_def observed_recent)
  have "mset (map (\<lambda>t. (te_Domain t, te_Queries t, te_Blocked t)) (sn_Top snap)) =
    image_mset (\<lambda>(d, c). (d, dc_queries c, dc_blocked c)) (mset doms)"
    unfolding top sortTop_def by (simp add: image_mset.compositionality comp_def case_prod_unfold)
  moreover have "length (sn_Recent snap) = window (length os)"
    using rec window_le(1) [of "length os"] by simp
  moreover have "min 101 (length os) \<le> window (length os)" by (auto simp: window_def)
  ultimately show ?thesis
    using assms(1) rec window_le(2) [of "length os"]
      sorted_insertion_sort [OF strict_weak_top] unfolding top sortTop_def
    by (simp add: drop_map not_less)
qed

theorem snapshot_view_witness:
  "let o1 = \<lparr>oc_time = 5, oc_client = ''local'', oc_id = 0, oc_name = ''a.com'', oc_type = ''A'', oc_blocked = False, oc_cached = False\<rparr>;
       snap = take_snapshot 9 (observed 0 [o1]) (byDomain (observed 0 [o1])) []
   in length (sn_Recent snap) \<le> 200 \<and> 1 \<le> length (sn_Recent snap)"
proof -
  let ?o = "\<lparr>oc_time = 5, oc_client = ''local'', oc_id = 0, oc_name = ''a.com'', oc_type = ''A'', oc_blocked = False, oc_cached = False\<rparr>"
  show ?thesis
    using snapshot_view [OF refl refl, where os = "[?o]" and start = 0 and now = 9 and clients = "[]"]
    by (simp add: Let_def)
qed

end
