(* ===== verification/Admin_Api.thy ===== *)
theory Admin_Api
  imports Wg_Service Filter_Engine Dns_Metrics
begin

text \<open>
  The dashboard and management API, \<^verbatim>\<open>src/internal/admin/server.go\<close>, and the byte counts of
  \<^verbatim>\<open>render.go\<close>: the routes, the token gate in front of every one of them, and each handler
  with what it does to the store and, through the VPN service, to the machine. A response is a
  value that says what is written, before JSON encoding and before the HTML templates, which are
  not modelled; a percentage is the double it is computed to. The decoders of the request bodies, which are
  \<^verbatim>\<open>encoding/json\<close> applied to three small structs, are the record \<open>json_lib\<close>, and
  the PNG encoder is a parameter.
\<close>

unbundle bit_operations_syntax

section \<open>State, requests, responses\<close>

text \<open>The dependencies that handlers only read.\<close>

record Deps =
  dp_Filter :: "Engine option"
  dp_Live :: Metrics
  dp_WG :: "Service option"
  dp_Version :: string
  dp_Token :: string

text \<open>What handlers change: the store, the machine, the count of visits.\<close>

record 'os admin_state =
  as_Store :: Store
  as_os :: 'os
  as_visits :: int

record peer_input =
  pi_Name :: string
  pi_Split :: bool
  pi_DeviceName :: string

text \<open>\<open>None\<close> is a body that does not decode; a missing field of a struct keeps its zero value.\<close>

record json_lib =
  jsonName :: "bytes \<Rightarrow> string option"
  jsonPeer :: "bytes \<Rightarrow> peer_input option"
  jsonActive :: "bytes \<Rightarrow> bool option option"

record admin_request =
  arq_Method :: string
  arq_Path :: string
  arq_XAdminToken :: string
  arq_Cookie :: "string option"
  arq_Query :: "(string \<times> string) list"
  arq_Body :: bytes

record statsView =
  sv_Version :: string
  sv_Uptime :: string
  sv_QueriesTotal :: u64
  sv_BlockedTotal :: u64
  sv_CachedTotal :: u64
  sv_BlockPercent :: rat
  sv_BlockedDomains :: int
  sv_TopBlocked :: "DomainRow list"
  sv_Clients :: "ClientRow list"
  sv_Sources :: "SourceStatus list"
  sv_Recent :: "RecentQuery list"

datatype err_text = Text string | StoreErr storeErr | SvcErr svc_error | QrErr

datatype admin_response =
    LoginPage
  | RedirectTo string "(string \<times> string) list" string
  | ErrJson int err_text
  | NoContent
  | JsonStats statsView
  | JsonClients "Client list"
  | JsonClient Client
  | JsonPeer WgPeer
  | JsonStatus Status
  | Attachment string string
  | Png bytes
  | HtmlPage string statsView "Status option" string
  | LiveFragment statsView
  | StaticFile string
  | MuxMoved string
  | MuxNotFound
  | MuxMethodNotAllowed

section \<open>Statistics\<close>

definition percent :: "u64 \<Rightarrow> u64 \<Rightarrow> rat" where
  "percent blocked queries = 
     (if 0 < queries
      then f64 (f64 (of_int (float64_of (uint blocked)) / of_int (float64_of (uint queries))) * 100)
      else 0)"

definition recent_of :: "LogRow \<Rightarrow> RecentQuery" where
  "recent_of r =
     \<lparr>rq_TS = lr_TS r * Second, rq_Client = (if lr_ClientName r = '''' then ''Default Client'' else lr_ClientName r),
      rq_QName = lr_QName r, rq_QType = lr_QType r, rq_Blocked = (lr_Blocked r = 1), rq_Cached = False\<rparr>"

text \<open>
  \<^verbatim>\<open>stats\<close>: the live counters, overtaken by the stored totals where those are larger, with the
  stored log in place of the live one when it has rows. The store is always there; memory and
  goroutine counts of the runtime are left out.
\<close>

definition stats :: "Deps \<Rightarrow> time \<Rightarrow> Store \<Rightarrow> statsView" where
  "stats d now st =
     (let since = now - 24 * Hour;
          snap = take_snapshot now (dp_Live d) (byDomain (dp_Live d)) (byClient (dp_Live d));
          (qStore, bStore) = Totals st zero_time;
          queries = (if uint (sn_QueriesTotal snap) < qStore then word_of_int qStore else sn_QueriesTotal snap);
          blocked = (if uint (sn_BlockedTotal snap) < bStore then word_of_int bStore else sn_BlockedTotal snap);
          dbLogs = RecentLog st 100
      in \<lparr>sv_Version = dp_Version d, sv_Uptime = Duration_String (Duration_Round (sn_Uptime snap) Second),
          sv_QueriesTotal = queries, sv_BlockedTotal = blocked, sv_CachedTotal = sn_CachedTotal snap,
          sv_BlockPercent = percent blocked queries,
          sv_BlockedDomains = (case dp_Filter d of None \<Rightarrow> 0 | Some e \<Rightarrow> st_BlockedDomains (Stats e)),
          sv_TopBlocked = TopDomains st since 50 True, sv_Clients = PerClient st since,
          sv_Sources = (case dp_Filter d of None \<Rightarrow> [] | Some e \<Rightarrow> st_Sources (Stats e)),
          sv_Recent = (if dbLogs \<noteq> [] then map recent_of dbLogs else sn_Recent snap)\<rparr>)"

section \<open>Handlers\<close>

text \<open>A handler gives the response and the new state; \<open>None\<close> is a handler that does not return.\<close>

definition apiStats :: "Deps \<Rightarrow> time \<Rightarrow> 'os admin_state \<Rightarrow> admin_response" where
  "apiStats d now a = JsonStats (stats d now (as_Store a))"

definition apiClients :: "'os admin_state \<Rightarrow> admin_response" where
  "apiClients a = JsonClients (ListClients (as_Store a))"

definition apiClientCreate ::
  "json_lib \<Rightarrow> u8 list option \<Rightarrow> time \<Rightarrow> 'os admin_state \<Rightarrow> admin_request \<Rightarrow> admin_response \<times> 'os admin_state" where
  "apiClientCreate J rnd now a r =
     (case jsonName J (limit_read 4096 (arq_Body r)) of
        None \<Rightarrow> (ErrJson 400 (Text ''name required''), a)
      | Some name \<Rightarrow>
          if name = '''' then (ErrJson 400 (Text ''name required''), a)
          else (case CreateClient rnd now (as_Store a) name of
              (Inl err, st) \<Rightarrow> (ErrJson 500 (StoreErr err), a\<lparr>as_Store := st\<rparr>)
            | (Inr c, st) \<Rightarrow> (JsonClient c, a\<lparr>as_Store := st\<rparr>)))"

definition apiClientDelete :: "'os admin_state \<Rightarrow> string \<Rightarrow> admin_response \<times> 'os admin_state" where
  "apiClientDelete a pathId =
     (case go_Atoi pathId of
        None \<Rightarrow> (ErrJson 400 (Text ''bad id''), a)
      | Some i \<Rightarrow> (NoContent, a\<lparr>as_Store := DeleteClient (as_Store a) i\<rparr>))"

abbreviation wg_off :: admin_response where
  "wg_off \<equiv> ErrJson 409 (Text ''wireguard module not enabled'')"

definition apiWGStatus :: "Deps \<Rightarrow> 'os admin_state \<Rightarrow> admin_response" where
  "apiWGStatus d a =
     (case dp_WG d of
        None \<Rightarrow> ErrJson 409 (Text ''wireguard module not enabled (run 'supp wg enable')'')
      | Some s \<Rightarrow> JsonStatus (svc_Status s (as_Store a)))"

definition apiWGPeerCreate ::
  "'os host \<Rightarrow> json_lib \<Rightarrow> Deps \<Rightarrow> time \<Rightarrow> 'os admin_state \<Rightarrow> admin_request \<Rightarrow> (admin_response \<times> 'os admin_state) option" where
  "apiWGPeerCreate H J d now a r =
     (case dp_WG d of
        None \<Rightarrow> Some (wg_off, a)
      | Some s \<Rightarrow>
          (case jsonPeer J (limit_read 4096 (arq_Body r)) of
             None \<Rightarrow> Some (ErrJson 400 (Text ''name required''), a)
           | Some inp \<Rightarrow>
               if pi_Name inp = '''' then Some (ErrJson 400 (Text ''name required''), a)
               else
                 let clientID = (if pi_DeviceName inp = '''' then 0
                       else (case ClientByName (as_Store a) (pi_DeviceName inp) of Inl _ \<Rightarrow> 0 | Inr c \<Rightarrow> cl_ID c))
                 in (case AddPeer H now s (as_Store a) (as_os a) (pi_Name inp) (\<not> pi_Split inp) clientID of
                       None \<Rightarrow> None
                     | Some (res, st, os) \<Rightarrow>
                         let a = a\<lparr>as_Store := st, as_os := os\<rparr>
                         in (case res of
                               Inl err \<Rightarrow> Some (ErrJson 500 (SvcErr err), a)
                             | Inr p \<Rightarrow> Some (JsonPeer p, a)))))"

definition apiWGPeerDelete ::
  "'os host \<Rightarrow> Deps \<Rightarrow> 'os admin_state \<Rightarrow> string \<Rightarrow> admin_response \<times> 'os admin_state" where
  "apiWGPeerDelete H d a pathId =
     (case dp_WG d of
        None \<Rightarrow> (wg_off, a)
      | Some s \<Rightarrow>
          (case go_Atoi pathId of
             None \<Rightarrow> (ErrJson 400 (Text ''bad id''), a)
           | Some i \<Rightarrow>
               (case RemovePeer H s (as_Store a) (as_os a) i of
                  (res, st, os) \<Rightarrow>
                    (case res of Some err \<Rightarrow> ErrJson 500 (SvcErr err) | None \<Rightarrow> NoContent, a\<lparr>as_Store := st, as_os := os\<rparr>))))"

definition apiWGPeerToggle ::
  "'os host \<Rightarrow> json_lib \<Rightarrow> Deps \<Rightarrow> 'os admin_state \<Rightarrow> admin_request \<Rightarrow> string \<Rightarrow> admin_response \<times> 'os admin_state" where
  "apiWGPeerToggle H J d a r pathId =
     (case dp_WG d of
        None \<Rightarrow> (wg_off, a)
      | Some s \<Rightarrow>
          (case go_Atoi pathId of
             None \<Rightarrow> (ErrJson 400 (Text ''bad id''), a)
           | Some i \<Rightarrow>
               (case jsonActive J (limit_read 1024 (arq_Body r)) of
                  Some (Some active) \<Rightarrow>
                    (case SetPeerActive H s (as_Store a) (as_os a) i active of
                       (res, st, os) \<Rightarrow>
                         (case res of Some err \<Rightarrow> ErrJson 500 (SvcErr err) | None \<Rightarrow> NoContent,
                          a\<lparr>as_Store := st, as_os := os\<rparr>))
                | _ \<Rightarrow> (ErrJson 400 (Text ''active (bool) required''), a))))"

text \<open>\<^verbatim>\<open>%q\<close> of a name of printable ASCII: in double quotes, with quotes and backslashes escaped.\<close>

definition quote_name :: "string \<Rightarrow> string" where
  "quote_name s =
     [CHR 0x22] @ concat (map (\<lambda>c. if c = CHR 0x22 \<or> c = CHR 0x5C then [CHR 0x5C, c] else [c]) s) @ [CHR 0x22]"

definition apiWGPeerConf ::
  "'os host \<Rightarrow> Deps \<Rightarrow> 'os admin_state \<Rightarrow> string \<Rightarrow> admin_response \<times> 'os admin_state" where
  "apiWGPeerConf H d a pathId =
     (case dp_WG d of
        None \<Rightarrow> (wg_off, a)
      | Some s \<Rightarrow>
          (case go_Atoi pathId of
             None \<Rightarrow> (ErrJson 400 (Text ''bad id''), a)
           | Some i \<Rightarrow>
               (case WgPeerByID (as_Store a) i of
                  Inl _ \<Rightarrow> (ErrJson 404 (Text ''peer not found''), a)
                | Inr p \<Rightarrow>
                    (case PeerConf H s (as_os a) p of
                       (Inl err, os) \<Rightarrow> (ErrJson 500 (SvcErr err), a\<lparr>as_os := os\<rparr>)
                     | (Inr conf, os) \<Rightarrow>
                         (Attachment (''attachment; filename='' @ quote_name (wp_Name p) @ ''.conf'') conf, a\<lparr>as_os := os\<rparr>)))))"

definition apiWGPeerQR ::
  "'os host \<Rightarrow> (string \<Rightarrow> int \<Rightarrow> bytes option) \<Rightarrow> Deps \<Rightarrow> 'os admin_state \<Rightarrow> string \<Rightarrow> admin_response \<times> 'os admin_state" where
  "apiWGPeerQR H enc d a pathId =
     (case dp_WG d of
        None \<Rightarrow> (wg_off, a)
      | Some s \<Rightarrow>
          (case go_Atoi pathId of
             None \<Rightarrow> (ErrJson 400 (Text ''bad id''), a)
           | Some i \<Rightarrow>
               (case WgPeerByID (as_Store a) i of
                  Inl _ \<Rightarrow> (ErrJson 404 (Text ''peer not found''), a)
                | Inr p \<Rightarrow>
                    (case PeerConf H s (as_os a) p of
                       (Inl err, os) \<Rightarrow> (ErrJson 500 (SvcErr err), a\<lparr>as_os := os\<rparr>)
                     | (Inr conf, os) \<Rightarrow>
                         (case QRPNG enc conf 512 of
                            None \<Rightarrow> (ErrJson 500 QrErr, a\<lparr>as_os := os\<rparr>)
                          | Some png \<Rightarrow> (Png png, a\<lparr>as_os := os\<rparr>))))))"

definition page :: "Deps \<Rightarrow> time \<Rightarrow> 'os admin_state \<Rightarrow> string \<Rightarrow> admin_response" where
  "page d now a view = HtmlPage view (stats d now (as_Store a)) None (dp_Token d)"

definition pageOverview :: "Deps \<Rightarrow> time \<Rightarrow> 'os admin_state \<Rightarrow> admin_response \<times> 'os admin_state" where
  "pageOverview d now a = (page d now a ''overview'', a\<lparr>as_visits := as_visits a + 1\<rparr>)"

definition pageLive :: "Deps \<Rightarrow> time \<Rightarrow> 'os admin_state \<Rightarrow> admin_response" where
  "pageLive d now a = LiveFragment (stats d now (as_Store a))"

definition pageWG :: "Deps \<Rightarrow> time \<Rightarrow> 'os admin_state \<Rightarrow> admin_response" where
  "pageWG d now a =
     HtmlPage ''wg'' (stats d now (as_Store a))
       (case dp_WG d of None \<Rightarrow> None | Some s \<Rightarrow> Some (svc_Status s (as_Store a))) (dp_Token d)"

section \<open>Routes and the token gate\<close>

datatype seg = Lit string | IdVar

datatype route =
    Overview | Live | ClientsPage | BlocklistsPage | SetupPage | WGPage
  | WGStatus | WGPeerCreate | WGPeerDelete | WGPeerToggle | WGPeerConf | WGPeerQR
  | StatsJson | ClientsJson | ClientCreate | ClientDelete | Static

text \<open>The patterns that \<^verbatim>\<open>New\<close> registers, as method, path segments, handler.\<close>

definition admin_routes :: "(string \<times> seg list \<times> route) list" where
  "admin_routes =
     [(''GET'', [Lit ''''], Overview),
      (''GET'', [Lit ''live''], Live),
      (''GET'', [Lit ''clients''], ClientsPage),
      (''GET'', [Lit ''blocklists''], BlocklistsPage),
      (''GET'', [Lit ''setup''], SetupPage),
      (''GET'', [Lit ''wg''], WGPage),
      (''GET'', [Lit ''api'', Lit ''wg'', Lit ''status''], WGStatus),
      (''POST'', [Lit ''api'', Lit ''wg'', Lit ''peers''], WGPeerCreate),
      (''DELETE'', [Lit ''api'', Lit ''wg'', Lit ''peers'', IdVar], WGPeerDelete),
      (''PATCH'', [Lit ''api'', Lit ''wg'', Lit ''peers'', IdVar], WGPeerToggle),
      (''GET'', [Lit ''api'', Lit ''wg'', Lit ''peers'', IdVar, Lit ''conf''], WGPeerConf),
      (''GET'', [Lit ''api'', Lit ''wg'', Lit ''peers'', IdVar, Lit ''qr.png''], WGPeerQR),
      (''GET'', [Lit ''api'', Lit ''stats''], StatsJson),
      (''GET'', [Lit ''api'', Lit ''clients''], ClientsJson),
      (''POST'', [Lit ''api'', Lit ''clients''], ClientCreate),
      (''DELETE'', [Lit ''api'', Lit ''clients'', IdVar], ClientDelete)]"

text \<open>
  \<^verbatim>\<open>http.ServeMux\<close>: a path that is not clean is redirected, a pattern for \<^verbatim>\<open>GET\<close>
  serves \<^verbatim>\<open>HEAD\<close> too, a path known under another method only gives 405.
\<close>

fun match_seg :: "seg \<Rightarrow> string \<Rightarrow> bool" where
  "match_seg (Lit s) x = (s = x)"
| "match_seg IdVar x = (x \<noteq> '''')"

definition path_segs :: "string \<Rightarrow> string list" where
  "path_segs p = go_Split CHR ''/'' (drop 1 p)"

definition method_matches :: "string \<Rightarrow> string \<Rightarrow> bool" where
  "method_matches pattern m \<longleftrightarrow> m = pattern \<or> pattern = ''GET'' \<and> m = ''HEAD''"

definition mux_find :: "string \<Rightarrow> string list \<Rightarrow> admin_response + route" where
  "mux_find m segs =
     (let ms = filter (\<lambda>(_, pat, _). list_all2 match_seg pat segs) admin_routes;
          static = (case segs of s # _ # _ \<Rightarrow> s = ''static'' | _ \<Rightarrow> False)
      in case find (\<lambda>(pm, _, _). method_matches pm m) ms of
           Some (_, _, h) \<Rightarrow> Inr h
         | None \<Rightarrow>
             if static \<and> method_matches ''GET'' m then Inr Static
             else if static \<or> ms \<noteq> [] then Inl MuxMethodNotAllowed
             else Inl MuxNotFound)"

definition run_route ::
  "'os host \<Rightarrow> json_lib \<Rightarrow> (string \<Rightarrow> int \<Rightarrow> bytes option) \<Rightarrow> Deps \<Rightarrow> u8 list option \<Rightarrow> time \<Rightarrow>
    'os admin_state \<Rightarrow> admin_request \<Rightarrow> route \<Rightarrow> (admin_response \<times> 'os admin_state) option" where
  "run_route H J enc d rnd now a r h =
     (let pathId = path_segs (arq_Path r) ! 3 in
      case h of
        Overview \<Rightarrow> Some (pageOverview d now a)
      | Live \<Rightarrow> Some (pageLive d now a, a)
      | ClientsPage \<Rightarrow> Some (page d now a ''clients'', a)
      | BlocklistsPage \<Rightarrow> Some (page d now a ''blocklists'', a)
      | SetupPage \<Rightarrow> Some (page d now a ''setup'', a)
      | WGPage \<Rightarrow> Some (pageWG d now a, a)
      | WGStatus \<Rightarrow> Some (apiWGStatus d a, a)
      | WGPeerCreate \<Rightarrow> apiWGPeerCreate H J d now a r
      | WGPeerDelete \<Rightarrow> Some (apiWGPeerDelete H d a pathId)
      | WGPeerToggle \<Rightarrow> Some (apiWGPeerToggle H J d a r pathId)
      | WGPeerConf \<Rightarrow> Some (apiWGPeerConf H d a pathId)
      | WGPeerQR \<Rightarrow> Some (apiWGPeerQR H enc d a pathId)
      | StatsJson \<Rightarrow> Some (apiStats d now a, a)
      | ClientsJson \<Rightarrow> Some (apiClients a, a)
      | ClientCreate \<Rightarrow> Some (apiClientCreate J rnd now a r)
      | ClientDelete \<Rightarrow> Some (apiClientDelete a (path_segs (arq_Path r) ! 2))
      | Static \<Rightarrow> Some (StaticFile (arq_Path r), a))"

definition admin_mux ::
  "'os host \<Rightarrow> json_lib \<Rightarrow> (string \<Rightarrow> int \<Rightarrow> bytes option) \<Rightarrow> Deps \<Rightarrow> u8 list option \<Rightarrow> time \<Rightarrow>
    'os admin_state \<Rightarrow> admin_request \<Rightarrow> (admin_response \<times> 'os admin_state) option" where
  "admin_mux H J enc d rnd now a r =
     (if mux_clean (arq_Path r) \<noteq> arq_Path r then Some (MuxMoved (mux_clean (arq_Path r)), a)
      else if arq_Path r = ''/static'' then Some (MuxMoved ''/static/'', a)
      else (case mux_find (arq_Method r) (path_segs (arq_Path r)) of
          Inl resp \<Rightarrow> Some (resp, a)
        | Inr h \<Rightarrow> run_route H J enc d rnd now a r h))"

text \<open>\<^verbatim>\<open>Query().Get\<close>: the first value of the key, or the empty string.\<close>

definition query_get :: "(string \<times> string) list \<Rightarrow> string \<Rightarrow> string" where
  "query_get q k = (case map_of q k of None \<Rightarrow> '''' | Some v \<Rightarrow> v)"

text \<open>The token a request presents: header, else cookie, else query parameter.\<close>

definition presented :: "admin_request \<Rightarrow> string" where
  "presented r =
     (let tok = arq_XAdminToken r;
          tok = (if tok = '''' then (case arq_Cookie r of None \<Rightarrow> tok | Some c \<Rightarrow> c) else tok)
      in if tok = '''' then query_get (arq_Query r) ''token'' else tok)"

text \<open>
  \<^verbatim>\<open>subtle.ConstantTimeCompare\<close>: unequal lengths differ, else the bitwise differences of all
  bytes are gathered.
\<close>

definition ConstantTimeCompare :: "string \<Rightarrow> string \<Rightarrow> bool" where
  "ConstantTimeCompare x y =
     (length x = length y \<and>
      fold (\<lambda>(c, d) v. v OR (of_char c XOR of_char d)) (zip x y) (0 :: u8) = 0)"

definition auth ::
  "'os host \<Rightarrow> json_lib \<Rightarrow> (string \<Rightarrow> int \<Rightarrow> bytes option) \<Rightarrow> Deps \<Rightarrow> u8 list option \<Rightarrow> time \<Rightarrow>
    'os admin_state \<Rightarrow> admin_request \<Rightarrow> (admin_response \<times> 'os admin_state) option" where
  "auth H J enc d rnd now a r =
     (let tok = presented r in
      if dp_Token d = '''' \<or> \<not> ConstantTimeCompare tok (dp_Token d) then Some (LoginPage, a)
      else if query_get (arq_Query r) ''token'' \<noteq> '''' then
        Some (RedirectTo (arq_Path r) (sort_key fst (filter (\<lambda>(k, _). k \<noteq> ''token'') (arq_Query r))) tok, a)
      else admin_mux H J enc d rnd now a r)"

section \<open>Status and headers\<close>

text \<open>What the handlers set before the body; \<open>None\<close> where \<^verbatim>\<open>net/http\<close> writes the response.\<close>

record http_head =
  hd_Status :: int
  hd_ContentType :: "string option"
  hd_Other :: "(string \<times> string) list"

definition writeJSON_head :: http_head where
  "writeJSON_head = \<lparr>hd_Status = 200, hd_ContentType = Some ''application/json'', hd_Other = []\<rparr>"

definition httpError_head :: "int \<Rightarrow> http_head" where
  "httpError_head code = \<lparr>hd_Status = code, hd_ContentType = Some ''application/json'', hd_Other = []\<rparr>"

definition render_head :: http_head where
  "render_head =
     \<lparr>hd_Status = 200, hd_ContentType = Some ''text/html; charset=utf-8'',
      hd_Other = [(''X-Content-Type-Options'', ''nosniff''), (''Referrer-Policy'', ''no-referrer'')]\<rparr>"

fun response_head :: "admin_response \<Rightarrow> http_head option" where
  "response_head LoginPage = Some \<lparr>hd_Status = 401, hd_ContentType = Some ''text/html; charset=utf-8'', hd_Other = []\<rparr>"
| "response_head (RedirectTo path q tok) = Some \<lparr>hd_Status = 302, hd_ContentType = None, hd_Other = [(''Set-Cookie'', tok)]\<rparr>"
| "response_head (ErrJson code msg) = Some (httpError_head code)"
| "response_head NoContent = Some \<lparr>hd_Status = 204, hd_ContentType = None, hd_Other = []\<rparr>"
| "response_head (JsonStats v) = Some writeJSON_head"
| "response_head (JsonClients cs) = Some writeJSON_head"
| "response_head (JsonClient c) = Some writeJSON_head"
| "response_head (JsonPeer p) = Some writeJSON_head"
| "response_head (JsonStatus v) = Some writeJSON_head"
| "response_head (Attachment disp conf) =
     Some \<lparr>hd_Status = 200, hd_ContentType = Some ''text/plain; charset=utf-8'', hd_Other = [(''Content-Disposition'', disp)]\<rparr>"
| "response_head (Png b) = Some \<lparr>hd_Status = 200, hd_ContentType = Some ''image/png'', hd_Other = []\<rparr>"
| "response_head (HtmlPage view v w tok) = Some render_head"
| "response_head (LiveFragment v) =
     Some \<lparr>hd_Status = 200, hd_ContentType = Some ''text/html; charset=utf-8'', hd_Other = []\<rparr>"
| "response_head (StaticFile path) = None"
| "response_head (MuxMoved path) = None"
| "response_head MuxNotFound = None"
| "response_head MuxMethodNotAllowed = None"

section \<open>The listener\<close>

text \<open>
  \<^verbatim>\<open>Run\<close> reports on its channel whether the address could be bound, and serves it; the state
  is the address of the HTTP server, \<open>None\<close> before there is one. \<^verbatim>\<open>Close\<close> without one does
  nothing.
\<close>

definition admin_Run :: "(string \<Rightarrow> bool) \<Rightarrow> string \<Rightarrow> string option \<Rightarrow> bool \<times> string option" where
  "admin_Run free addr srv = (if \<not> free addr then (False, srv) else (True, Some addr))"

definition admin_Close :: "string option \<Rightarrow> string list \<Rightarrow> string list" where
  "admin_Close srv opened = (case srv of None \<Rightarrow> opened | Some a \<Rightarrow> filter (\<lambda>x. x \<noteq> a) opened)"

section \<open>Byte counts\<close>

text \<open>The units are powers of two, so the quotient is exact; \<^verbatim>\<open>%.1f\<close> rounds it, ties to even.\<close>

definition one_decimal :: "int \<Rightarrow> int \<Rightarrow> string" where
  "one_decimal n unit =
     (let t = div_even (10 * float64_of n) unit in itoa (t div 10) @ ''.'' @ itoa (t mod 10))"

definition humanBytes :: "u64 \<Rightarrow> string" where
  "humanBytes w =
     (let n = uint w; k = 1024 in
      if k * k * k * k \<le> n then one_decimal n (k * k * k * k) @ ''T''
      else if k * k * k \<le> n then one_decimal n (k * k * k) @ ''G''
      else if k * k \<le> n then one_decimal n (k * k) @ ''M''
      else if k \<le> n then one_decimal n k @ ''K''
      else itoa n @ ''B'')"

section \<open>The gate\<close>

lemma xor_zero: "(a :: u8) XOR b = 0 \<longleftrightarrow> a = b"
  by (auto simp: bit_eq_iff bit_simps)

lemma or_fold_zero:
  "fold (\<lambda>(c, d) v. v OR (of_char c XOR of_char d)) ps (v :: u8) = 0 \<longleftrightarrow>
     v = 0 \<and> (\<forall>(c, d) \<in> set ps. (of_char c :: u8) = of_char d)"
proof (induction ps arbitrary: v)
  case (Cons p ps)
  obtain c d where p: "p = (c, d)" by (cases p)
  have "v OR (of_char c XOR of_char d) = 0 \<longleftrightarrow> v = 0 \<and> (of_char c :: u8) = of_char d"
    by (simp add: or_eq_0_iff xor_zero)
  with Cons.IH show ?case by (auto simp: p)
qed simp

lemma of_char_u8: "(of_char c :: u8) = of_char d \<longleftrightarrow> c = d"
proof
  assume "(of_char c :: u8) = of_char d"
  then have "unat (of_nat (of_char c) :: u8) = unat (of_nat (of_char d) :: u8)" by (simp add: of_nat_of_char)
  then have "(of_char c :: nat) = of_char d" by (simp only: unsigned_of_nat take_bit_eq_mod) simp
  then show "c = d" by simp
qed simp

lemma ConstantTimeCompare_eq: "ConstantTimeCompare x y \<longleftrightarrow> x = y"
proof -
  have "(\<forall>(c, d) \<in> set (zip x y). c = d) \<longleftrightarrow> x = y" if "length x = length y"
    using that by (induction x y rule: list_induct2) auto
  then show ?thesis
    unfolding ConstantTimeCompare_def or_fold_zero of_char_u8 by (cases "length x = length y") auto
qed

lemma run_route_not_login: "run_route H J enc d rnd now a r h \<noteq> Some (LoginPage, a')"
  by (cases h)
    (auto simp: run_route_def pageOverview_def pageLive_def page_def pageWG_def apiStats_def apiClients_def apiWGStatus_def
      apiWGPeerCreate_def apiWGPeerDelete_def apiWGPeerToggle_def apiWGPeerConf_def apiWGPeerQR_def
      apiClientCreate_def apiClientDelete_def Let_def split: option.splits sum.splits prod.splits if_splits)

lemma admin_mux_not_login: "admin_mux H J enc d rnd now a r \<noteq> Some (LoginPage, a')"
  using run_route_not_login [of H J enc d rnd now a r]
  by (auto simp: admin_mux_def mux_find_def Let_def split: if_splits sum.splits option.splits)

text \<open>
  C12: The dashboard's gate lets a request through only with the configured token. A request gets
  the sign-in page exactly when no token is configured or the token it presents (in the header,
  else in the cookie, else in the query) differs from the configured one, and then nothing at all
  has changed: no store row, no state of the machine, not even the count of visits. In particular
  an empty token in the configuration admits no one.
\<close>
theorem admin_gate:
  "auth H J enc d rnd now a r = Some (LoginPage, a') \<longleftrightarrow>
     \<not> (dp_Token d \<noteq> '''' \<and> presented r = dp_Token d) \<and> a' = a"
proof -
  have "\<not> ConstantTimeCompare (presented r) (dp_Token d) \<longleftrightarrow> presented r \<noteq> dp_Token d"
    by (simp add: ConstantTimeCompare_eq)
  then show ?thesis
    using admin_mux_not_login [of H J enc d rnd now a r a'] by (auto simp: auth_def Let_def)
qed

section \<open>What the handlers keep\<close>

lemma vpn_store_cases:
  "RemovePeer H s st os i = (res, st', os') \<Longrightarrow> st' = DeleteWgPeer st i"
  "SetPeerActive H s st os i b = (res, st', os') \<Longrightarrow> st' = SetWgPeerActive st i b"
  by (auto simp: RemovePeer_def SetPeerActive_def Let_def split: if_splits prod.splits)

lemma AddPeer_wf:
  assumes "wf_store st" and "AddPeer H now s st os name ft cid = Some (res, st', os')"
  shows "wf_store st'"
  using assms AddPeer_run [of H now s st os name ft cid]
  by (cases res) (auto dest: wf_CreateWgPeer)

text \<open>Every request, whatever its route and its outcome, leaves the tables with their keys unique.\<close>

lemma admin_keeps_store:
  assumes "wf_store (as_Store a)" and "auth H J enc d rnd now a r = Some (resp, a')"
  shows "wf_store (as_Store a')"
proof -
  have "wf_store (as_Store a')" if "run_route H J enc d rnd now a r h = Some (resp, a')" for h
    using that assms(1)
    by (cases h)
      (auto simp: run_route_def pageOverview_def apiWGPeerCreate_def apiWGPeerDelete_def apiWGPeerToggle_def apiWGPeerConf_def
        apiWGPeerQR_def apiClientCreate_def apiClientDelete_def Let_def wf_DeleteClient wf_DeleteWgPeer wf_SetWgPeerActive
        split: option.splits sum.splits prod.splits if_splits dest: wf_CreateClient vpn_store_cases AddPeer_wf)
  with assms show ?thesis
    by (auto simp: auth_def admin_mux_def Let_def split: if_splits sum.splits)
qed

text \<open>
  Deleting the device with the number 0, which no device has, succeeds and erases the daily totals
  of the whole server.
\<close>

lemma delete_zero_erases_totals:
  "apiClientDelete a ''0'' = (NoContent, a\<lparr>as_Store := DeleteClient (as_Store a) 0\<rparr>) \<and>
     PerDay (DeleteClient (as_Store a) 0) since = []"
proof -
  have "go_Atoi ''0'' = Some 0" by code_simp
  moreover have "filter (\<lambda>((d, cid), _). cid = 0 \<and> utc_day since \<le> d) (st_day (DeleteClient (as_Store a) 0)) = []"
    by (auto simp: DeleteClient_def filter_empty_conv)
  ultimately show ?thesis by (simp add: apiClientDelete_def PerDay_def)
qed

text \<open>After a restart the dashboard shows each query of the past twice.\<close>

lemma human_bytes_examples:
  "humanBytes 1023 = ''1023B'' \<and> humanBytes 1536 = ''1.5K'' \<and> humanBytes 1048575 = ''1024.0K''"
  by code_simp

text \<open>After a restart the dashboard shows each query of the past twice.\<close>

lemma dashboard_counts_twice:
  "sv_QueriesTotal (stats (d\<lparr>dp_Live := NewMetrics t\<rparr>) now (RecordQuery 0 (Open False 0) 7 ''a.com.'' ''A'' False 0)) = 2"
proof -
  have "Totals (RecordQuery 0 (Open False 0) 7 ''a.com.'' ''A'' False 0) zero_time = (2, 0)" by code_simp
  then show ?thesis by (simp add: stats_def Let_def take_snapshot_def NewMetrics_def)
qed

end
