(* ===== verification/Dns_Msg.thy ===== *)
theory Dns_Msg
  imports Netip Matcher
begin

text \<open>
  DNS messages as \<^verbatim>\<open>internal/dns\<close> sees them through \<^verbatim>\<open>github.com/miekg/dns\<close>: the
  header fields, the question and the resource records whose Go types the sources distinguish.
  The functions of that package which the sources call are the fields of \<open>mdns_lib\<close>, parameters
  of the definitions that use them; what is relied on of them is stated where it is used.
  A message is a value here: \<^verbatim>\<open>Copy\<close> is the identity, and the sources never change a
  message after sharing it.
\<close>

section \<open>Messages\<close>

record RR_Header =
  hdr_Name :: string
  hdr_Rrtype :: u16
  hdr_Class :: u16
  hdr_Ttl :: u32

text \<open>
  Resource records; the address of an A or AAAA record is missing when its data is empty, and
  \<open>RROther\<close> is every type the sources do not look into.
\<close>

datatype RR =
    A RR_Header "u32 option"
  | AAAA RR_Header "128 word option"
  | CNAME RR_Header string
  | SOA RR_Header u32
  | OPT RR_Header
  | RROther RR_Header bytes

fun rr_Header :: "RR \<Rightarrow> RR_Header" where
  "rr_Header (A h _) = h"
| "rr_Header (AAAA h _) = h"
| "rr_Header (CNAME h _) = h"
| "rr_Header (SOA h _) = h"
| "rr_Header (OPT h) = h"
| "rr_Header (RROther h _) = h"

fun rr_SetTtl :: "u32 \<Rightarrow> RR \<Rightarrow> RR" where
  "rr_SetTtl t (A h a) = A (h\<lparr>hdr_Ttl := t\<rparr>) a"
| "rr_SetTtl t (AAAA h a) = AAAA (h\<lparr>hdr_Ttl := t\<rparr>) a"
| "rr_SetTtl t (CNAME h n) = CNAME (h\<lparr>hdr_Ttl := t\<rparr>) n"
| "rr_SetTtl t (SOA h m) = SOA (h\<lparr>hdr_Ttl := t\<rparr>) m"
| "rr_SetTtl t (OPT h) = OPT (h\<lparr>hdr_Ttl := t\<rparr>)"
| "rr_SetTtl t (RROther h d) = RROther (h\<lparr>hdr_Ttl := t\<rparr>) d"

fun isOPT :: "RR \<Rightarrow> bool" where
  "isOPT (OPT _) = True"
| "isOPT _ = False"

record dns_Question =
  q_Name :: string
  q_Qtype :: u16
  q_Qclass :: u16

record Msg =
  msg_Id :: u16
  msg_Response :: bool
  msg_Opcode :: int
  msg_Authoritative :: bool
  msg_Truncated :: bool
  msg_RecursionDesired :: bool
  msg_RecursionAvailable :: bool
  msg_AuthenticatedData :: bool
  msg_CheckingDisabled :: bool
  msg_Rcode :: int
  msg_Question :: "dns_Question list"
  msg_Answer :: "RR list"
  msg_Ns :: "RR list"
  msg_Extra :: "RR list"

abbreviation (input) RcodeSuccess :: int where "RcodeSuccess \<equiv> 0"
abbreviation (input) RcodeServerFailure :: int where "RcodeServerFailure \<equiv> 2"
abbreviation (input) RcodeNameError :: int where "RcodeNameError \<equiv> 3"
abbreviation (input) TypeA :: u16 where "TypeA \<equiv> 1"
abbreviation (input) TypeNS :: u16 where "TypeNS \<equiv> 2"
abbreviation (input) TypeCNAME :: u16 where "TypeCNAME \<equiv> 5"
abbreviation (input) TypeAAAA :: u16 where "TypeAAAA \<equiv> 28"
abbreviation (input) ClassINET :: u16 where "ClassINET \<equiv> 1"

definition empty_msg :: Msg where
  "empty_msg =
     \<lparr>msg_Id = 0, msg_Response = False, msg_Opcode = 0, msg_Authoritative = False,
      msg_Truncated = False, msg_RecursionDesired = False, msg_RecursionAvailable = False,
      msg_AuthenticatedData = False, msg_CheckingDisabled = False, msg_Rcode = RcodeSuccess,
      msg_Question = [], msg_Answer = [], msg_Ns = [], msg_Extra = []\<rparr>"

section \<open>The package's functions\<close>

text \<open>
  \<^verbatim>\<open>Type.String\<close>, \<^verbatim>\<open>Msg.IsEdns0\<close>, \<^verbatim>\<open>OPT.Do\<close>, \<^verbatim>\<open>SetReply\<close> and
  \<^verbatim>\<open>SetQuestion\<close> on a new message (the latter with the random identifier it draws),
  \<^verbatim>\<open>Fqdn\<close>, \<^verbatim>\<open>Pack\<close>, \<^verbatim>\<open>Unpack\<close> into a new message, and the reply that
  \<^verbatim>\<open>HandleFailed\<close> writes.
\<close>

record mdns_lib =
  typeString :: "u16 \<Rightarrow> string"
  isEdns0 :: "Msg \<Rightarrow> RR option"
  optDo :: "RR \<Rightarrow> bool"
  setReply :: "Msg \<Rightarrow> Msg"
  setQuestion :: "u16 \<Rightarrow> string \<Rightarrow> u16 \<Rightarrow> Msg"
  mdnsFqdn :: "string \<Rightarrow> string"
  msgPack :: "Msg \<Rightarrow> bytes option"
  msgUnpack :: "bytes \<Rightarrow> Msg option"
  failedReply :: "Msg \<Rightarrow> Msg"

text \<open>
  A concrete instance, for evaluating the model: messages with one question whose wire form is
  the question's name.
\<close>

definition tiny_mdns :: mdns_lib where
  "tiny_mdns =
     \<lparr>typeString = (\<lambda>t. if t = TypeA then ''A'' else if t = TypeAAAA then ''AAAA'' else ''TYPE'' @ itoa (uint t)),
      isEdns0 = (\<lambda>m. find isOPT (msg_Extra m)),
      optDo = (\<lambda>rr. False),
      setReply = (\<lambda>r. empty_msg\<lparr>msg_Id := msg_Id r, msg_Response := True, msg_Opcode := msg_Opcode r,
                    msg_RecursionDesired := msg_RecursionDesired r, msg_Question := take 1 (msg_Question r)\<rparr>),
      setQuestion = (\<lambda>i n t. empty_msg\<lparr>msg_Id := i, msg_RecursionDesired := True,
                    msg_Question := [\<lparr>q_Name = n, q_Qtype = t, q_Qclass = ClassINET\<rparr>]\<rparr>),
      mdnsFqdn = (\<lambda>s. if suffix ''.'' s then s else s @ ''.''),
      msgPack = (\<lambda>m. case msg_Question m of [] \<Rightarrow> None | q # _ \<Rightarrow> Some (q_Name q)),
      msgUnpack = (\<lambda>b. Some (empty_msg\<lparr>msg_Question := [\<lparr>q_Name = b, q_Qtype = TypeA, q_Qclass = ClassINET\<rparr>]\<rparr>)),
      failedReply = (\<lambda>r. empty_msg\<lparr>msg_Id := msg_Id r, msg_Response := True,
                    msg_Rcode := RcodeServerFailure, msg_Question := msg_Question r\<rparr>)\<rparr>"

definition ask :: "u16 \<Rightarrow> string \<Rightarrow> u16 \<Rightarrow> Msg" where
  "ask i n t = empty_msg\<lparr>msg_Id := i, msg_RecursionDesired := True,
     msg_Question := [\<lparr>q_Name = n, q_Qtype = t, q_Qclass = ClassINET\<rparr>]\<rparr>"

section \<open>Lemmas\<close>

lemma rr_Header_SetTtl [simp]: "rr_Header (rr_SetTtl t rr) = (rr_Header rr)\<lparr>hdr_Ttl := t\<rparr>"
  by (cases rr) auto

lemma isOPT_SetTtl [simp]: "isOPT (rr_SetTtl t rr) = isOPT rr"
  by (cases rr) auto

lemma rr_SetTtl_SetTtl [simp]: "rr_SetTtl t (rr_SetTtl u rr) = rr_SetTtl t rr"
  by (cases rr) auto

end
