(* ===== verification/Reply_Cache.thy ===== *)
theory Reply_Cache
  imports Dns_Msg
begin

text \<open>
  The reply cache, \<^verbatim>\<open>src/internal/dns/cache.go\<close>: an LRU list of entries with a map from
  cache keys to list elements, a freshness and a stale deadline per entry, and the TTL clamp.
  \<^verbatim>\<open>container/list\<close> is modelled with the identity of its elements, since the map holds
  pointers to them. Every operation runs under the cache's mutex and is one step; the current
  time is an argument. Indexing an empty question section panics, which is \<open>None\<close>.
\<close>

section \<open>State and operations\<close>

record cacheEntry =
  ce_msg :: Msg
  ce_valid :: time
  ce_stale :: time

text \<open>\<^verbatim>\<open>entryWrap\<close> inside the list element that holds it.\<close>

record entryWrap =
  el_id :: nat
  ew_key :: string
  ew_e :: cacheEntry

record replyCache =
  rc_size :: int
  rc_staleFor :: duration
  rc_items :: "(string, nat) gomap"
  rc_order :: "entryWrap list"
  rc_next :: nat
  rc_hits :: u64
  rc_misses :: u64
  rc_stales :: u64

definition newReplyCache :: "int \<Rightarrow> duration \<Rightarrow> replyCache" where
  "newReplyCache sz staleFor =
     (let sz = (if sz < 1024 then 1024 else sz) in
      \<lparr>rc_size = sz, rc_staleFor = staleFor, rc_items = [], rc_order = [], rc_next = 0,
       rc_hits = 0, rc_misses = 0, rc_stales = 0\<rparr>)"

definition cacheKey :: "name_lib \<Rightarrow> mdns_lib \<Rightarrow> Msg \<Rightarrow> string option" where
  "cacheKey L D q =
     (case msg_Question q of
        [] \<Rightarrow> None
      | qu # _ \<Rightarrow>
          let do = (case isEdns0 D q of None \<Rightarrow> False | Some opt \<Rightarrow> optDo D opt);
              name = go_ToLower (uniLower L) (q_Name qu)
          in Some (name @ ''|'' @ typeString D (q_Qtype qu) @ ''|'' @ (if do then ''1'' else ''0'')))"

text \<open>\<^verbatim>\<open>list.Remove\<close> and \<^verbatim>\<open>list.MoveToFront\<close> on an element given by its identity.\<close>

definition list_Remove :: "nat \<Rightarrow> entryWrap list \<Rightarrow> entryWrap list" where
  "list_Remove i xs = filter (\<lambda>el. el_id el \<noteq> i) xs"

definition list_MoveToFront :: "nat \<Rightarrow> entryWrap list \<Rightarrow> entryWrap list" where
  "list_MoveToFront i xs = filter (\<lambda>el. el_id el = i) xs @ list_Remove i xs"

definition cache_get ::
  "name_lib \<Rightarrow> mdns_lib \<Rightarrow> time \<Rightarrow> replyCache \<Rightarrow> Msg
     \<Rightarrow> ((Msg option \<times> bool \<times> bool) \<times> replyCache) option" where
  "cache_get L D now c q =
     (case cacheKey L D q of
        None \<Rightarrow> None
      | Some key \<Rightarrow>
          (case map_of (rc_items c) key of
             None \<Rightarrow> Some ((None, False, False), c\<lparr>rc_misses := rc_misses c + 1\<rparr>)
           | Some el \<Rightarrow>
               let c = c\<lparr>rc_order := list_MoveToFront el (rc_order c)\<rparr> in
               (case find (\<lambda>w. el_id w = el) (rc_order c) of
                  None \<Rightarrow> None
                | Some w \<Rightarrow>
                    let e = ew_e w in
                    if now < ce_valid e then
                      Some ((Some (ce_msg e), True, True), c\<lparr>rc_hits := rc_hits c + 1\<rparr>)
                    else if now < ce_stale e then
                      Some ((Some (ce_msg e), False, True), c\<lparr>rc_stales := rc_stales c + 1\<rparr>)
                    else
                      Some ((None, False, False),
                        c\<lparr>rc_order := list_Remove el (rc_order c),
                          rc_items := AList.delete key (rc_items c),
                          rc_misses := rc_misses c + 1\<rparr>))))"

definition drop_key :: "string \<Rightarrow> replyCache \<Rightarrow> replyCache" where
  "drop_key key c =
     (case map_of (rc_items c) key of
        None \<Rightarrow> c
      | Some el \<Rightarrow> c\<lparr>rc_order := list_Remove el (rc_order c), rc_items := AList.delete key (rc_items c)\<rparr>)"

definition evict_oldest :: "replyCache \<Rightarrow> replyCache" where
  "evict_oldest c =
     (if rc_size c \<le> int (length (rc_items c)) \<and> rc_order c \<noteq> [] then
        let oldest = last (rc_order c) in
        c\<lparr>rc_items := AList.delete (ew_key oldest) (rc_items c),
          rc_order := list_Remove (el_id oldest) (rc_order c)\<rparr>
      else c)"

definition cache_put ::
  "name_lib \<Rightarrow> mdns_lib \<Rightarrow> time \<Rightarrow> replyCache \<Rightarrow> Msg \<Rightarrow> Msg \<Rightarrow> duration \<Rightarrow> replyCache option" where
  "cache_put L D now c q m ttfresh =
     (case cacheKey L D q of
        None \<Rightarrow> None
      | Some key \<Rightarrow>
          let c = evict_oldest (drop_key key c);
              w = \<lparr>el_id = rc_next c, ew_key = key,
                   ew_e = \<lparr>ce_msg = m, ce_valid = now + ttfresh, ce_stale = now + (ttfresh + rc_staleFor c)\<rparr>\<rparr>
          in Some (c\<lparr>rc_order := w # rc_order c, rc_items := AList.update key (rc_next c) (rc_items c),
                     rc_next := rc_next c + 1\<rparr>))"

section \<open>The TTL clamp\<close>

text \<open>The least positive TTL of the answers, zero when there is none.\<close>

definition ttl_step :: "RR \<Rightarrow> duration \<Rightarrow> duration" where
  "ttl_step rr base =
     (let t = uint (hdr_Ttl (rr_Header rr)) * Second in
      if 0 < hdr_Ttl (rr_Header rr) \<and> (base = 0 \<or> t < base) then t else base)"

definition min_answer :: "RR list \<Rightarrow> duration" where
  "min_answer rrs = fold ttl_step rrs 0"

fun soa_min :: "RR list \<Rightarrow> duration" where
  "soa_min [] = 0"
| "soa_min (SOA h minttl # rrs) = uint minttl * Second"
| "soa_min (rr # rrs) = soa_min rrs"

definition set_ttls :: "u32 \<Rightarrow> RR list \<Rightarrow> RR list" where
  "set_ttls ttl rrs = map (\<lambda>rr. if isOPT rr then rr else rr_SetTtl ttl rr) rrs"

definition clampTTLs :: "Msg \<Rightarrow> duration \<Rightarrow> duration \<Rightarrow> duration \<times> Msg" where
  "clampTTLs m mn mx =
     (let mn = (if mn \<le> 0 then 30 * Second else mn);
          mx = (if mx \<le> 0 \<or> mx < mn then 24 * Hour else mx);
          base = min_answer (msg_Answer m);
          base = (if base = 0 then soa_min (msg_Ns m) else base);
          base = (if base = 0 then 300 * Second else base);
          base = (if base < mn then mn else base);
          base = (if mx < base then mx else base);
          ttl = of_int (base div Second)
      in (base, m\<lparr>msg_Answer := set_ttls ttl (msg_Answer m), msg_Ns := set_ttls ttl (msg_Ns m),
                  msg_Extra := set_ttls ttl (msg_Extra m)\<rparr>))"

section \<open>The abstract cache: a recency list of keyed entries\<close>

type_synonym lru = "(string \<times> cacheEntry) list"

definition lru_drop :: "string \<Rightarrow> lru \<Rightarrow> lru" where
  "lru_drop k xs = filter (\<lambda>p. fst p \<noteq> k) xs"

definition lru_get :: "time \<Rightarrow> string \<Rightarrow> lru \<Rightarrow> (Msg option \<times> bool \<times> bool) \<times> lru" where
  "lru_get now k xs =
     (case map_of xs k of
        None \<Rightarrow> ((None, False, False), xs)
      | Some e \<Rightarrow>
          if now < ce_valid e then ((Some (ce_msg e), True, True), (k, e) # lru_drop k xs)
          else if now < ce_stale e then ((Some (ce_msg e), False, True), (k, e) # lru_drop k xs)
          else ((None, False, False), lru_drop k xs))"

definition lru_put :: "int \<Rightarrow> string \<Rightarrow> cacheEntry \<Rightarrow> lru \<Rightarrow> lru" where
  "lru_put sz k e xs =
     (let ys = lru_drop k xs in
      (k, e) # (if sz \<le> int (length ys) then butlast ys else ys))"

definition lru_of :: "replyCache \<Rightarrow> lru" where
  "lru_of c = map (\<lambda>w. (ew_key w, ew_e w)) (rc_order c)"

definition entry_for :: "replyCache \<Rightarrow> time \<Rightarrow> Msg \<Rightarrow> duration \<Rightarrow> cacheEntry" where
  "entry_for c now m ttl =
     \<lparr>ce_msg = m, ce_valid = now + ttl, ce_stale = now + (ttl + rc_staleFor c)\<rparr>"

section \<open>The representation invariant\<close>

definition wf_cache :: "replyCache \<Rightarrow> bool" where
  "wf_cache c \<longleftrightarrow>
     1 \<le> rc_size c
     \<and> int (length (rc_order c)) \<le> rc_size c
     \<and> distinct (map fst (rc_items c))
     \<and> distinct (map el_id (rc_order c))
     \<and> distinct (map ew_key (rc_order c))
     \<and> (\<forall>w \<in> set (rc_order c). el_id w < rc_next c)
     \<and> set (rc_items c) = (\<lambda>w. (ew_key w, el_id w)) ` set (rc_order c)"

lemma wf_cache_length:
  assumes "wf_cache c"
  shows "length (rc_items c) = length (rc_order c)"
proof -
  have "set (map fst (rc_items c)) = set (map ew_key (rc_order c))"
    using assms unfolding wf_cache_def by (simp add: image_image)
  then show ?thesis
    using assms distinct_card [of "map fst (rc_items c)"] distinct_card [of "map ew_key (rc_order c)"]
    unfolding wf_cache_def by (metis length_map)
qed

lemma wf_cache_item:
  assumes "wf_cache c"
  shows "map_of (rc_items c) k = Some i \<longleftrightarrow> (\<exists>w \<in> set (rc_order c). ew_key w = k \<and> el_id w = i)"
  using assms unfolding wf_cache_def by (auto simp: map_of_eq_Some_iff)

lemma wf_cache_no_item:
  assumes "wf_cache c"
  shows "map_of (rc_items c) k = None \<longleftrightarrow> (\<forall>w \<in> set (rc_order c). ew_key w \<noteq> k)"
  using wf_cache_item [OF assms, of k] by (metis not_None_eq)

lemma same_element:
  assumes "wf_cache c" and "w \<in> set (rc_order c)" and "v \<in> set (rc_order c)"
  shows "el_id w = el_id v \<longleftrightarrow> ew_key w = ew_key v"
  using assms unfolding wf_cache_def by (auto simp: distinct_map dest: inj_onD)

lemma Remove_by_key:
  assumes "wf_cache c" and "w \<in> set (rc_order c)"
  shows "list_Remove (el_id w) (rc_order c) = filter (\<lambda>v. ew_key v \<noteq> ew_key w) (rc_order c)"
  unfolding list_Remove_def by (rule filter_cong) (use same_element [OF assms(1) _ assms(2)] in auto)

lemma wf_find:
  assumes "wf_cache c" and "w \<in> set (rc_order c)"
  shows "list_MoveToFront (el_id w) (rc_order c) = w # filter (\<lambda>v. ew_key v \<noteq> ew_key w) (rc_order c)"
  using assms filter_distinct_map [of el_id "rc_order c" w]
  by (simp add: list_MoveToFront_def Remove_by_key) (simp add: wf_cache_def)

lemma map_of_lru: "map_of (lru_of c) k = map_option ew_e (find (\<lambda>w. ew_key w = k) (rc_order c))"
  unfolding lru_of_def by (rule map_of_map_find)

lemma lru_of_filter:
  "map (\<lambda>w. (ew_key w, ew_e w)) (filter (\<lambda>v. ew_key v \<noteq> k) (rc_order c)) = lru_drop k (lru_of c)"
  by (simp add: lru_of_def lru_drop_def filter_map comp_def)

lemma wf_cache_shrink:
  assumes "wf_cache c"
    and "rc_order c' = filter (\<lambda>v. ew_key v \<noteq> k) (rc_order c)"
    and "rc_items c' = AList.delete k (rc_items c)"
    and "rc_size c' = rc_size c" and "rc_next c' = rc_next c"
  shows "wf_cache c'"
proof -
  have "set (AList.delete k (rc_items c)) = {p \<in> set (rc_items c). fst p \<noteq> k}"
    by (auto simp: AList.delete_eq)
  then have "set (rc_items c') = (\<lambda>w. (ew_key w, el_id w)) ` set (rc_order c')"
    using assms(1) unfolding wf_cache_def assms(2,3) by auto
  moreover have "length (rc_order c') \<le> length (rc_order c)"
    unfolding assms(2) by (rule length_filter_le)
  moreover have "distinct (map el_id (rc_order c'))" "distinct (map ew_key (rc_order c'))"
    using assms(1) unfolding wf_cache_def assms(2) by (simp_all add: distinct_map_filter)
  moreover have "distinct (map fst (rc_items c'))"
    using assms(1) unfolding wf_cache_def assms(3) by (simp add: AList.distinct_delete)
  moreover have "set (rc_order c') \<subseteq> set (rc_order c)" unfolding assms(2) by simp
  ultimately show ?thesis
    using assms(1) unfolding wf_cache_def assms(4,5) by (simp add: subset_iff)
qed

lemma wf_cache_touch:
  assumes "wf_cache c" and "w \<in> set (rc_order c)"
    and "rc_order c' = w # filter (\<lambda>v. ew_key v \<noteq> ew_key w) (rc_order c)"
    and "rc_items c' = rc_items c" and "rc_size c' = rc_size c" and "rc_next c' = rc_next c"
  shows "wf_cache c'"
proof -
  let ?f = "filter (\<lambda>v. ew_key v \<noteq> ew_key w) (rc_order c)"
  have set: "set (w # ?f) = set (rc_order c)"
    using assms(1,2) same_element [OF assms(1,2)] by (auto simp: wf_cache_def distinct_map dest: inj_onD)
  have "length ?f < length (rc_order c)"
    using assms(2) by (intro length_filter_less) auto
  moreover have "distinct (map el_id (w # ?f))"
    using assms(1,2) same_element [OF assms(1,2)]
    by (auto simp: wf_cache_def distinct_map_filter image_iff) 
  moreover have "distinct (map ew_key (w # ?f))"
    using assms(1) by (auto simp: wf_cache_def distinct_map_filter)
  ultimately show ?thesis
    using assms(1) set unfolding wf_cache_def assms(3-) by simp
qed

section \<open>The operations refine the abstract cache\<close>

lemma cache_get_refines:
  assumes wf: "wf_cache c" and key: "cacheKey L D q = Some k"
  shows "\<exists>r c'. cache_get L D now c q = Some (r, c') \<and> lru_get now k (lru_of c) = (r, lru_of c')
    \<and> wf_cache c' \<and> rc_size c' = rc_size c \<and> rc_staleFor c' = rc_staleFor c"
proof (cases "map_of (rc_items c) k")
  case None
  then have "find (\<lambda>w. ew_key w = k) (rc_order c) = None"
    using wf_cache_no_item [OF wf] by (simp add: find_None_iff)
  then have "map_of (lru_of c) k = None" by (simp add: map_of_lru)
  moreover have "lru_of (c\<lparr>rc_misses := n\<rparr>) = lru_of c" "wf_cache (c\<lparr>rc_misses := n\<rparr>)" for n
    using wf by (simp_all add: lru_of_def wf_cache_def)
  ultimately show ?thesis using None key by (auto simp: cache_get_def lru_get_def)
next
  case (Some i)
  then obtain w where w: "w \<in> set (rc_order c)" "ew_key w = k" "el_id w = i"
    using wf_cache_item [OF wf] by blast
  have mv: "list_MoveToFront i (rc_order c) = w # filter (\<lambda>v. ew_key v \<noteq> k) (rc_order c)"
    using wf_find [OF wf w(1)] w by simp
  have rm: "list_Remove i (w # filter (\<lambda>v. ew_key v \<noteq> k) (rc_order c)) = filter (\<lambda>v. ew_key v \<noteq> k) (rc_order c)"
    using same_element [OF wf _ w(1)] w by (auto simp: list_Remove_def intro!: filter_cong)
  have "find (\<lambda>v. ew_key v = k) (rc_order c) = Some w"
    using wf w find_distinct_map [of ew_key "rc_order c" w] by (simp add: wf_cache_def)
  then have look: "map_of (lru_of c) k = Some (ew_e w)" by (simp add: map_of_lru)
  show ?thesis
    using Some key look w lru_of_filter [of k c] wf_cache_touch [OF wf w(1)] wf_cache_shrink [OF wf, of _ k]
    by (simp add: cache_get_def lru_get_def mv rm lru_of_def) auto
qed

lemma drop_key_refines:
  assumes wf: "wf_cache c"
  shows "wf_cache (drop_key k c) \<and> lru_of (drop_key k c) = lru_drop k (lru_of c)"
proof (cases "map_of (rc_items c) k")
  case None
  then show ?thesis using wf wf_cache_no_item [OF wf, of k]
    by (auto simp: drop_key_def lru_drop_def lru_of_def intro!: filter_True [symmetric])
next
  case (Some i)
  then obtain w where w: "w \<in> set (rc_order c)" "ew_key w = k" "el_id w = i"
    using wf_cache_item [OF wf] by blast
  then show ?thesis
    using Some Remove_by_key [OF wf w(1)] lru_of_filter [of k c] wf_cache_shrink [OF wf, of _ k]
    by (simp add: drop_key_def lru_of_def)
qed

lemma evict_refines:
  assumes wf: "wf_cache c"
  shows "wf_cache (evict_oldest c) \<and> int (length (rc_order (evict_oldest c))) < rc_size c
    \<and> lru_of (evict_oldest c) =
        (if rc_size c \<le> int (length (lru_of c)) then butlast (lru_of c) else lru_of c)"
proof (cases "rc_size c \<le> int (length (rc_items c)) \<and> rc_order c \<noteq> []")
  case False
  then show ?thesis using wf wf_cache_length [OF wf]
    by (auto simp: evict_oldest_def lru_of_def wf_cache_def)
next
  case True
  then obtain xs w where xs: "rc_order c = xs @ [w]" by (metis rev_exhaust)
  then have w: "w \<in> set (rc_order c)" by simp
  have "list_Remove (el_id w) (rc_order c) = filter (\<lambda>v. ew_key v \<noteq> ew_key w) (rc_order c)"
    by (rule Remove_by_key [OF wf w])
  moreover have "\<forall>v \<in> set xs. ew_key v \<noteq> ew_key w"
    using wf xs by (auto simp: wf_cache_def distinct_map image_iff)
  ultimately have rm: "list_Remove (el_id w) (rc_order c) = xs"
    and sh: "filter (\<lambda>v. ew_key v \<noteq> ew_key w) (rc_order c) = xs"
    using xs by simp_all
  have ev: "evict_oldest c = c\<lparr>rc_items := AList.delete (ew_key w) (rc_items c), rc_order := xs\<rparr>"
    using True rm xs by (simp add: evict_oldest_def)
  have "wf_cache (evict_oldest c)" unfolding ev
    by (rule wf_cache_shrink [OF wf, of _ "ew_key w"]) (simp_all add: sh)
  moreover have "int (length (rc_order c)) \<le> rc_size c" using wf by (simp add: wf_cache_def)
  ultimately show ?thesis
    using True xs wf_cache_length [OF wf] ev by (simp add: lru_of_def butlast_append)
qed

lemma drop_evict_frame [simp]:
  "rc_size (drop_key k c) = rc_size c" "rc_size (evict_oldest c) = rc_size c"
  "rc_staleFor (drop_key k c) = rc_staleFor c" "rc_staleFor (evict_oldest c) = rc_staleFor c"
  by (auto simp: drop_key_def evict_oldest_def Let_def split: option.split)

lemma wf_cache_push:
  assumes wf: "wf_cache c" and room: "int (length (rc_order c)) < rc_size c"
    and new: "k \<notin> ew_key ` set (rc_order c)"
    and "rc_order c' = \<lparr>el_id = rc_next c, ew_key = k, ew_e = e\<rparr> # rc_order c"
    and "rc_items c' = AList.update k (rc_next c) (rc_items c)"
    and "rc_size c' = rc_size c" and "rc_next c' = rc_next c + 1"
  shows "wf_cache c'"
proof -
  have "set (rc_items c') = (\<lambda>w. (ew_key w, el_id w)) ` set (rc_order c')"
    using wf new unfolding wf_cache_def assms(4,5) by (auto simp: set_update_distinct)
  moreover have "distinct (map fst (rc_items c'))"
    using wf unfolding wf_cache_def assms(5) by (simp add: distinct_keys_update)
  moreover have "distinct (map el_id (rc_order c'))" "distinct (map ew_key (rc_order c'))"
    using wf new unfolding wf_cache_def assms(4) by auto
  ultimately show ?thesis
    using wf room unfolding wf_cache_def assms(4,6,7) by (auto intro: less_SucI)
qed

lemma cache_put_refines:
  assumes wf: "wf_cache c" and key: "cacheKey L D q = Some k"
  shows "\<exists>c'. cache_put L D now c q m ttl = Some c'
    \<and> lru_of c' = lru_put (rc_size c) k (entry_for c now m ttl) (lru_of c)
    \<and> wf_cache c' \<and> rc_size c' = rc_size c \<and> rc_staleFor c' = rc_staleFor c"
proof -
  let ?d = "drop_key k c"
  let ?e = "evict_oldest ?d"
  have d: "wf_cache ?d" "lru_of ?d = lru_drop k (lru_of c)"
    using drop_key_refines [OF wf] by simp_all
  note e = evict_refines [OF d(1)]
  have "fst ` set (lru_of ?e) \<subseteq> fst ` set (lru_drop k (lru_of c))"
    using e d(2) by (auto dest: in_set_butlastD split: if_splits)
  then have "k \<notin> fst ` set (lru_of ?e)" by (auto simp: lru_drop_def)
  then have new: "k \<notin> ew_key ` set (rc_order ?e)"
    by (simp add: lru_of_def image_image)
  let ?w = "\<lparr>el_id = rc_next ?e, ew_key = k, ew_e = entry_for c now m ttl\<rparr>"
  let ?c = "?e\<lparr>rc_order := ?w # rc_order ?e, rc_items := AList.update k (rc_next ?e) (rc_items ?e),
    rc_next := rc_next ?e + 1\<rparr>"
  have "cache_put L D now c q m ttl = Some ?c"
    using key by (simp add: cache_put_def entry_for_def Let_def)
  moreover have "wf_cache ?c"
    by (rule wf_cache_push [OF _ _ new, of _ "entry_for c now m ttl"]) (use e in simp_all)
  moreover have "lru_of ?c = (k, entry_for c now m ttl) # lru_of ?e"
    by (simp add: lru_of_def)
  ultimately show ?thesis using e d(2) by (simp add: lru_put_def)
qed

section \<open>Sequences of operations\<close>

datatype cop = CGet time Msg | CPut time Msg Msg duration

fun cop_msg :: "cop \<Rightarrow> Msg" where
  "cop_msg (CGet _ q) = q"
| "cop_msg (CPut _ q _ _) = q"

text \<open>The answers of the lookups in order, and the final cache; \<open>None\<close> after a panic.\<close>

fun cache_run ::
  "name_lib \<Rightarrow> mdns_lib \<Rightarrow> replyCache \<Rightarrow> cop list \<Rightarrow> ((Msg option \<times> bool \<times> bool) list \<times> replyCache) option" where
  "cache_run L D c [] = Some ([], c)"
| "cache_run L D c (CGet now q # ops) =
     (case cache_get L D now c q of
        None \<Rightarrow> None
      | Some (r, c') \<Rightarrow> map_option (\<lambda>(rs, c''). (r # rs, c'')) (cache_run L D c' ops))"
| "cache_run L D c (CPut now q m ttl # ops) =
     (case cache_put L D now c q m ttl of None \<Rightarrow> None | Some c' \<Rightarrow> cache_run L D c' ops)"

fun lru_run :: "name_lib \<Rightarrow> mdns_lib \<Rightarrow> int \<Rightarrow> duration \<Rightarrow> lru \<Rightarrow> cop list \<Rightarrow> (Msg option \<times> bool \<times> bool) list \<times> lru" where
  "lru_run L D sz st xs [] = ([], xs)"
| "lru_run L D sz st xs (CGet now q # ops) =
     (let (r, xs') = lru_get now (the (cacheKey L D q)) xs; (rs, xs'') = lru_run L D sz st xs' ops
      in (r # rs, xs''))"
| "lru_run L D sz st xs (CPut now q m ttl # ops) =
     lru_run L D sz st
       (lru_put sz (the (cacheKey L D q)) \<lparr>ce_msg = m, ce_valid = now + ttl, ce_stale = now + (ttl + st)\<rparr> xs) ops"

lemma cacheKey_Some: "msg_Question q \<noteq> [] \<longleftrightarrow> (\<exists>k. cacheKey L D q = Some k)"
  by (cases "msg_Question q") (auto simp: cacheKey_def Let_def)

lemma cache_run_refines:
  assumes "wf_cache c" and "\<forall>p \<in> set ops. msg_Question (cop_msg p) \<noteq> []"
  shows "\<exists>rs c'. cache_run L D c ops = Some (rs, c')
    \<and> lru_run L D (rc_size c) (rc_staleFor c) (lru_of c) ops = (rs, lru_of c')
    \<and> wf_cache c' \<and> rc_size c' = rc_size c \<and> rc_staleFor c' = rc_staleFor c"
  using assms
proof (induction ops arbitrary: c)
  case (Cons p ops)
  then obtain k where k: "cacheKey L D (cop_msg p) = Some k"
    using cacheKey_Some by (metis list.set_intros(1))
  show ?case
  proof (cases p)
    case (CGet now q)
    then obtain r c' where "cache_get L D now c q = Some (r, c')"
      "lru_get now k (lru_of c) = (r, lru_of c')" "wf_cache c'"
      "rc_size c' = rc_size c" "rc_staleFor c' = rc_staleFor c"
      using cache_get_refines [OF Cons.prems(1), of L D q k now] k by auto
    then show ?thesis using CGet k Cons.IH [of c'] Cons.prems(2) by auto
  next
    case (CPut now q m ttl)
    then obtain c' where "cache_put L D now c q m ttl = Some c'"
      "lru_of c' = lru_put (rc_size c) k (entry_for c now m ttl) (lru_of c)" "wf_cache c'"
      "rc_size c' = rc_size c" "rc_staleFor c' = rc_staleFor c"
      using cache_put_refines [OF Cons.prems(1), of L D q k now m ttl] k by auto
    then show ?thesis using CPut k Cons.IH [of c'] Cons.prems(2) by (auto simp: entry_for_def)
  qed
qed simp

lemma wf_newReplyCache [simp]: "wf_cache (newReplyCache sz st)"
  by (simp add: newReplyCache_def wf_cache_def Let_def)

lemma newReplyCache_sel [simp]:
  "lru_of (newReplyCache sz st) = []" "rc_size (newReplyCache sz st) = max 1024 sz"
  "rc_staleFor (newReplyCache sz st) = st"
  by (simp_all add: newReplyCache_def lru_of_def Let_def)

section \<open>Recency protects an entry\<close>

definition behind :: "string set \<Rightarrow> string \<Rightarrow> cacheEntry \<Rightarrow> lru \<Rightarrow> bool" where
  "behind T k e xs \<longleftrightarrow> distinct (map fst xs) \<and>
     (\<exists>ys zs. xs = ys @ (k, e) # zs \<and> fst ` set ys \<subseteq> T)"

lemma distinct_lru_drop [simp]: "distinct (map fst xs) \<Longrightarrow> distinct (map fst (lru_drop k xs))"
  by (simp add: lru_drop_def distinct_map_filter)

lemma behind_cons:
  assumes "behind T k e xs" and "k' \<in> T" and "k \<notin> T"
  shows "behind (T - {k'}) k e (lru_drop k' xs)" and "behind T k e ((k', e') # lru_drop k' xs)"
proof -
  obtain ys zs where xs: "xs = ys @ (k, e) # zs" "fst ` set ys \<subseteq> T" "distinct (map fst xs)"
    using assms(1) by (auto simp: behind_def)
  have neq: "k \<noteq> k'" using assms(2,3) by blast
  then have d: "lru_drop k' xs = lru_drop k' ys @ (k, e) # lru_drop k' zs"
    using xs(1) by (simp add: lru_drop_def)
  have s: "fst ` set (lru_drop k' ys) \<subseteq> T - {k'}" using xs(2) by (auto simp: lru_drop_def)
  then show "behind (T - {k'}) k e (lru_drop k' xs)"
    using d distinct_lru_drop [OF xs(3)] unfolding behind_def by blast
  have "(k', e') # lru_drop k' xs = ((k', e') # lru_drop k' ys) @ (k, e) # lru_drop k' zs"
    using d by simp
  moreover have "distinct (map fst ((k', e') # lru_drop k' xs))"
    using distinct_lru_drop [OF xs(3)] by (auto simp: lru_drop_def)
  moreover have "fst ` set ((k', e') # lru_drop k' ys) \<subseteq> T" using s assms(2) by auto
  ultimately show "behind T k e ((k', e') # lru_drop k' xs)" unfolding behind_def by blast
qed

lemma behind_butlast:
  assumes "behind T k e xs" and "finite T" and "Suc (card T) < length xs"
  shows "behind T k e (butlast xs)"
proof -
  obtain ys zs where xs: "xs = ys @ (k, e) # zs" "fst ` set ys \<subseteq> T" "distinct (map fst xs)"
    using assms(1) by (auto simp: behind_def)
  have "length ys = card (fst ` set ys)"
    using xs(1,3) distinct_card [of "map fst ys"] by simp
  also have "\<dots> \<le> card T" by (rule card_mono [OF assms(2) xs(2)])
  finally have "zs \<noteq> []" using assms(3) xs(1) by auto
  then have "butlast xs = ys @ (k, e) # butlast zs" using xs(1) by (simp add: butlast_append)
  moreover have "distinct (map fst (butlast xs))"
    using xs(3) by (simp add: map_butlast distinct_butlast)
  ultimately show ?thesis using xs(2) unfolding behind_def by blast
qed

lemma behind_mono: "behind S k e xs \<Longrightarrow> S \<subseteq> T \<Longrightarrow> behind T k e xs"
  unfolding behind_def by blast

lemma behind_put:
  assumes "behind T k e xs" and "k' \<in> T" and "k \<notin> T" and "finite T" and "int (card T) < sz"
  shows "behind T k e (lru_put sz k' e' xs)"
proof (cases "sz \<le> int (length (lru_drop k' xs))")
  case False
  then show ?thesis using behind_cons(2) [OF assms(1-3)] by (simp add: lru_put_def)
next
  case True
  have "Suc (card (T - {k'})) = card T" using assms(2,4) by (rule card_Suc_Diff1 [rotated])
  then have "behind (T - {k'}) k e (butlast (lru_drop k' xs))"
    using behind_butlast [OF behind_cons(1) [OF assms(1-3)]] assms(4,5) True by simp
  then have "behind T k e (butlast (lru_drop k' xs))" by (rule behind_mono) auto
  from behind_cons(2) [OF this assms(2,3), of e']
  have "behind T k e ((k', e') # lru_drop k' (butlast (lru_drop k' xs)))" .
  moreover have "lru_drop k' (butlast (lru_drop k' xs)) = butlast (lru_drop k' xs)"
    unfolding lru_drop_def by (auto intro!: filter_True dest: in_set_butlastD)
  ultimately show ?thesis using True by (simp add: lru_put_def)
qed

lemma behind_get:
  assumes "behind T k e xs" and "k' \<in> T" and "k \<notin> T"
  shows "behind T k e (snd (lru_get now k' xs))"
  using assms behind_cons(2) [OF assms] behind_mono [OF behind_cons(1) [OF assms], of T]
  by (auto simp: lru_get_def split: option.split)

lemma behind_run:
  assumes "behind T k e xs" and "k \<notin> T" and "finite T" and "int (card T) < sz"
    and "\<forall>p \<in> set ops. the (cacheKey L D (cop_msg p)) \<in> T"
  shows "behind T k e (snd (lru_run L D sz st xs ops))"
  using assms
proof (induction ops arbitrary: xs)
  case (Cons p ops)
  then show ?case
    by (cases p) (auto simp: behind_put case_prod_beta dest: behind_get [THEN behind_mono])
qed simp

lemma wf_lru: "wf_cache c \<Longrightarrow> distinct (map fst (lru_of c))"
  by (simp add: wf_cache_def lru_of_def comp_def)

lemma behind_put_first:
  assumes "distinct (map fst (lru_put sz k e xs))"
  shows "behind T k e (lru_put sz k e xs)"
proof -
  obtain zs where "lru_put sz k e xs = [] @ (k, e) # zs" by (simp add: lru_put_def Let_def)
  moreover have "fst ` set [] \<subseteq> T" by simp
  ultimately show ?thesis using assms unfolding behind_def by blast
qed

lemma behind_lookup: "behind T k e xs \<Longrightarrow> map_of xs k = Some e"
  unfolding behind_def by (auto simp: map_of_eq_Some_iff)

section \<open>The TTL clamp: lemmas\<close>

lemma fold_ttl_step:
  "0 \<le> b \<Longrightarrow> 0 \<le> fold ttl_step rrs b \<and> (0 < b \<longrightarrow> 0 < fold ttl_step rrs b \<and> fold ttl_step rrs b \<le> b)
    \<and> (\<forall>rr \<in> set rrs. 0 < hdr_Ttl (rr_Header rr) \<longrightarrow>
         0 < fold ttl_step rrs b \<and> fold ttl_step rrs b \<le> uint (hdr_Ttl (rr_Header rr)) * Second)"
proof (induction rrs arbitrary: b)
  case (Cons rr rrs)
  have "0 \<le> ttl_step rr b" "0 < b \<longrightarrow> 0 < ttl_step rr b \<and> ttl_step rr b \<le> b"
    "0 < hdr_Ttl (rr_Header rr) \<longrightarrow> 0 < ttl_step rr b \<and> ttl_step rr b \<le> uint (hdr_Ttl (rr_Header rr)) * Second"
    using Cons.prems by (auto simp: ttl_step_def Let_def word_less_def)
  then show ?case using Cons.IH [of "ttl_step rr b"] by auto
qed simp

lemma soa_min_nonneg: "0 \<le> soa_min rrs"
  by (induction rrs rule: soa_min.induct) auto

lemma min_answer_props:
  "0 \<le> min_answer rrs"
  "rr \<in> set rrs \<Longrightarrow> 0 < hdr_Ttl (rr_Header rr) \<Longrightarrow>
     0 < min_answer rrs \<and> min_answer rrs \<le> uint (hdr_Ttl (rr_Header rr)) * Second"
  using fold_ttl_step [of 0 rrs] unfolding min_answer_def by auto

definition ttl_floor :: "duration \<Rightarrow> duration" where
  "ttl_floor mn = (if mn \<le> 0 then 30 * Second else mn)"

definition ttl_ceil :: "duration \<Rightarrow> duration \<Rightarrow> duration" where
  "ttl_ceil mn mx = (if mx \<le> 0 \<or> mx < ttl_floor mn then 24 * Hour else mx)"

lemma clampTTLs_base:
  "fst (clampTTLs m mn mx) =
     min (ttl_ceil mn mx) (max (ttl_floor mn)
       (if min_answer (msg_Answer m) \<noteq> 0 then min_answer (msg_Answer m)
        else if soa_min (msg_Ns m) \<noteq> 0 then soa_min (msg_Ns m) else 300 * Second))"
  by (simp add: clampTTLs_def ttl_floor_def ttl_ceil_def Let_def min_def max_def)

lemma clampTTLs_msg:
  "snd (clampTTLs m mn mx) =
     (let ttl = of_int (fst (clampTTLs m mn mx) div Second) in
      m\<lparr>msg_Answer := set_ttls ttl (msg_Answer m), msg_Ns := set_ttls ttl (msg_Ns m),
        msg_Extra := set_ttls ttl (msg_Extra m)\<rparr>)"
  by (simp add: clampTTLs_def Let_def)

lemma set_ttls_ttl:
  "rr \<in> set (set_ttls t rrs) \<Longrightarrow> \<not> isOPT rr \<Longrightarrow> hdr_Ttl (rr_Header rr) = t"
  by (auto simp: set_ttls_def split: if_splits)

lemma set_ttls_OPT: "filter isOPT (set_ttls t rrs) = filter isOPT rrs"
  by (induction rrs) (auto simp: set_ttls_def)

section \<open>The interface the server relies on\<close>

text \<open>
  What the request pipeline needs of a cache: lookups and stores do not fail on a message with a
  key, a lookup answers only what was stored under that key, and nothing appears by itself.
\<close>

locale answer_cache =
  fixes key :: "Msg \<Rightarrow> string option"
    and get :: "time \<Rightarrow> 'c \<Rightarrow> Msg \<Rightarrow> ((Msg option \<times> bool \<times> bool) \<times> 'c) option"
    and put :: "time \<Rightarrow> 'c \<Rightarrow> Msg \<Rightarrow> Msg \<Rightarrow> duration \<Rightarrow> 'c option"
    and inv :: "'c \<Rightarrow> bool"
    and holds :: "'c \<Rightarrow> (string \<times> Msg) set"
  assumes get_law: "inv c \<Longrightarrow> key q = Some k \<Longrightarrow>
      \<exists>m fresh ok c'. get now c q = Some ((m, fresh, ok), c') \<and> inv c' \<and> holds c' \<subseteq> holds c
        \<and> ok = (m \<noteq> None) \<and> (fresh \<longrightarrow> ok) \<and> (\<forall>x. m = Some x \<longrightarrow> (k, x) \<in> holds c)"
    and put_law: "inv c \<Longrightarrow> key q = Some k \<Longrightarrow>
      \<exists>c'. put now c q m ttl = Some c' \<and> inv c' \<and> holds c' \<subseteq> insert (k, m) (holds c)"
begin

text \<open>A property of all stored replies survives lookups, and stores of replies that have it.\<close>

lemma get_keeps:
  assumes "inv c" and "key q = Some k" and "\<forall>(k, m) \<in> holds c. P k m"
    and "get now c q = Some ((m, fresh, ok), c')"
  shows "inv c' \<and> (\<forall>(k, m) \<in> holds c'. P k m) \<and> ok = (m \<noteq> None) \<and> (fresh \<longrightarrow> ok) \<and> (\<forall>x. m = Some x \<longrightarrow> P k x)"
  using get_law [OF assms(1,2), of now] assms(3,4) by auto

lemma put_keeps:
  assumes "inv c" and "key q = Some k" and "\<forall>(k, m) \<in> holds c. P k m" and "P k m"
    and "put now c q m ttl = Some c'"
  shows "inv c' \<and> (\<forall>(k, m) \<in> holds c'. P k m)"
  using put_law [OF assms(1,2), of now m ttl] assms(3-) by auto

end

definition cache_content :: "replyCache \<Rightarrow> (string \<times> Msg) set" where
  "cache_content c = (\<lambda>(k, e). (k, ce_msg e)) ` set (lru_of c)"

lemma set_lru_get: "set (snd (lru_get now k xs)) \<subseteq> set xs"
  by (auto simp: lru_get_def lru_drop_def dest: map_of_SomeD split: option.split)

lemma fst_lru_get:
  "\<exists>m fresh ok. fst (lru_get now k xs) = (m, fresh, ok) \<and> ok = (m \<noteq> None) \<and> (fresh \<longrightarrow> ok)
     \<and> (\<forall>x. m = Some x \<longrightarrow> (\<exists>e. (k, e) \<in> set xs \<and> x = ce_msg e))"
  by (auto simp: lru_get_def dest: map_of_SomeD split: option.split)

lemma set_lru_put: "set (lru_put sz k e xs) \<subseteq> insert (k, e) (set xs)"
  by (auto simp: lru_put_def lru_drop_def Let_def dest: in_set_butlastD split: if_splits)

interpretation rcache: answer_cache "cacheKey L D" "cache_get L D" "cache_put L D" wf_cache cache_content
  for L :: name_lib and D :: mdns_lib
proof
  fix c q k now
  assume wf: "wf_cache c" and key: "cacheKey L D q = Some k"
  obtain r c' where g: "cache_get L D now c q = Some (r, c')" "lru_get now k (lru_of c) = (r, lru_of c')" "wf_cache c'"
    using cache_get_refines [OF wf key] by blast
  obtain m fresh ok where r: "r = (m, fresh, ok)" by (cases r) auto
  have "cache_content c' \<subseteq> cache_content c"
    using set_lru_get [of now k "lru_of c"] g(2) by (auto simp: cache_content_def)
  moreover have "ok = (m \<noteq> None) \<and> (fresh \<longrightarrow> ok) \<and> (\<forall>x. m = Some x \<longrightarrow> (k, x) \<in> cache_content c)"
    using fst_lru_get [of now k "lru_of c"] g(2) r by (force simp: cache_content_def)
  ultimately show "\<exists>m fresh ok c'. cache_get L D now c q = Some ((m, fresh, ok), c') \<and> wf_cache c' \<and> cache_content c' \<subseteq> cache_content c
        \<and> ok = (m \<noteq> None) \<and> (fresh \<longrightarrow> ok) \<and> (\<forall>x. m = Some x \<longrightarrow> (k, x) \<in> cache_content c)"
    using g r by blast
next
  fix c q k now m ttl
  assume wf: "wf_cache c" and key: "cacheKey L D q = Some k"
  obtain c' where "cache_put L D now c q m ttl = Some c'" "wf_cache c'"
    "lru_of c' = lru_put (rc_size c) k (entry_for c now m ttl) (lru_of c)"
    using cache_put_refines [OF wf key] by blast
  moreover have "ce_msg (entry_for c now m ttl) = m" by (simp add: entry_for_def)
  ultimately show "\<exists>c'. cache_put L D now c q m ttl = Some c' \<and> wf_cache c' \<and> cache_content c' \<subseteq> insert (k, m) (cache_content c)"
    using set_lru_put [of "rc_size c" k "entry_for c now m ttl" "lru_of c"] by (auto simp: cache_content_def)
qed

section \<open>Properties\<close>

text \<open>
  C25: The cache behaves as a bounded recency list. Any sequence of lookups and stores on a new
  cache, each for a message with a question, runs without a panic; every lookup answers what the
  abstract recency list answers (fresh, stale or a miss), the final content is the abstract one,
  and the number of entries never exceeds the configured size, raised to 1024.
\<close>

theorem cache_is_lru:
  assumes "\<forall>p \<in> set ops. msg_Question (cop_msg p) \<noteq> []"
  shows "\<exists>rs c'. cache_run L D (newReplyCache sz st) ops = Some (rs, c')
    \<and> (rs, lru_of c') = lru_run L D (max 1024 sz) st [] ops
    \<and> length (rc_items c') = length (lru_of c')
    \<and> int (length (rc_items c')) \<le> max 1024 sz"
proof -
  obtain rs c' where c: "cache_run L D (newReplyCache sz st) ops = Some (rs, c')"
    "lru_run L D (max 1024 sz) st [] ops = (rs, lru_of c')" "wf_cache c'" "rc_size c' = max 1024 sz"
    using cache_run_refines [OF wf_newReplyCache assms, of L D sz st] by auto
  moreover have "length (rc_items c') = length (lru_of c')"
    using wf_cache_length [OF c(3)] by (simp add: lru_of_def)
  ultimately show ?thesis by (auto simp: wf_cache_def lru_of_def)
qed

theorem cache_is_lru_witness:
  "\<exists>rs c'. cache_run ascii_lib tiny_mdns (newReplyCache 8 Hour)
       [CPut 0 (ask 1 ''a.b.'' TypeA) (ask 2 ''a.b.'' TypeA) Second, CGet 5 (ask 3 ''A.b.'' TypeA)] = Some (rs, c')
     \<and> (rs, lru_of c') = lru_run ascii_lib tiny_mdns (max 1024 8) Hour []
       [CPut 0 (ask 1 ''a.b.'' TypeA) (ask 2 ''a.b.'' TypeA) Second, CGet 5 (ask 3 ''A.b.'' TypeA)]
     \<and> length (rc_items c') = length (lru_of c') \<and> int (length (rc_items c')) \<le> max 1024 8"
  by (rule cache_is_lru) (simp add: ask_def)

text \<open>
  C26: A stored reply is served until it expires, whatever happens to other names. After a reply
  is stored under a key of a well-formed cache, any operations on fewer distinct other keys than
  the cache has room for leave it in place: a lookup before its freshness deadline returns it as
  fresh, one before the stale deadline returns it as stale, and a later one is a miss.
\<close>

theorem recent_entry_survives:
  assumes wf: "wf_cache c" and key: "cacheKey L D q = Some k"
    and other: "\<forall>p \<in> set ops. \<exists>k'. cacheKey L D (cop_msg p) = Some k' \<and> k' \<noteq> k"
    and few: "int (card ((\<lambda>p. cacheKey L D (cop_msg p)) ` set ops)) < rc_size c"
  shows "\<exists>c1 rs c2 c3. cache_put L D now c q m ttl = Some c1 \<and> cache_run L D c1 ops = Some (rs, c2)
    \<and> cache_get L D t c2 q = Some (
        if t < now + ttl then (Some m, True, True)
        else if t < now + ttl + rc_staleFor c then (Some m, False, True)
        else (None, False, False), c3)"
proof -
  let ?T = "(\<lambda>p. the (cacheKey L D (cop_msg p))) ` set ops"
  let ?e = "entry_for c now m ttl"
  obtain c1 where c1: "cache_put L D now c q m ttl = Some c1" "wf_cache c1" "rc_size c1 = rc_size c"
    "lru_of c1 = lru_put (rc_size c) k ?e (lru_of c)"
    using cache_put_refines [OF wf key] by blast
  have "\<forall>p \<in> set ops. msg_Question (cop_msg p) \<noteq> []"
    using other cacheKey_Some by blast
  from cache_run_refines [OF c1(2) this, of L D] obtain rs c2 where
    c2: "cache_run L D c1 ops = Some (rs, c2)" "wf_cache c2"
    "lru_of c2 = snd (lru_run L D (rc_size c) (rc_staleFor c1) (lru_of c1) ops)"
    using c1(3) by (metis snd_conv)
  have "?T = the ` (\<lambda>p. cacheKey L D (cop_msg p)) ` set ops" by (simp add: image_image)
  then have "card ?T \<le> card ((\<lambda>p. cacheKey L D (cop_msg p)) ` set ops)"
    by (simp only: card_image_le finite_imageI finite_set)
  moreover have "behind ?T k ?e (lru_of c1)"
    using wf_lru [OF c1(2)] unfolding c1(4) by (rule behind_put_first)
  moreover have "k \<notin> ?T" using other by force
  ultimately have "behind ?T k ?e (lru_of c2)"
    unfolding c2(3) using few by (intro behind_run) auto
  then have "map_of (lru_of c2) k = Some ?e" by (rule behind_lookup)
  then show ?thesis
    using c1(1) c2(1) cache_get_refines [OF c2(2) key, of t]
    by (auto simp: lru_get_def entry_for_def add.assoc split: if_splits)
qed

theorem recent_entry_survives_witness:
  "\<exists>c1 rs c2 c3.
     cache_put ascii_lib tiny_mdns 0 (newReplyCache 0 Hour) (ask 1 ''a.b.'' TypeA) (ask 2 ''a.b.'' TypeA) Second = Some c1
     \<and> cache_run ascii_lib tiny_mdns c1 [CGet 5 (ask 3 ''c.d.'' TypeA)] = Some (rs, c2)
     \<and> cache_get ascii_lib tiny_mdns Hour c2 (ask 1 ''a.b.'' TypeA) = Some ((Some (ask 2 ''a.b.'' TypeA), False, True), c3)"
proof -
  have k: "cacheKey ascii_lib tiny_mdns (ask 1 ''a.b.'' TypeA) = Some ''a.b.|A|0''"
    "cacheKey ascii_lib tiny_mdns (ask 3 ''c.d.'' TypeA) = Some ''c.d.|A|0''"
    by (simp_all add: cacheKey_def ask_def empty_msg_def tiny_mdns_def ascii_lib_def go_ToLower_def isASCII_def ascii_lower_def)
  show ?thesis
    using recent_entry_survives [of "newReplyCache 0 Hour" ascii_lib tiny_mdns "ask 1 ''a.b.'' TypeA" "''a.b.|A|0''"
        "[CGet 5 (ask 3 ''c.d.'' TypeA)]" 0 "ask 2 ''a.b.'' TypeA" Second Hour]
    by (simp add: k)
qed

text \<open>
  C27: The TTL clamp. The lifetime returned lies between the effective floor (30 s when unset)
  and the effective ceiling (24 h when unset or below the floor), and never exceeds the floor or
  the least positive TTL among the answers, whichever is larger; every record but an OPT gets that
  lifetime in seconds as its TTL (unless the ceiling does not fit 32 bits), OPT records stay as
  they are, and each section keeps its records in order.
\<close>

theorem clamp_ttls_bounds:
  assumes "clampTTLs m mn mx = (base, m')"
  shows "min (ttl_floor mn) (ttl_ceil mn mx) \<le> base \<and> base \<le> ttl_ceil mn mx
    \<and> (\<forall>rr \<in> set (msg_Answer m). 0 < hdr_Ttl (rr_Header rr) \<longrightarrow>
         base \<le> max (ttl_floor mn) (uint (hdr_Ttl (rr_Header rr)) * Second))
    \<and> (ttl_ceil mn mx div Second < 2 ^ 32 \<longrightarrow>
         (\<forall>rr \<in> set (msg_Answer m' @ msg_Ns m' @ msg_Extra m').
            \<not> isOPT rr \<longrightarrow> uint (hdr_Ttl (rr_Header rr)) = base div Second))
    \<and> filter isOPT (msg_Extra m') = filter isOPT (msg_Extra m)
    \<and> map (rr_SetTtl 0) (msg_Answer m') = map (rr_SetTtl 0) (msg_Answer m)
    \<and> map (rr_SetTtl 0) (msg_Ns m') = map (rr_SetTtl 0) (msg_Ns m)
    \<and> map (rr_SetTtl 0) (msg_Extra m') = map (rr_SetTtl 0) (msg_Extra m)"
proof -
  have base: "base = fst (clampTTLs m mn mx)" and m': "m' = snd (clampTTLs m mn mx)"
    using assms by simp_all
  have fl: "0 < ttl_floor mn" "0 < ttl_ceil mn mx"
    by (auto simp: ttl_floor_def ttl_ceil_def)
  have lo: "min (ttl_floor mn) (ttl_ceil mn mx) \<le> base" and hi: "base \<le> ttl_ceil mn mx"
    unfolding base clampTTLs_base by simp_all
  have least: "base \<le> max (ttl_floor mn) (uint (hdr_Ttl (rr_Header rr)) * Second)"
    if "rr \<in> set (msg_Answer m)" "0 < hdr_Ttl (rr_Header rr)" for rr
    using min_answer_props(2) [OF that] unfolding base clampTTLs_base by auto
  have "0 \<le> base div Second" using lo fl by (simp add: pos_imp_zdiv_nonneg_iff)
  moreover have "base div Second \<le> ttl_ceil mn mx div Second" using hi by (simp add: zdiv_mono1)
  ultimately have fits: "uint (of_int (base div Second) :: u32) = base div Second"
    if "ttl_ceil mn mx div Second < 2 ^ 32"
    using that by (simp add: uint_word_of_int_eq take_bit_int_eq_self)
  have sec: "msg_Answer m' = set_ttls (of_int (base div Second)) (msg_Answer m)"
    "msg_Ns m' = set_ttls (of_int (base div Second)) (msg_Ns m)"
    "msg_Extra m' = set_ttls (of_int (base div Second)) (msg_Extra m)"
    unfolding base m' clampTTLs_msg by (simp_all add: Let_def)
  then have "uint (hdr_Ttl (rr_Header rr)) = base div Second"
    if "rr \<in> set (msg_Answer m' @ msg_Ns m' @ msg_Extra m')" "\<not> isOPT rr" "ttl_ceil mn mx div Second < 2 ^ 32" for rr
    using that fits by (auto dest: set_ttls_ttl)
  then show ?thesis
    using lo hi least unfolding sec set_ttls_OPT by (auto simp: set_ttls_def)
qed

theorem clamp_ttls_bounds_witness:
  "\<exists>base m'. clampTTLs (empty_msg\<lparr>msg_Answer :=
       [A \<lparr>hdr_Name = ''x.'', hdr_Rrtype = TypeA, hdr_Class = ClassINET, hdr_Ttl = 5\<rparr> None]\<rparr>) (60 * Second) Hour = (base, m')
     \<and> base = 60 * Second"
proof -
  let ?m = "empty_msg\<lparr>msg_Answer := [A \<lparr>hdr_Name = ''x.'', hdr_Rrtype = TypeA, hdr_Class = ClassINET, hdr_Ttl = 5\<rparr> None]\<rparr>"
  obtain base m' where eq: "clampTTLs ?m (60 * Second) Hour = (base, m')" by fastforce
  from clamp_ttls_bounds [OF eq] have "base = 60 * Second"
    by (simp add: ttl_ceil_def ttl_floor_def empty_msg_def)
  with eq show ?thesis by blast
qed

end
