(* ===== verification/Upstream_Pool.thy ===== *)
theory Upstream_Pool
  imports Dns_Msg Go_Tls
begin

text \<open>
  The upstream pool, \<^verbatim>\<open>src/internal/dns/pool.go\<close>, and the browser transport,
  \<^verbatim>\<open>src/internal/dns/browser.go\<close>: parsing of upstream URLs, bootstrap resolution, the
  transports, health and latency bookkeeping, selection, failover and probes.

  Sockets, TLS and HTTP are the fields of \<open>net_env\<close>. Each takes the time of the call and
  returns its result with the time it finished, so that an upstream may answer differently at
  different times. An upstream is a pointer in Go and an index into the pool here. The operations
  run to completion one after another in this part; the interleaving of the atomic accesses of
  concurrent exchanges is the step relation of the last part.
\<close>

section \<open>State\<close>

datatype upstreamKind = kindUDP | kindTCP | kindDoT | kindDoH

datatype dnsErr =
    errNoUpstream
  | ErrURL string
  | ErrScheme string
  | ErrMissingHost
  | ErrUpstream string dnsErr
  | ErrResolve string dnsErr
  | ErrNoBootstrap
  | ErrNet string
  | ErrPack
  | ErrUnpack
  | ErrRead
  | ErrDohStatus int
  | ErrBrowserStatus int

text \<open>The DoH client of an upstream; what it dials with is \<open>dialContextFor\<close> below.\<close>

record http_Client =
  hc_TLSClientConfig :: tls_Config
  hc_ForceAttemptHTTP2 :: bool
  hc_IdleConnTimeout :: duration
  hc_MaxIdleConns :: int
  hc_MaxIdleConnsPerHost :: int
  hc_Timeout :: duration

record upstream =
  up_url :: string
  up_kind :: upstreamKind
  up_host :: string
  up_port :: string
  up_path :: string
  up_weight :: int
  up_healthy :: bool
  up_browser :: bool
  up_inflight :: int
  up_latency :: int
  up_fails :: int
  up_addrCache :: "string option"
  up_tlsConf :: "tls_Config option"
  up_httpClient :: "http_Client option"

text \<open>What a browser client is built with; it dials with \<open>browser_dial\<close> below.\<close>

record browserClient =
  bc_ForceAttemptHTTP2 :: bool
  bc_IdleConnTimeout :: duration
  bc_MaxIdleConns :: int
  bc_MaxIdleConnsPerHost :: int
  bc_Timeout :: duration

record BrowserPool =
  bp_clients :: "browserClient list"
  bp_idx :: nat

record Pool =
  pl_upstreams :: "upstream list"
  pl_bootstrap :: "string list"
  pl_timeout :: duration
  pl_refreshInt :: duration
  pl_browserPool :: "BrowserPool option"
  pl_browserOn :: bool

section \<open>The network\<close>

record url_parts =
  uScheme :: string
  uHostname :: string
  uPort :: string
  uPath :: string

text \<open>
  \<open>netDial\<close> is \<^verbatim>\<open>DialContext\<close> of a plain or (with a configuration) a TLS dialer;
  \<open>connExchange\<close> is \<^verbatim>\<open>Client.ExchangeWithConn\<close> on that connection. \<open>transportAddr\<close>
  is the address the HTTP transport asks its dialer for; \<open>needsDial\<close> says whether it has no
  idle connection; \<open>httpDo\<close> gets the client and the address that was dialled for it. The
  browser clients dial by \<open>utlsHandshake\<close>, the handshake of the uTLS library, and
  \<open>browserDo\<close> gets the client's position, the client and the connection's configuration.
\<close>

record net_env =
  urlParse :: "string \<Rightarrow> url_parts option"
  randId :: "time \<Rightarrow> u16"
  udpExchange :: "time \<Rightarrow> string \<Rightarrow> Msg \<Rightarrow> (dnsErr + Msg) \<times> time"
  netDial :: "time \<Rightarrow> string \<Rightarrow> tls_Config option \<Rightarrow> string \<Rightarrow> dnsErr option \<times> time"
  connExchange :: "time \<Rightarrow> string \<Rightarrow> string \<Rightarrow> Msg \<Rightarrow> (dnsErr + Msg option) \<times> time"
  newRequest :: "string \<Rightarrow> dnsErr option"
  needsDial :: "time \<Rightarrow> string \<Rightarrow> bool"
  transportAddr :: "string \<Rightarrow> string"
  uniEqualFold :: "string \<Rightarrow> string \<Rightarrow> bool"
  httpDo :: "time \<Rightarrow> http_Client \<Rightarrow> string option \<Rightarrow> string \<Rightarrow> bytes \<Rightarrow> (dnsErr + int \<times> bytes option) \<times> time"
  browserNeedsDial :: "time \<Rightarrow> nat \<Rightarrow> string \<Rightarrow> bool"
  utlsHandshake :: "time \<Rightarrow> tls_Config \<Rightarrow> string \<Rightarrow> dnsErr option \<times> time"
  browserDo :: "time \<Rightarrow> nat \<Rightarrow> browserClient \<Rightarrow> tls_Config option \<Rightarrow> string \<Rightarrow> bytes \<Rightarrow> (dnsErr + int \<times> bytes option) \<times> time"

definition EqualFold :: "net_env \<Rightarrow> string \<Rightarrow> string \<Rightarrow> bool" where
  "EqualFold E s t =
     (if isASCII s \<and> isASCII t then map ascii_lower s = map ascii_lower t else uniEqualFold E s t)"

text \<open>\<^verbatim>\<open>net.IP.String\<close>: a mapped address prints as IPv4, a missing one as \<^verbatim>\<open><nil>\<close>.\<close>

fun ip_String :: "Addr \<Rightarrow> string" where
  "ip_String AddrZero = ''<nil>''"
| "ip_String (Addr4 w) = string4 w"
| "ip_String (Addr6 w z) = (if is4In6 w then string4 (ucast w) else string6 w)"

section \<open>Building a pool\<close>

definition weightAt :: "int list \<Rightarrow> nat \<Rightarrow> int" where
  "weightAt ws i = (if i < length ws \<and> 0 < ws ! i then ws ! i else 1)"

definition portOr :: "string \<Rightarrow> string \<Rightarrow> string" where
  "portOr p def = (if p \<noteq> '''' then p else def)"

definition isIP :: "string \<Rightarrow> bool" where
  "isIP s = (ParseIP s \<noteq> None)"

text \<open>The switch on the scheme: kind, default port, and whether the URL's path is used.\<close>

definition scheme_kind :: "string \<Rightarrow> (upstreamKind \<times> string) option" where
  "scheme_kind s =
     (if s = ''udp'' then Some (kindUDP, ''53'')
      else if s = ''tcp'' then Some (kindTCP, ''53'')
      else if s = ''dot'' \<or> s = ''tls'' then Some (kindDoT, ''853'')
      else if s = ''doh'' \<or> s = ''https'' then Some (kindDoH, ''443'')
      else None)"

definition newUpstream :: "name_lib \<Rightarrow> net_env \<Rightarrow> string \<Rightarrow> int \<Rightarrow> dnsErr + upstream" where
  "newUpstream L E raw weight =
     (case urlParse E raw of
        None \<Rightarrow> Inl (ErrURL raw)
      | Some u \<Rightarrow>
          (case scheme_kind (go_ToLower (uniLower L) (uScheme u)) of
             None \<Rightarrow> Inl (ErrScheme (uScheme u))
           | Some (kind, port) \<Rightarrow>
               let host = uHostname u; port = portOr (uPort u) port;
                   path = (if kind = kindDoH then if uPath u = '''' then ''/dns-query'' else uPath u else '''')
               in
               if host = '''' then Inl ErrMissingHost
               else Inr \<lparr>up_url = raw, up_kind = kind, up_host = host, up_port = port, up_path = path,
                         up_weight = weight, up_healthy = True, up_browser = False, up_inflight = 0,
                         up_latency = 0, up_fails = 0,
                         up_addrCache = (if isIP host then Some (JoinHostPort host port) else None),
                         up_tlsConf = None, up_httpClient = None\<rparr>))"

fun new_upstreams :: "name_lib \<Rightarrow> net_env \<Rightarrow> int list \<Rightarrow> nat \<Rightarrow> string list \<Rightarrow> dnsErr + upstream list" where
  "new_upstreams L E ws i [] = Inr []"
| "new_upstreams L E ws i (raw # urls) =
     (case newUpstream L E raw (weightAt ws i) of
        Inl err \<Rightarrow> Inl (ErrUpstream raw err)
      | Inr u \<Rightarrow>
          (case new_upstreams L E ws (Suc i) urls of Inl err \<Rightarrow> Inl err | Inr us \<Rightarrow> Inr (u # us)))"

text \<open>\<^verbatim>\<open>WithBrowserUpstream\<close>, the only option.\<close>

definition WithBrowserUpstream :: "BrowserPool option \<Rightarrow> Pool \<Rightarrow> Pool" where
  "WithBrowserUpstream b pl = pl\<lparr>pl_browserPool := b, pl_browserOn := (b \<noteq> None)\<rparr>"

definition NewPool ::
  "name_lib \<Rightarrow> net_env \<Rightarrow> string list \<Rightarrow> int list \<Rightarrow> string list \<Rightarrow> duration \<Rightarrow> (Pool \<Rightarrow> Pool) list \<Rightarrow> dnsErr + Pool" where
  "NewPool L E urls weights bootstrap timeout opts =
     (if urls = [] then Inl errNoUpstream
      else (case new_upstreams L E weights 0 urls of
          Inl err \<Rightarrow> Inl err
        | Inr us \<Rightarrow>
            Inr (fold (\<lambda>opt. opt) opts
              \<lparr>pl_upstreams = us, pl_bootstrap = bootstrap, pl_timeout = timeout,
               pl_refreshInt = 300 * Second, pl_browserPool = None, pl_browserOn = False\<rparr>)))"

text \<open>\<^verbatim>\<open>newBrowserClient\<close> has an error result, which it never uses.\<close>

definition newBrowserClient :: "dnsErr + browserClient" where
  "newBrowserClient =
     Inr \<lparr>bc_ForceAttemptHTTP2 = True, bc_IdleConnTimeout = 90 * Second, bc_MaxIdleConns = 2,
          bc_MaxIdleConnsPerHost = 2, bc_Timeout = 8 * Second\<rparr>"

fun new_clients :: "nat \<Rightarrow> BrowserPool \<Rightarrow> dnsErr + BrowserPool" where
  "new_clients 0 b = Inr b"
| "new_clients (Suc n) b =
     (case newBrowserClient of
        Inl err \<Rightarrow> Inl err
      | Inr c \<Rightarrow> new_clients n (b\<lparr>bp_clients := bp_clients b @ [c]\<rparr>))"

definition NewBrowserPool :: "int \<Rightarrow> dnsErr + BrowserPool" where
  "NewBrowserPool n = new_clients (nat (if n \<le> 0 then 2 else n)) \<lparr>bp_clients = [], bp_idx = 0\<rparr>"

definition upd :: "nat \<Rightarrow> (upstream \<Rightarrow> upstream) \<Rightarrow> Pool \<Rightarrow> Pool" where
  "upd i f p = p\<lparr>pl_upstreams := (pl_upstreams p)[i := f (pl_upstreams p ! i)]\<rparr>"

section \<open>Bootstrap resolution\<close>

fun answer_ips :: "RR list \<Rightarrow> Addr list" where
  "answer_ips [] = []"
| "answer_ips (A h a # rrs) = (case a of None \<Rightarrow> AddrZero | Some w \<Rightarrow> Addr4 w) # answer_ips rrs"
| "answer_ips (rr # rrs) = answer_ips rrs"

fun boot_loop ::
  "mdns_lib \<Rightarrow> net_env \<Rightarrow> string \<Rightarrow> dnsErr option \<Rightarrow> string list \<Rightarrow> time \<Rightarrow> (dnsErr + Addr list) \<times> time" where
  "boot_loop D E host lastErr [] t =
     (Inl (case lastErr of None \<Rightarrow> ErrNoBootstrap | Some e \<Rightarrow> e), t)"
| "boot_loop D E host lastErr (bs # bss) t =
     (let m = setQuestion D (randId E t) (mdnsFqdn D host) TypeA in
      (case udpExchange E t (JoinHostPort bs ''53'') m of
         (Inl err, t') \<Rightarrow> boot_loop D E host (Some err) bss t'
       | (Inr r, t') \<Rightarrow>
           let ips = answer_ips (msg_Answer r) in
           if ips \<noteq> [] then (Inr ips, t') else boot_loop D E host lastErr bss t'))"

definition resolveBootstrap ::
  "mdns_lib \<Rightarrow> net_env \<Rightarrow> Pool \<Rightarrow> string \<Rightarrow> time \<Rightarrow> (dnsErr + Addr list) \<times> time" where
  "resolveBootstrap D E p host t =
     (case ParseIP host of
        Some ip \<Rightarrow> (Inr [ip], t)
      | None \<Rightarrow> boot_loop D E host None (pl_bootstrap p) t)"

definition dialAddr ::
  "mdns_lib \<Rightarrow> net_env \<Rightarrow> Pool \<Rightarrow> nat \<Rightarrow> time \<Rightarrow> (dnsErr + string) \<times> Pool \<times> time" where
  "dialAddr D E p i t =
     (let u = pl_upstreams p ! i in
      case up_addrCache u of
        Some a \<Rightarrow> (Inr a, p, t)
      | None \<Rightarrow>
          (case resolveBootstrap D E p (up_host u) t of
             (Inl err, t') \<Rightarrow> (Inl (ErrResolve (up_host u) err), p, t')
           | (Inr [], t') \<Rightarrow> (Inl (ErrResolve (up_host u) ErrNoBootstrap), p, t')
           | (Inr (ip # _), t') \<Rightarrow>
               let a = JoinHostPort (ip_String ip) (up_port u) in
               (Inr a, upd i (\<lambda>u. u\<lparr>up_addrCache := Some a\<rparr>) p, t')))"

fun refresh_loop :: "mdns_lib \<Rightarrow> net_env \<Rightarrow> nat list \<Rightarrow> Pool \<Rightarrow> time \<Rightarrow> Pool \<times> time" where
  "refresh_loop D E [] p t = (p, t)"
| "refresh_loop D E (i # is) p t =
     (let u = pl_upstreams p ! i in
      if isIP (up_host u) then refresh_loop D E is p t
      else (case resolveBootstrap D E p (up_host u) t of
          (Inr (ip # _), t') \<Rightarrow>
            refresh_loop D E is
              (upd i (\<lambda>u. u\<lparr>up_addrCache := Some (JoinHostPort (ip_String ip) (up_port u))\<rparr>) p) t'
        | (_, t') \<Rightarrow> refresh_loop D E is p t'))"

definition refreshAddrs :: "mdns_lib \<Rightarrow> net_env \<Rightarrow> Pool \<Rightarrow> time \<Rightarrow> Pool \<times> time" where
  "refreshAddrs D E p t = refresh_loop D E [0 ..< length (pl_upstreams p)] p t"

section \<open>Transports\<close>

definition tlsConfig :: "upstream \<Rightarrow> string list \<Rightarrow> tls_Config \<times> upstream" where
  "tlsConfig u protos =
     (case up_tlsConf u of
        Some c \<Rightarrow> (c, u)
      | None \<Rightarrow>
          let c = \<lparr>ServerName = up_host u, NextProtos = protos, MinVersion = VersionTLS12, Certificates = [], GetCertificate = False\<rparr>
          in (c, u\<lparr>up_tlsConf := Some c\<rparr>))"

definition hostFromAddr :: "string \<Rightarrow> string" where
  "hostFromAddr addr = (case SplitHostPort addr of None \<Rightarrow> addr | Some (h, _) \<Rightarrow> h)"

text \<open>The address that the dialer of the DoH transport connects to when asked for \<open>addr\<close>.\<close>

definition dialContextFor ::
  "mdns_lib \<Rightarrow> net_env \<Rightarrow> Pool \<Rightarrow> nat \<Rightarrow> string \<Rightarrow> time \<Rightarrow> string \<times> Pool \<times> time" where
  "dialContextFor D E p i addr t =
     (case SplitHostPort addr of
        None \<Rightarrow> (addr, p, t)
      | Some (host, port) \<Rightarrow>
          if EqualFold E host (up_host (pl_upstreams p ! i)) then
            (case dialAddr D E p i t of
               (Inl _, p', t') \<Rightarrow> (addr, p', t')
             | (Inr a, p', t') \<Rightarrow> (JoinHostPort (hostFromAddr a) port, p', t'))
          else (addr, p, t))"

text \<open>\<^verbatim>\<open>httpClient\<close>: built on first use, then kept.\<close>

definition httpClient :: "Pool \<Rightarrow> upstream \<Rightarrow> http_Client \<times> upstream" where
  "httpClient p u =
     (case up_httpClient u of
        Some c \<Rightarrow> (c, u)
      | None \<Rightarrow>
          let (conf, u) = tlsConfig u [''h2'', ''http/1.1''];
              c = \<lparr>hc_TLSClientConfig = conf, hc_ForceAttemptHTTP2 = True, hc_IdleConnTimeout = 90 * Second,
                   hc_MaxIdleConns = 8, hc_MaxIdleConnsPerHost = 4, hc_Timeout = pl_timeout p\<rparr>
          in (c, u\<lparr>up_httpClient := Some c\<rparr>))"

definition exchStreamOrPacket ::
  "mdns_lib \<Rightarrow> net_env \<Rightarrow> Pool \<Rightarrow> nat \<Rightarrow> Msg \<Rightarrow> string \<Rightarrow> time \<Rightarrow> (dnsErr + Msg option) \<times> Pool \<times> time" where
  "exchStreamOrPacket D E p i m net t =
     (case dialAddr D E p i t of
        (Inl err, p, t) \<Rightarrow> (Inl err, p, t)
      | (Inr addr, p, t) \<Rightarrow>
          (case netDial E t net None addr of
             (Some err, t) \<Rightarrow> (Inl err, p, t)
           | (None, t) \<Rightarrow>
               (case connExchange E t net addr m of (r, t) \<Rightarrow> (r, p, t))))"

definition exchDoT ::
  "mdns_lib \<Rightarrow> net_env \<Rightarrow> Pool \<Rightarrow> nat \<Rightarrow> Msg \<Rightarrow> time \<Rightarrow> (dnsErr + Msg option) \<times> Pool \<times> time" where
  "exchDoT D E p i m t =
     (case dialAddr D E p i t of
        (Inl err, p, t) \<Rightarrow> (Inl err, p, t)
      | (Inr addr, p, t) \<Rightarrow>
          (let (conf, u) = tlsConfig (pl_upstreams p ! i) [''dot''];
               p = upd i (\<lambda>_. u) p
           in case netDial E t ''tcp'' (Some conf) addr of
             (Some err, t) \<Rightarrow> (Inl err, p, t)
           | (None, t) \<Rightarrow>
               (case connExchange E t ''tcp'' addr m of
                  (Inr None, t) \<Rightarrow> (Inl errNoUpstream, p, t)
                | (r, t) \<Rightarrow> (r, p, t))))"

definition doh_url :: "upstream \<Rightarrow> string" where
  "doh_url u = ''https://'' @ up_host u @ '':'' @ up_port u @ up_path u"

text \<open>The end of \<^verbatim>\<open>exchDoH\<close>: status, a body of at most 64 KiB, unpacking.\<close>

definition doh_reply :: "mdns_lib \<Rightarrow> dnsErr + int \<times> bytes option \<Rightarrow> dnsErr + Msg option" where
  "doh_reply D r =
     (case r of
        Inl err \<Rightarrow> Inl err
      | Inr (status, body) \<Rightarrow>
          if status \<noteq> 200 then Inl (ErrDohStatus status)
          else (case body of
              None \<Rightarrow> Inl ErrRead
            | Some b \<Rightarrow>
                (case msgUnpack D (limit_read 65536 b) of
                   None \<Rightarrow> Inl ErrUnpack
                 | Some m \<Rightarrow> Inr (Some m))))"

definition exchDoH ::
  "mdns_lib \<Rightarrow> net_env \<Rightarrow> Pool \<Rightarrow> nat \<Rightarrow> Msg \<Rightarrow> time \<Rightarrow> (dnsErr + Msg option) \<times> Pool \<times> time" where
  "exchDoH D E p i m t =
     (case msgPack D m of
        None \<Rightarrow> (Inl ErrPack, p, t)
      | Some wire \<Rightarrow>
          let url = doh_url (pl_upstreams p ! i) in
          (case newRequest E url of
             Some err \<Rightarrow> (Inl err, p, t)
           | None \<Rightarrow>
               let (client, u) = httpClient p (pl_upstreams p ! i);
                   p = upd i (\<lambda>_. u) p;
                   (want, p, t) =
                     (if needsDial E t url then
                        (case dialContextFor D E p i (transportAddr E url) t of (w, p, t) \<Rightarrow> (Some w, p, t))
                      else (None, p, t));
                   (r, t) = httpDo E t client want url wire
               in (doh_reply D r, p, t)))"

section \<open>One exchange\<close>

definition transport ::
  "mdns_lib \<Rightarrow> net_env \<Rightarrow> Pool \<Rightarrow> nat \<Rightarrow> Msg \<Rightarrow> time \<Rightarrow> (dnsErr + Msg option) \<times> Pool \<times> time" where
  "transport D E p i m t =
     (case up_kind (pl_upstreams p ! i) of
        kindUDP \<Rightarrow> exchStreamOrPacket D E p i m ''udp'' t
      | kindTCP \<Rightarrow> exchStreamOrPacket D E p i m ''tcp'' t
      | kindDoT \<Rightarrow> exchDoT D E p i m t
      | kindDoH \<Rightarrow> exchDoH D E p i m t)"

definition note_failure :: "upstream \<Rightarrow> upstream" where
  "note_failure u =
     (let u = u\<lparr>up_fails := up_fails u + 1\<rparr> in
      if 2 \<le> up_fails u then u\<lparr>up_healthy := False\<rparr> else u)"

definition ema :: "int \<Rightarrow> int \<Rightarrow> int" where
  "ema old us = (if old = 0 then us else (old * 3 + us) div 4)"

definition note_success :: "duration \<Rightarrow> upstream \<Rightarrow> upstream" where
  "note_success elapsed u =
     u\<lparr>up_fails := 0, up_healthy := True, up_latency := ema (up_latency u) (elapsed div 1000)\<rparr>"

definition exchange ::
  "mdns_lib \<Rightarrow> net_env \<Rightarrow> Pool \<Rightarrow> nat \<Rightarrow> Msg \<Rightarrow> time \<Rightarrow> (dnsErr + Msg option) \<times> Pool \<times> time" where
  "exchange D E p i m start =
     (let p = upd i (\<lambda>u. u\<lparr>up_inflight := up_inflight u + 1\<rparr>) p;
          (r, p, t) = transport D E p i m start;
          p = (case r of
                 Inl err \<Rightarrow> upd i note_failure p
               | Inr _ \<Rightarrow> upd i (note_success (t - start)) p);
          p = upd i (\<lambda>u. u\<lparr>up_inflight := up_inflight u - 1\<rparr>) p
      in (r, p, t))"

section \<open>The browser transport\<close>

text \<open>
  The dialer of a browser client: a TCP connection, then a Chrome-like handshake for the host.
  It does not use the bootstrap-resolved address.
\<close>

definition browser_dial :: "net_env \<Rightarrow> string \<Rightarrow> time \<Rightarrow> (dnsErr + tls_Config) \<times> time" where
  "browser_dial E addr t =
     (let host = (case SplitHostPort addr of None \<Rightarrow> addr | Some (host, _) \<Rightarrow> host) in
      case netDial E t ''tcp'' None addr of
        (Some err, t) \<Rightarrow> (Inl err, t)
      | (None, t) \<Rightarrow>
          let cfg = \<lparr>ServerName = host, NextProtos = [''h2'', ''http/1.1''], MinVersion = 0, Certificates = [], GetCertificate = False\<rparr> in
          (case utlsHandshake E t cfg addr of
             (Some err, t) \<Rightarrow> (Inl err, t)
           | (None, t) \<Rightarrow> (Inr cfg, t)))"

text \<open>\<^verbatim>\<open>Client.Do\<close>: a transport without an idle connection dials first.\<close>

definition browser_roundtrip ::
  "net_env \<Rightarrow> nat \<Rightarrow> browserClient \<Rightarrow> string \<Rightarrow> bytes \<Rightarrow> time \<Rightarrow> (dnsErr + int \<times> bytes option) \<times> time" where
  "browser_roundtrip E k bc target wire t =
     (if browserNeedsDial E t k target then
        (case browser_dial E (transportAddr E target) t of
           (Inl err, t) \<Rightarrow> (Inl err, t)
         | (Inr cfg, t) \<Rightarrow> browserDo E t k bc (Some cfg) target wire)
      else browserDo E t k bc None target wire)"

definition Post ::
  "net_env \<Rightarrow> BrowserPool \<Rightarrow> string \<Rightarrow> bytes \<Rightarrow> time \<Rightarrow> (dnsErr + bytes) \<times> BrowserPool \<times> time" where
  "Post E b target wire t =
     (let k = bp_idx b mod length (bp_clients b); bc = bp_clients b ! k; b = b\<lparr>bp_idx := bp_idx b + 1\<rparr> in
      case newRequest E target of
        Some err \<Rightarrow> (Inl err, b, t)
      | None \<Rightarrow>
          (case browser_roundtrip E k bc target wire t of
             (Inl err, t) \<Rightarrow> (Inl err, b, t)
           | (Inr (status, body), t) \<Rightarrow>
               if status \<noteq> 200 then (Inl (ErrBrowserStatus status), b, t)
               else (case body of
                   None \<Rightarrow> (Inl ErrRead, b, t)
                 | Some x \<Rightarrow> (Inr (limit_read 65536 x), b, t))))"

definition browserDoH ::
  "mdns_lib \<Rightarrow> net_env \<Rightarrow> Pool \<Rightarrow> nat \<Rightarrow> bytes option \<Rightarrow> time \<Rightarrow> (dnsErr + Msg) \<times> Pool \<times> time" where
  "browserDoH D E p i wire t =
     (case (pl_browserPool p, wire) of
        (Some b, Some w) \<Rightarrow>
          (case Post E b (doh_url (pl_upstreams p ! i)) w t of
             (Inl err, b, t) \<Rightarrow> (Inl err, p\<lparr>pl_browserPool := Some b\<rparr>, t)
           | (Inr body, b, t) \<Rightarrow>
               (case msgUnpack D body of None \<Rightarrow> Inl ErrUnpack | Some m \<Rightarrow> Inr m,
                p\<lparr>pl_browserPool := Some b\<rparr>, t))
      | _ \<Rightarrow> (Inl errNoUpstream, p, t))"

section \<open>Selection and failover\<close>

definition up_less :: "upstream \<Rightarrow> upstream \<Rightarrow> bool" where
  "up_less a b =
     (if up_inflight a \<noteq> up_inflight b then up_inflight a < up_inflight b
      else if up_latency a \<noteq> up_latency b then up_latency a < up_latency b
      else up_weight b < up_weight a)"

text \<open>
  \<^verbatim>\<open>sort.Slice\<close> sorts up to twelve elements by insertion, as here; for longer slices it
  yields some sorted arrangement, and the lemmas use no more than that.
\<close>

definition Select :: "Pool \<Rightarrow> nat list" where
  "Select p =
     (let us = pl_upstreams p;
          out = insertion_sort (\<lambda>i j. up_less (us ! i) (us ! j)) (filter (\<lambda>i. up_healthy (us ! i)) [0 ..< length us])
      in if out = [] then [0 ..< length us] else out)"

text \<open>\<^verbatim>\<open>mustPack\<close>: \<^verbatim>\<open>nil\<close>, here \<open>None\<close>, when the message does not pack.\<close>

definition mustPack :: "mdns_lib \<Rightarrow> Msg \<Rightarrow> bytes option" where
  "mustPack D m = (case msgPack D m of None \<Rightarrow> None | Some b \<Rightarrow> Some b)"

fun query_loop ::
  "mdns_lib \<Rightarrow> net_env \<Rightarrow> Msg \<Rightarrow> nat list \<Rightarrow> dnsErr \<Rightarrow> Pool \<Rightarrow> time \<Rightarrow> (dnsErr + Msg option) \<times> Pool \<times> time" where
  "query_loop D E m [] lastErr p t = (Inl lastErr, p, t)"
| "query_loop D E m (i # is) lastErr p t =
     (case exchange D E p i m t of
        (Inr resp, p, t) \<Rightarrow> (Inr resp, p, t)
      | (Inl err, p, t) \<Rightarrow>
          if is = [] \<and> pl_browserPool p \<noteq> None then
            (case browserDoH D E (upd i (\<lambda>u. u\<lparr>up_browser := True\<rparr>) p) i (mustPack D m) t of
               (Inr resp, p, t) \<Rightarrow> (Inr (Some resp), upd i (\<lambda>u. u\<lparr>up_healthy := True\<rparr>) p, t)
             | (Inl _, p, t) \<Rightarrow> query_loop D E m is err p t)
          else query_loop D E m is err p t)"

definition pool_Query ::
  "mdns_lib \<Rightarrow> net_env \<Rightarrow> Pool \<Rightarrow> Msg \<Rightarrow> time \<Rightarrow> (dnsErr + Msg option) \<times> Pool \<times> time" where
  "pool_Query D E p m t = query_loop D E m (take 3 (Select p)) errNoUpstream p t"

section \<open>Background work\<close>

definition probe_one :: "mdns_lib \<Rightarrow> net_env \<Rightarrow> nat \<Rightarrow> Pool \<times> time \<Rightarrow> Pool \<times> time" where
  "probe_one D E i pt =
     (case pt of (p, t) \<Rightarrow>
        let m = (setQuestion D (randId E t) ''.'' TypeNS)\<lparr>msg_RecursionDesired := True\<rparr> in
        (case exchange D E p i m t of
           (Inr _, p, t) \<Rightarrow> (upd i (\<lambda>u. u\<lparr>up_healthy := True\<rparr>) p, t)
         | (Inl _, p, t) \<Rightarrow> (p, t)))"

definition needs_probe :: "upstream \<Rightarrow> bool" where
  "needs_probe u = (\<not> (up_healthy u \<and> up_fails u = 0))"

text \<open>
  The probes run in goroutines of their own; each touches its own upstream only, so running them
  one after another, in the order they are started, reaches the same state.
\<close>

definition probeAll :: "mdns_lib \<Rightarrow> net_env \<Rightarrow> Pool \<Rightarrow> time \<Rightarrow> Pool \<times> time" where
  "probeAll D E p t =
     fold (\<lambda>i (p, t). if needs_probe (pl_upstreams p ! i) then probe_one D E i (p, t) else (p, t))
       [0 ..< length (pl_upstreams p)] (p, t)"

text \<open>The goroutine of \<^verbatim>\<open>Start\<close>, with its two tickers.\<close>

datatype pool_tick = ProbeTick time | RefreshTick time

fun pool_body :: "mdns_lib \<Rightarrow> net_env \<Rightarrow> pool_tick \<Rightarrow> Pool \<Rightarrow> Pool" where
  "pool_body D E (ProbeTick t) p = fst (probeAll D E p t)"
| "pool_body D E (RefreshTick t) p = fst (refreshAddrs D E p t)"

definition pool_Start :: "mdns_lib \<Rightarrow> net_env \<Rightarrow> Pool \<Rightarrow> pool_tick loop_event list \<Rightarrow> Pool \<times> bool" where
  "pool_Start D E p evs = select_loop (pool_body D E) p evs"

section \<open>Names for upstreams\<close>

definition idnaFqdn :: "name_lib \<Rightarrow> string \<Rightarrow> string" where
  "idnaFqdn L name =
     (let d = TrimSuffix name ''.'' in
      if isASCII d then go_ToLower (uniLower L) d @ ''.''
      else (case toASCII L d of Some ascii \<Rightarrow> ascii @ ''.'' | None \<Rightarrow> name))"

section \<open>What an exchange may change\<close>

text \<open>An upstream without the connection details that the transports cache.\<close>

definition core :: "upstream \<Rightarrow> upstream" where
  "core u = u\<lparr>up_addrCache := None, up_tlsConf := None, up_httpClient := None\<rparr>"

lemma core_sel [simp]:
  "up_url (core u) = up_url u" "up_kind (core u) = up_kind u" "up_host (core u) = up_host u"
  "up_port (core u) = up_port u" "up_path (core u) = up_path u" "up_weight (core u) = up_weight u"
  "up_healthy (core u) = up_healthy u" "up_browser (core u) = up_browser u"
  "up_inflight (core u) = up_inflight u" "up_latency (core u) = up_latency u"
  "up_fails (core u) = up_fails u"
  by (simp_all add: core_def)

text \<open>Only upstream \<open>i\<close> changes, and its core by \<open>f\<close>; the rest of the pool stays.\<close>

definition frame :: "nat \<Rightarrow> (upstream \<Rightarrow> upstream) \<Rightarrow> Pool \<Rightarrow> Pool \<Rightarrow> bool" where
  "frame i f p q \<longleftrightarrow>
     length (pl_upstreams q) = length (pl_upstreams p)
     \<and> (\<forall>k. k \<noteq> i \<longrightarrow> pl_upstreams q ! k = pl_upstreams p ! k)
     \<and> core (pl_upstreams q ! i) = f (core (pl_upstreams p ! i))
     \<and> q\<lparr>pl_upstreams := []\<rparr> = p\<lparr>pl_upstreams := []\<rparr>"

lemma frame_refl [simp]: "frame i (\<lambda>u. u) p p"
  by (simp add: frame_def)

lemma frame_trans: "frame i f p q \<Longrightarrow> frame i g q r \<Longrightarrow> frame i (\<lambda>u. g (f u)) p r"
  by (simp add: frame_def)

lemma frame_id: "frame i (\<lambda>u. u) p q \<Longrightarrow> frame i (\<lambda>u. u) q r \<Longrightarrow> frame i (\<lambda>u. u) p r"
  using frame_trans by fastforce

lemma frame_length: "frame i f p q \<Longrightarrow> length (pl_upstreams q) = length (pl_upstreams p)"
  by (simp add: frame_def)

lemma frame_pool:
  assumes "frame i f p q"
  shows "pl_browserPool q = pl_browserPool p" "pl_bootstrap q = pl_bootstrap p"
proof -
  have "q\<lparr>pl_upstreams := []\<rparr> = p\<lparr>pl_upstreams := []\<rparr>" using assms by (simp add: frame_def)
  then show "pl_browserPool q = pl_browserPool p" "pl_bootstrap q = pl_bootstrap p"
    by (metis Pool.select_convs(5) Pool.surjective Pool.update_convs(1),
        metis Pool.select_convs(2) Pool.surjective Pool.update_convs(1))
qed

lemma frame_upd:
  "i < length (pl_upstreams p) \<Longrightarrow> (\<And>u. core (h u) = f (core u)) \<Longrightarrow> frame i f p (upd i h p)"
  by (simp add: frame_def upd_def)

lemma upd_sel [simp]:
  "length (pl_upstreams (upd i f p)) = length (pl_upstreams p)"
  "i < length (pl_upstreams p) \<Longrightarrow> pl_upstreams (upd i f p) ! i = f (pl_upstreams p ! i)"
  "k \<noteq> i \<Longrightarrow> pl_upstreams (upd i f p) ! k = pl_upstreams p ! k"
  "pl_browserPool (upd i f p) = pl_browserPool p"
  "pl_bootstrap (upd i f p) = pl_bootstrap p"
  by (simp_all add: upd_def)

lemma core_tlsConfig [simp]: "core (snd (tlsConfig u ps)) = core u"
  by (simp add: tlsConfig_def core_def Let_def split: option.split)

lemma core_httpClient [simp]: "core (snd (httpClient p u)) = core u"
  using core_tlsConfig [of u "[''h2'', ''http/1.1'']"]
  by (simp add: httpClient_def core_def Let_def case_prod_beta split: option.split)

lemma frame_dialAddr:
  assumes "dialAddr D E p i t = (r, q, t')" and "i < length (pl_upstreams p)"
  shows "frame i (\<lambda>u. u) p q"
proof -
  have "frame i (\<lambda>u. u) p (upd i (\<lambda>u. u\<lparr>up_addrCache := Some a\<rparr>) p)" for a
    using assms(2) by (rule frame_upd) (simp add: core_def)
  then show ?thesis using assms(1)
    by (auto simp: dialAddr_def Let_def split: option.splits sum.splits list.splits prod.splits)
qed

lemma frame_tls: "i < length (pl_upstreams p) \<Longrightarrow>
    frame i (\<lambda>u. u) p (upd i (\<lambda>_. snd (tlsConfig (pl_upstreams p ! i) ps)) p)"
  by (simp add: frame_def upd_def)

lemma frame_dialContextFor:
  assumes "dialContextFor D E p i addr t = (w, q, t')" and "i < length (pl_upstreams p)"
  shows "frame i (\<lambda>u. u) p q"
  using assms frame_dialAddr [OF _ assms(2)]
  by (auto simp: dialContextFor_def split: option.splits if_splits sum.splits prod.splits)

lemma frame_stream:
  assumes "exchStreamOrPacket D E p i m net t = (r, q, t')" and "i < length (pl_upstreams p)"
  shows "frame i (\<lambda>u. u) p q"
  using assms(1) frame_dialAddr [OF _ assms(2)]
  by (auto simp: exchStreamOrPacket_def split: option.splits sum.splits prod.splits)

lemma frame_DoT:
  assumes "exchDoT D E p i m t = (r, q, t')" and "i < length (pl_upstreams p)"
  shows "frame i (\<lambda>u. u) p q"
proof -
  obtain ra p1 t1 where d: "dialAddr D E p i t = (ra, p1, t1)" by (cases "dialAddr D E p i t") auto
  note f = frame_dialAddr [OF d assms(2)]
  have "frame i (\<lambda>u. u) p (upd i (\<lambda>_. snd (tlsConfig (pl_upstreams p1 ! i) ps)) p1)" for ps
    using frame_id [OF f frame_tls] assms(2) frame_length [OF f] by simp
  then show ?thesis using assms(1) d f
    by (auto simp: exchDoT_def Let_def case_prod_beta split: option.splits sum.splits prod.splits)
qed

lemma frame_DoH:
  assumes "exchDoH D E p i m t = (r, q, t')" and i: "i < length (pl_upstreams p)"
  shows "frame i (\<lambda>u. u) p q"
proof -
  let ?p = "upd i (\<lambda>_. snd (httpClient p (pl_upstreams p ! i))) p"
  have f: "frame i (\<lambda>u. u) p ?p" using i by (simp add: frame_def upd_def)
  have "frame i (\<lambda>u. u) p (fst (snd (dialContextFor D E ?p i a t)))" for a
    using frame_id [OF f frame_dialContextFor [of D E ?p i a t]] i
    by (metis prod.collapse upd_sel(1))
  then show ?thesis using assms(1) f
    by (auto simp: exchDoH_def Let_def case_prod_beta split: option.splits if_splits prod.splits)
qed

lemma frame_transport:
  assumes "transport D E p i m t = (r, q, t')" and "i < length (pl_upstreams p)"
  shows "frame i (\<lambda>u. u) p q"
  using assms frame_stream frame_DoT frame_DoH
  by (auto simp: transport_def split: upstreamKind.splits)

definition noted :: "dnsErr + 'a \<Rightarrow> duration \<Rightarrow> upstream \<Rightarrow> upstream" where
  "noted r d u = (case r of Inl _ \<Rightarrow> note_failure u | Inr _ \<Rightarrow> note_success d u)"

lemma frame_exchange:
  assumes "exchange D E p i m t = (r, q, t')" and i: "i < length (pl_upstreams p)"
  shows "frame i (noted r (t' - t)) p q"
proof -
  let ?inc = "\<lambda>u. u\<lparr>up_inflight := up_inflight u + 1\<rparr>"
  let ?dec = "\<lambda>u. u\<lparr>up_inflight := up_inflight u - 1\<rparr>"
  let ?note = "case r of Inl err \<Rightarrow> note_failure | Inr _ \<Rightarrow> note_success (t' - t)"
  obtain ra p2 ta where tr: "transport D E (upd i ?inc p) i m t = (ra, p2, ta)"
    by (cases "transport D E (upd i ?inc p) i m t") auto
  with assms(1) have p2: "transport D E (upd i ?inc p) i m t = (r, p2, t')"
    and q: "q = upd i ?dec (upd i ?note p2)"
    by (auto simp: exchange_def Let_def split: sum.splits)
  have 1: "frame i ?inc p (upd i ?inc p)" using i by (rule frame_upd) (simp add: core_def)
  have 2: "frame i (\<lambda>u. u) (upd i ?inc p) p2" using frame_transport [OF p2] i by simp
  have i2: "i < length (pl_upstreams p2)" using frame_length [OF 2] i by simp
  have 3: "frame i (noted r (t' - t)) p2 (upd i ?note p2)"
    using i2 by (rule frame_upd)
      (auto simp: noted_def core_def note_failure_def note_success_def Let_def split: sum.split)
  have 4: "frame i ?dec (upd i ?note p2) q" unfolding q using i2 by (intro frame_upd) (simp_all add: core_def)
  from frame_trans [OF frame_trans [OF frame_trans [OF 1 2] 3] 4]
  have "frame i (\<lambda>u. ?dec (noted r (t' - t) (?inc u))) p q" .
  moreover have "?dec (noted r (t' - t) (?inc u)) = noted r (t' - t) u" for u
    by (auto simp: noted_def note_failure_def note_success_def Let_def split: sum.split)
  ultimately show ?thesis by simp
qed

section \<open>What a query may change\<close>

text \<open>The bookkeeping of an upstream that failed an exchange, and of one that served the query.\<close>

definition failed :: "upstream \<Rightarrow> upstream \<Rightarrow> bool" where
  "failed u v \<longleftrightarrow> up_fails v = up_fails u + 1 \<and> up_healthy v = (up_healthy u \<and> up_fails v < 2)
     \<and> up_inflight v = up_inflight u \<and> up_latency v = up_latency u"

definition served :: "upstream \<Rightarrow> upstream \<Rightarrow> bool" where
  "served u v \<longleftrightarrow> up_healthy v \<and> up_inflight v = up_inflight u \<and> (up_fails v = 0 \<or> up_fails v = up_fails u + 1)"

lemma exchange_failed:
  assumes "exchange D E p i m t = (Inl e, q, t')" and "i < length (pl_upstreams p)"
  shows "failed (pl_upstreams p ! i) (pl_upstreams q ! i)"
proof -
  have c: "core (pl_upstreams q ! i) = note_failure (core (pl_upstreams p ! i))"
    using frame_exchange [OF assms] by (simp add: frame_def noted_def)
  show ?thesis
    using arg_cong [OF c, of up_fails] arg_cong [OF c, of up_healthy] arg_cong [OF c, of up_inflight]
      arg_cong [OF c, of up_latency]
    by (auto simp: failed_def note_failure_def Let_def)
qed

lemma exchange_served:
  assumes "exchange D E p i m t = (Inr r, q, t')" and "i < length (pl_upstreams p)"
  shows "served (pl_upstreams p ! i) (pl_upstreams q ! i) \<and> up_fails (pl_upstreams q ! i) = 0
    \<and> up_latency (pl_upstreams q ! i) = ema (up_latency (pl_upstreams p ! i)) ((t' - t) div 1000)"
proof -
  have c: "core (pl_upstreams q ! i) = note_success (t' - t) (core (pl_upstreams p ! i))"
    using frame_exchange [OF assms] by (simp add: frame_def noted_def)
  show ?thesis
    using arg_cong [OF c, of up_fails] arg_cong [OF c, of up_healthy] arg_cong [OF c, of up_inflight]
      arg_cong [OF c, of up_latency]
    by (auto simp: served_def note_success_def Let_def)
qed

lemma exchange_others:
  assumes "exchange D E p i m t = (r, q, t')" and "i < length (pl_upstreams p)"
  shows "length (pl_upstreams q) = length (pl_upstreams p)" "pl_bootstrap q = pl_bootstrap p"
    "pl_browserPool q = pl_browserPool p" "k \<noteq> i \<Longrightarrow> pl_upstreams q ! k = pl_upstreams p ! k"
  using frame_exchange [OF assms] frame_pool [OF frame_exchange [OF assms]] by (simp_all add: frame_def)

lemma browserDoH_pool:
  assumes "browserDoH D E p i w t = (r, q, t')"
  shows "pl_upstreams q = pl_upstreams p" "pl_bootstrap q = pl_bootstrap p"
  using assms by (auto simp: browserDoH_def split: option.splits sum.splits prod.splits)

lemma failed_browser [simp]: "failed u (v\<lparr>up_browser := b\<rparr>) = failed u v"
  by (simp add: failed_def)

lemma failed_healthy: "failed u v \<Longrightarrow> served u (v\<lparr>up_healthy := True\<rparr>)"
  by (simp add: failed_def served_def)

text \<open>The outcome of the tries: all failed, or some failed and the next one served the query.\<close>

definition tried :: "nat list \<Rightarrow> bool \<Rightarrow> Pool \<Rightarrow> Pool \<Rightarrow> bool" where
  "tried is ok p q \<longleftrightarrow> length (pl_upstreams q) = length (pl_upstreams p) \<and>
     (\<exists>ys zs. is = ys @ zs \<and> (ok \<longleftrightarrow> zs \<noteq> [])
        \<and> (\<forall>k \<in> set ys. failed (pl_upstreams p ! k) (pl_upstreams q ! k))
        \<and> (ok \<longrightarrow> served (pl_upstreams p ! hd zs) (pl_upstreams q ! hd zs))
        \<and> (\<forall>k. k \<notin> set ys \<and> (zs = [] \<or> k \<noteq> hd zs) \<longrightarrow> pl_upstreams q ! k = pl_upstreams p ! k))"

lemma tried_Nil [simp]: "tried [] False p p"
  by (simp add: tried_def)

lemma tried_served:
  assumes "served (pl_upstreams p ! i) (pl_upstreams q ! i)"
    and "length (pl_upstreams q) = length (pl_upstreams p)"
    and "\<And>k. k \<noteq> i \<Longrightarrow> pl_upstreams q ! k = pl_upstreams p ! k"
  shows "tried (i # is) True p q"
  unfolding tried_def by (rule conjI [OF assms(2)], rule exI [of _ "[]"], rule exI [of _ "i # is"])
    (use assms in simp)

lemma tried_Cons:
  assumes "failed (pl_upstreams p ! i) (pl_upstreams q ! i)"
    and "length (pl_upstreams q) = length (pl_upstreams p)"
    and "\<And>k. k \<noteq> i \<Longrightarrow> pl_upstreams q ! k = pl_upstreams p ! k"
    and "tried is ok q r" and "i \<notin> set is"
  shows "tried (i # is) ok p r"
proof -
  obtain ys zs where yz: "is = ys @ zs" "ok \<longleftrightarrow> zs \<noteq> []"
    "\<forall>k \<in> set ys. failed (pl_upstreams q ! k) (pl_upstreams r ! k)"
    "ok \<longrightarrow> served (pl_upstreams q ! hd zs) (pl_upstreams r ! hd zs)"
    "\<forall>k. k \<notin> set ys \<and> (zs = [] \<or> k \<noteq> hd zs) \<longrightarrow> pl_upstreams r ! k = pl_upstreams q ! k"
    using assms(4) unfolding tried_def by blast
  have new: "i \<notin> set ys" "zs = [] \<or> i \<noteq> hd zs" using assms(5) yz(1) by (cases zs; auto)+
  have "\<forall>k \<in> set (i # ys). failed (pl_upstreams p ! k) (pl_upstreams r ! k)"
    using yz(3,5) new assms(1,3) by (metis set_ConsD)
  moreover have "ok \<longrightarrow> served (pl_upstreams p ! hd zs) (pl_upstreams r ! hd zs)"
    using yz(2,4) new(2) assms(3) by metis
  moreover have "\<forall>k. k \<notin> set (i # ys) \<and> (zs = [] \<or> k \<noteq> hd zs) \<longrightarrow> pl_upstreams r ! k = pl_upstreams p ! k"
    using yz(5) assms(3) by simp
  moreover have "i # is = (i # ys) @ zs" using yz(1) by simp
  moreover have "length (pl_upstreams r) = length (pl_upstreams p)"
    using assms(2,4) by (simp add: tried_def)
  ultimately show ?thesis using yz(2) unfolding tried_def by blast
qed

lemma query_loop_tried:
  assumes "query_loop D E m is e p t = (r, q, t')" and "distinct is"
    and "\<forall>k \<in> set is. k < length (pl_upstreams p)"
  shows "tried is (isr r) p q"
  using assms
proof (induction "is" arbitrary: p e t)
  case (Cons i "is")
  obtain x p1 t1 where ex: "exchange D E p i m t = (x, p1, t1)" by (cases "exchange D E p i m t") auto
  have i: "i < length (pl_upstreams p)" using Cons.prems(3) by simp
  note oth = exchange_others [OF ex i]
  show ?case
  proof (cases x)
    case (Inr a)
    with ex i have "served (pl_upstreams p ! i) (pl_upstreams p1 ! i)"
      using exchange_served by blast
    then have "tried (i # is) True p p1" using oth(1,4) by (rule tried_served)
    then show ?thesis using Cons.prems(1) ex Inr by auto
  next
    case (Inl a)
    note fl = exchange_failed [OF ex [unfolded Inl] i]
    show ?thesis
    proof (cases "is = [] \<and> pl_browserPool p1 \<noteq> None")
      case False
      then have "query_loop D E m is a p1 t1 = (r, q, t')" using Cons.prems(1) ex Inl by auto
      then have "tried is (isr r) p1 q" using Cons oth(1) by simp
      then show ?thesis using tried_Cons [OF fl oth(1,4)] Cons.prems(2) by simp
    next
      case True
      let ?p = "upd i (\<lambda>u. u\<lparr>up_browser := True\<rparr>) p1"
      obtain y p2 t2 where b: "browserDoH D E ?p i (mustPack D m) t1 = (y, p2, t2)"
        by (cases "browserDoH D E ?p i (mustPack D m) t1") auto
      note bp = browserDoH_pool [OF b]
      have f2: "failed (pl_upstreams p ! i) (pl_upstreams p2 ! i)" using fl bp(1) i oth(1) by simp
      have l2: "length (pl_upstreams p2) = length (pl_upstreams p)" using bp(1) oth(1) by simp
      have o2: "\<And>k. k \<noteq> i \<Longrightarrow> pl_upstreams p2 ! k = pl_upstreams p ! k" using bp(1) oth(4) by simp
      show ?thesis
      proof (cases y)
        case (Inl _)
        then show ?thesis using Cons.prems ex \<open>x = Inl a\<close> True b tried_Cons [OF f2 l2 o2 tried_Nil] by auto
      next
        case (Inr _)
        then show ?thesis
          using Cons.prems(1) ex \<open>x = Inl a\<close> True b failed_healthy [OF f2] l2 o2 i
          by (auto intro!: tried_served)
      qed
    qed
  qed
qed auto

lemma query_loop_answers:
  assumes "distinct is" and "i \<in> set is" and "\<forall>k \<in> set is. k < length (pl_upstreams p)"
    and "\<And>p' t. pl_upstreams p' ! i = pl_upstreams p ! i \<Longrightarrow> length (pl_upstreams p') = length (pl_upstreams p)
        \<Longrightarrow> pl_bootstrap p' = pl_bootstrap p \<Longrightarrow> isr (fst (exchange D E p' i m t))"
  shows "isr (fst (query_loop D E m is e p t))"
  using assms
proof (induction "is" arbitrary: p e t)
  case (Cons j "is")
  obtain x p1 t1 where ex: "exchange D E p j m t = (x, p1, t1)" by (cases "exchange D E p j m t") auto
  have j: "j < length (pl_upstreams p)" using Cons.prems(3) by simp
  note oth = exchange_others [OF ex j]
  show ?case
  proof (cases "j = i")
    case True
    then have "isr x" using Cons.prems(4) [of p t] ex by simp
    then show ?thesis using ex by (cases x) auto
  next
    case False
    then have rest: "i \<in> set is" using Cons.prems(2) by simp
    have "isr (fst (query_loop D E m is e' p1 t1))" for e'
      using Cons.prems False oth rest by (intro Cons.IH) auto
    then show ?thesis using ex rest by (cases x) auto
  qed
qed simp

text \<open>An exchange on a connection returns a reply or an error, as the DNS library documents.\<close>

definition conn_documented :: "net_env \<Rightarrow> bool" where
  "conn_documented E \<longleftrightarrow> (\<forall>t net a m. fst (connExchange E t net a m) \<noteq> Inr None)"

lemma exchange_not_nil:
  assumes "conn_documented E"
  shows "fst (exchange D E p i m t) \<noteq> Inr None"
proof -
  have c: "connExchange E t net a m \<noteq> (Inr None, t')" for t net a m t'
    using assms unfolding conn_documented_def by (metis fst_conv)
  have "fst (exchStreamOrPacket D E q i m net t) \<noteq> Inr None" for q net
    using c by (auto simp: exchStreamOrPacket_def split: prod.splits sum.splits option.splits)
  moreover have "fst (exchDoT D E q i m t) \<noteq> Inr None" for q
    by (auto simp: exchDoT_def Let_def split: prod.splits sum.splits option.splits)
  moreover have "fst (exchDoH D E q i m t) \<noteq> Inr None" for q
    by (auto simp: exchDoH_def doh_reply_def Let_def split: prod.splits sum.splits option.splits)
  ultimately have "fst (transport D E q i m t) \<noteq> Inr None" for q by (simp add: transport_def split: upstreamKind.split)
  then have "transport D E q i m t \<noteq> (Inr None, x)" for q x by (metis fst_conv)
  then show ?thesis by (auto simp: exchange_def Let_def split: prod.splits)
qed

lemma pool_Query_not_nil:
  assumes "conn_documented E"
  shows "fst (pool_Query D E p m t) \<noteq> Inr None"
proof -
  have "fst (query_loop D E m is err p t) \<noteq> Inr None" for "is" err p t
  proof (induction "is" arbitrary: err p t)
    case (Cons i "is")
    obtain r q t1 where "exchange D E p i m t = (r, q, t1)" by (cases "exchange D E p i m t")
    with exchange_not_nil [OF assms, of D p i m t] Cons show ?case
      by (auto split: sum.splits prod.splits)
  qed simp
  then show ?thesis by (simp add: pool_Query_def)
qed

section \<open>Selection\<close>

lemma strict_weak_up_less: "strict_weak (\<lambda>i j. up_less (f i) (f j))"
  unfolding strict_weak_def up_less_def by (smt (verit))

lemma Select_props:
  "distinct (Select p)" "\<forall>k \<in> set (Select p). k < length (pl_upstreams p)"
proof -
  have "distinct (insertion_sort lt xs)" if "distinct xs" for lt :: "nat \<Rightarrow> nat \<Rightarrow> bool" and xs
    using that by (metis mset_insertion_sort mset_eq_imp_distinct_iff)
  then show "distinct (Select p)" by (simp add: Select_def Let_def)
  show "\<forall>k \<in> set (Select p). k < length (pl_upstreams p)" by (auto simp: Select_def Let_def)
qed

section \<open>The health invariant of sequential runs\<close>

definition up_ok :: "upstream \<Rightarrow> bool" where
  "up_ok u \<longleftrightarrow> up_inflight u = 0 \<and> 0 \<le> up_fails u \<and> (up_healthy u \<or> 2 \<le> up_fails u)
     \<and> (isIP (up_host u) \<longrightarrow> up_addrCache u = Some (JoinHostPort (up_host u) (up_port u)))"

text \<open>The part of the invariant on counters, which depends on the core only.\<close>

definition counters_ok :: "upstream \<Rightarrow> bool" where
  "counters_ok u \<longleftrightarrow> up_inflight u = 0 \<and> 0 \<le> up_fails u \<and> (up_healthy u \<or> 2 \<le> up_fails u)"

definition counters :: "Pool \<Rightarrow> bool" where
  "counters p \<longleftrightarrow> (\<forall>i < length (pl_upstreams p). counters_ok (pl_upstreams p ! i))"

lemma failed_ok: "failed u v \<Longrightarrow> counters_ok u \<Longrightarrow> counters_ok v"
  by (auto simp: failed_def counters_ok_def)

lemma served_ok: "served u v \<Longrightarrow> counters_ok u \<Longrightarrow> counters_ok v"
  by (auto simp: served_def counters_ok_def)

lemma tried_counters:
  assumes "tried is ok p q" and "counters p" and "\<forall>k \<in> set is. k < length (pl_upstreams p)"
  shows "counters q"
proof -
  obtain ys zs where yz: "length (pl_upstreams q) = length (pl_upstreams p)" "is = ys @ zs" "ok \<longleftrightarrow> zs \<noteq> []"
    "\<forall>k \<in> set ys. failed (pl_upstreams p ! k) (pl_upstreams q ! k)"
    "ok \<longrightarrow> served (pl_upstreams p ! hd zs) (pl_upstreams q ! hd zs)"
    "\<forall>k. k \<notin> set ys \<and> (zs = [] \<or> k \<noteq> hd zs) \<longrightarrow> pl_upstreams q ! k = pl_upstreams p ! k"
    using assms(1) unfolding tried_def by blast
  show ?thesis unfolding counters_def
  proof (intro allI impI)
    fix i assume "i < length (pl_upstreams q)"
    then have "counters_ok (pl_upstreams p ! i)" using assms(2) yz(1) by (simp add: counters_def)
    then show "counters_ok (pl_upstreams q ! i)"
      using yz failed_ok served_ok by metis
  qed
qed

lemma Query_counters:
  assumes "pool_Query D E p m t = (r, q, t')" and "counters p"
  shows "counters q \<and> length (pl_upstreams q) = length (pl_upstreams p)"
proof -
  have s: "distinct (take 3 (Select p))" "\<forall>k \<in> set (take 3 (Select p)). k < length (pl_upstreams p)"
    using Select_props [of p] by (auto dest: in_set_takeD)
  have "tried (take 3 (Select p)) (isr r) p q"
    using assms(1) s unfolding pool_Query_def by (rule query_loop_tried)
  then show ?thesis using tried_counters [OF _ assms(2) s(2)] by (auto simp: tried_def)
qed

lemma upd_counters:
  "counters p \<Longrightarrow> (\<And>u. counters_ok u \<Longrightarrow> counters_ok (f u)) \<Longrightarrow> counters (upd i f p)"
  by (cases "i < length (pl_upstreams p)") (auto simp: counters_def upd_def nth_list_update)

lemma probe_counters:
  assumes "counters p" and "i < length (pl_upstreams p)"
  shows "counters (fst (probe_one D E i (p, t))) \<and>
    length (pl_upstreams (fst (probe_one D E i (p, t)))) = length (pl_upstreams p)"
proof -
  let ?m = "(setQuestion D (randId E t) ''.'' TypeNS)\<lparr>msg_RecursionDesired := True\<rparr>"
  obtain x q t1 where ex: "exchange D E p i ?m t = (x, q, t1)" by (cases "exchange D E p i ?m t") auto
  note oth = exchange_others [OF ex assms(2)]
  have "counters_ok (pl_upstreams q ! i)"
  proof (cases x)
    case (Inl a)
    then show ?thesis using ex exchange_failed assms failed_ok by (metis counters_def)
  next
    case (Inr b)
    then show ?thesis using ex exchange_served assms served_ok by (metis counters_def)
  qed
  then have "counters q" using assms(1) oth(1,4) unfolding counters_def by metis
  moreover have "counters (upd i (\<lambda>u. u\<lparr>up_healthy := True\<rparr>) q)"
    using \<open>counters q\<close> by (rule upd_counters) (simp add: counters_ok_def)
  ultimately show ?thesis
    using ex oth(1) by (cases x) (auto simp: probe_one_def Let_def)
qed

lemma probeAll_fold:
  assumes "counters p" and "\<forall>i \<in> set is. i < length (pl_upstreams p)"
  shows "counters (fst (fold (\<lambda>i (p, t). if needs_probe (pl_upstreams p ! i) then probe_one D E i (p, t) else (p, t)) is (p, t)))
    \<and> length (pl_upstreams (fst (fold (\<lambda>i (p, t). if needs_probe (pl_upstreams p ! i) then probe_one D E i (p, t) else (p, t)) is (p, t))))
      = length (pl_upstreams p)"
  using assms
proof (induction "is" arbitrary: p t)
  case (Cons i "is")
  obtain q t1 where q: "probe_one D E i (p, t) = (q, t1)" by (cases "probe_one D E i (p, t)") auto
  have "counters q" "length (pl_upstreams q) = length (pl_upstreams p)"
    using probe_counters [OF Cons.prems(1), of i D E t] Cons.prems(2) q by auto
  then show ?case using Cons q by auto
qed simp

lemma refresh_counters:
  assumes "counters p"
  shows "counters (fst (refresh_loop D E is p t)) \<and>
    length (pl_upstreams (fst (refresh_loop D E is p t))) = length (pl_upstreams p)"
  using assms
proof (induction "is" arbitrary: p t)
  case (Cons i "is")
  let ?f = "\<lambda>ip u. u\<lparr>up_addrCache := Some (JoinHostPort (ip_String ip) (up_port u))\<rparr>"
  have "counters (upd i (?f ip) p)" for ip
    using Cons.prems by (rule upd_counters) (simp add: counters_ok_def)
  then show ?case using Cons
    by (auto simp: Let_def split: prod.splits sum.splits list.splits)
qed simp

lemma newUpstream_ok: "newUpstream L E raw w = Inr u \<Longrightarrow> counters_ok u \<and> up_ok u \<and> up_weight u = w \<and> up_url u = raw"
  by (auto simp: newUpstream_def Let_def counters_ok_def up_ok_def split: option.splits if_splits prod.splits)

lemma new_upstreams_ok:
  "new_upstreams L E ws i urls = Inr us \<Longrightarrow> length us = length urls
     \<and> (\<forall>k < length us. counters_ok (us ! k) \<and> up_ok (us ! k) \<and> up_url (us ! k) = urls ! k \<and> up_weight (us ! k) = weightAt ws (i + k))"
proof (induction urls arbitrary: i us)
  case (Cons raw urls)
  then obtain u us' where u: "newUpstream L E raw (weightAt ws i) = Inr u" "new_upstreams L E ws (Suc i) urls = Inr us'" "us = u # us'"
    by (auto split: sum.splits)
  show ?case
    using u(3) newUpstream_ok [OF u(1)] Cons.IH [OF u(2)] by (auto simp: nth_Cons split: nat.split)
qed simp

section \<open>Runs of a pool\<close>

inductive pool_reach :: "name_lib \<Rightarrow> mdns_lib \<Rightarrow> net_env \<Rightarrow> Pool \<Rightarrow> bool" for L D E where
  created: "NewPool L E urls ws bs timeout opts = Inr p \<Longrightarrow> opts = [] \<or> opts = [WithBrowserUpstream b] \<Longrightarrow> pool_reach L D E p"
| queried: "pool_reach L D E p \<Longrightarrow> pool_Query D E p m t = (r, q, t') \<Longrightarrow> pool_reach L D E q"
| probed: "pool_reach L D E p \<Longrightarrow> probeAll D E p t = (q, t') \<Longrightarrow> pool_reach L D E q"
| refreshed: "pool_reach L D E p \<Longrightarrow> refreshAddrs D E p t = (q, t') \<Longrightarrow> pool_reach L D E q"

lemma pool_Start_reach: "pool_reach L D E p \<Longrightarrow> pool_reach L D E (fst (pool_Start D E p evs))"
  unfolding pool_Start_def
proof (rule select_loop_invariant [of "pool_reach L D E"])
  fix e p
  assume "pool_reach L D E p"
  then show "pool_reach L D E (pool_body D E e p)"
    by (cases e) (simp_all add: probed [OF _ prod.collapse [symmetric]] refreshed [OF _ prod.collapse [symmetric]])
qed

lemma NewPool_upstreams:
  assumes "NewPool L E urls ws bs timeout opts = Inr p" and "opts = [] \<or> opts = [WithBrowserUpstream b]"
  shows "urls \<noteq> [] \<and> new_upstreams L E ws 0 urls = Inr (pl_upstreams p)"
  using assms by (auto simp: NewPool_def WithBrowserUpstream_def split: if_splits sum.splits)

lemma pool_reach_counters: "pool_reach L D E p \<Longrightarrow> counters p \<and> pl_upstreams p \<noteq> []"
proof (induction rule: pool_reach.induct)
  case (created urls ws bs timeout opts p b)
  then show ?case
    using NewPool_upstreams [OF created] new_upstreams_ok by (fastforce simp: counters_def)
next
  case (queried p m t r q t')
  then show ?case using Query_counters by (metis length_0_conv)
next
  case (probed p t q t')
  then show ?case
    using probeAll_fold [of p "[0 ..< length (pl_upstreams p)]" D E t]
    unfolding probeAll_def by (metis atLeastLessThan_iff fst_conv length_0_conv set_upt)
next
  case (refreshed p t q t')
  then show ?case
    using refresh_counters [of p D E "[0 ..< length (pl_upstreams p)]" t]
    unfolding refreshAddrs_def by (metis fst_conv length_0_conv)
qed

section \<open>Concurrent exchanges\<close>

text \<open>
  Several goroutines may run \<^verbatim>\<open>exchange\<close> on the same upstream; each access to its atomic
  fields is one step. A goroutine is inside an exchange from the increment of \<^verbatim>\<open>inflight\<close> to
  its decrement; the program counter says which access comes next.
\<close>

datatype exch_pc =
    Waiting
  | FailLoad | FailStore | SuccStore | SuccHealthy int | EmaLoad int | EmaStore int int
  | Leaving

record atomics =
  at_inflight :: int
  at_fails :: int
  at_healthy :: bool
  at_latency :: int

text \<open>A state: the shared fields and the goroutines inside an exchange.\<close>

inductive exch_step :: "atomics \<times> exch_pc list \<Rightarrow> atomics \<times> exch_pc list \<Rightarrow> bool" where
  enter: "exch_step (a, pcs) (a\<lparr>at_inflight := at_inflight a + 1\<rparr>, Waiting # pcs)"
| fail_add: "i < length pcs \<Longrightarrow> pcs ! i = Waiting \<Longrightarrow>
    exch_step (a, pcs) (a\<lparr>at_fails := at_fails a + 1\<rparr>, pcs[i := FailLoad])"
| fail_load: "i < length pcs \<Longrightarrow> pcs ! i = FailLoad \<Longrightarrow>
    exch_step (a, pcs) (a, pcs[i := if 2 \<le> at_fails a then FailStore else Leaving])"
| fail_store: "i < length pcs \<Longrightarrow> pcs ! i = FailStore \<Longrightarrow>
    exch_step (a, pcs) (a\<lparr>at_healthy := False\<rparr>, pcs[i := Leaving])"
| succ: "i < length pcs \<Longrightarrow> pcs ! i = Waiting \<Longrightarrow>
    exch_step (a, pcs) (a\<lparr>at_fails := 0\<rparr>, pcs[i := SuccHealthy us])"
| succ_healthy: "i < length pcs \<Longrightarrow> pcs ! i = SuccHealthy us \<Longrightarrow>
    exch_step (a, pcs) (a\<lparr>at_healthy := True\<rparr>, pcs[i := EmaLoad us])"
| ema_load: "i < length pcs \<Longrightarrow> pcs ! i = EmaLoad us \<Longrightarrow>
    exch_step (a, pcs) (a, pcs[i := EmaStore (at_latency a) us])"
| ema_store: "i < length pcs \<Longrightarrow> pcs ! i = EmaStore old us \<Longrightarrow>
    exch_step (a, pcs) (a\<lparr>at_latency := ema old us\<rparr>, pcs[i := Leaving])"
| leave: "i < length pcs \<Longrightarrow> pcs ! i = Leaving \<Longrightarrow>
    exch_step (a, pcs) (a\<lparr>at_inflight := at_inflight a - 1\<rparr>, take i pcs @ drop (Suc i) pcs)"

definition idle_upstream :: atomics where
  "idle_upstream = \<lparr>at_inflight = 0, at_fails = 0, at_healthy = True, at_latency = 0\<rparr>"

abbreviation exch_reach :: "atomics \<times> exch_pc list \<Rightarrow> bool" where
  "exch_reach s \<equiv> exch_step\<^sup>*\<^sup>* (idle_upstream, []) s"

inductive_cases exch_stepE: "exch_step (a, pcs) s"

lemma exch_inflight_step:
  assumes "exch_step s s'" and "at_inflight (fst s) = int (length (snd s))" and "0 \<le> at_fails (fst s)"
  shows "at_inflight (fst s') = int (length (snd s')) \<and> 0 \<le> at_fails (fst s')"
  using assms by (induction rule: exch_step.induct) auto

lemma exch_inflight: "exch_reach s \<Longrightarrow> at_inflight (fst s) = int (length (snd s)) \<and> 0 \<le> at_fails (fst s)"
proof (induction rule: rtranclp_induct)
  case base
  show ?case by (simp add: idle_upstream_def)
next
  case (step s s')
  then show ?case using exch_inflight_step by blast
qed

text \<open>An upstream becomes unhealthy only after a load that saw two failures in a row.\<close>

definition saw_failures :: "atomics \<times> exch_pc list \<Rightarrow> bool" where
  "saw_failures s \<longleftrightarrow> FailStore \<in> set (snd s)"

lemma unhealthy_needs_failures:
  "exch_step s s' \<Longrightarrow> at_healthy (fst s) \<Longrightarrow> \<not> at_healthy (fst s') \<Longrightarrow> saw_failures s"
  by (induction rule: exch_step.induct) (auto simp: saw_failures_def in_set_conv_nth)

text \<open>
  The accesses do not form one transaction: a success may land between the load and the store of
  a failing exchange, which leaves the upstream unhealthy with no failure on record.
\<close>

lemma unhealthy_without_failures:
  "exch_reach (\<lparr>at_inflight = 0, at_fails = 0, at_healthy = False, at_latency = 7\<rparr>, [])"
proof -
  let ?a = "\<lambda>n f h l. \<lparr>at_inflight = n, at_fails = f, at_healthy = h, at_latency = l\<rparr>"
  note to = rtranclp.rtrancl_into_rtrancl
  have "exch_reach (?a 0 0 True 0, [])" by (simp add: idle_upstream_def)
  from to [OF this enter] have "exch_reach (?a 1 0 True 0, [Waiting])" by simp
  from to [OF this enter] have "exch_reach (?a 2 0 True 0, [Waiting, Waiting])" by simp
  from to [OF this enter] have "exch_reach (?a 3 0 True 0, [Waiting, Waiting, Waiting])" by simp
  from to [OF this fail_add [of 0]] have "exch_reach (?a 3 1 True 0, [FailLoad, Waiting, Waiting])" by simp
  from to [OF this fail_add [of 1]] have "exch_reach (?a 3 2 True 0, [FailLoad, FailLoad, Waiting])" by simp
  from to [OF this fail_load [of 0]] have "exch_reach (?a 3 2 True 0, [FailStore, FailLoad, Waiting])" by simp
  from to [OF this succ [of 2 _ _ 7]] have "exch_reach (?a 3 0 True 0, [FailStore, FailLoad, SuccHealthy 7])" by simp
  from to [OF this succ_healthy [of 2]] have "exch_reach (?a 3 0 True 0, [FailStore, FailLoad, EmaLoad 7])" by simp
  from to [OF this ema_load [of 2]] have "exch_reach (?a 3 0 True 0, [FailStore, FailLoad, EmaStore 0 7])" by simp
  from to [OF this ema_store [of 2]] have "exch_reach (?a 3 0 True 7, [FailStore, FailLoad, Leaving])" by (simp add: ema_def)
  from to [OF this fail_store [of 0]] have "exch_reach (?a 3 0 False 7, [Leaving, FailLoad, Leaving])" by simp
  from to [OF this fail_load [of 1]] have "exch_reach (?a 3 0 False 7, [Leaving, Leaving, Leaving])" by simp
  from to [OF this leave [of 0]] have "exch_reach (?a 2 0 False 7, [Leaving, Leaving])" by simp
  from to [OF this leave [of 0]] have "exch_reach (?a 1 0 False 7, [Leaving])" by simp
  from to [OF this leave [of 0]] show ?thesis by simp
qed

section \<open>A network for examples\<close>

text \<open>URLs are split by hand, every dial works, and only the addresses in \<open>up\<close> answer.\<close>

definition tiny_net :: "string list \<Rightarrow> net_env" where
  "tiny_net up =
     \<lparr>urlParse = (\<lambda>s. Some \<lparr>uScheme = ''udp'', uHostname = s, uPort = '''', uPath = ''''\<rparr>),
      randId = (\<lambda>t. 7),
      udpExchange = (\<lambda>t a m. (Inl (ErrNet a), t + 1)),
      netDial = (\<lambda>t n c a. (None, t + 1)),
      connExchange = (\<lambda>t n a m. if a \<in> set up then (Inr (Some (m\<lparr>msg_Response := True\<rparr>)), t + 4000) else (Inl (ErrNet a), t + 9)),
      newRequest = (\<lambda>u. None),
      needsDial = (\<lambda>t u. False),
      transportAddr = (\<lambda>u. u),
      uniEqualFold = (\<lambda>s t. s = t),
      httpDo = (\<lambda>t c w u b. (Inl (ErrNet u), t + 1)),
      browserNeedsDial = (\<lambda>t k u. False),
      utlsHandshake = (\<lambda>t c a. (None, t + 1)),
      browserDo = (\<lambda>t k bc c u b. (Inr (200, Some b), t + 1))\<rparr>"

definition udp_up :: "string \<Rightarrow> upstream" where
  "udp_up h = \<lparr>up_url = ''udp://'' @ h, up_kind = kindUDP, up_host = h, up_port = ''53'', up_path = '''', up_weight = 1,
     up_healthy = True, up_browser = False, up_inflight = 0, up_latency = 0, up_fails = 0,
     up_addrCache = Some (h @ '':53''), up_tlsConf = None, up_httpClient = None\<rparr>"

definition udp_pool :: "string list \<Rightarrow> BrowserPool option \<Rightarrow> Pool" where
  "udp_pool hs b = \<lparr>pl_upstreams = map udp_up hs, pl_bootstrap = [], pl_timeout = 3 * Second,
     pl_refreshInt = 300 * Second, pl_browserPool = b, pl_browserOn = (b \<noteq> None)\<rparr>"

section \<open>Properties\<close>



text \<open>
  C29: Failover reaches a working upstream. When one of the three best candidates answers
  exchanges, whatever the time and whatever happened to the other upstreams, the query is
  answered, even if all candidates before it fail.
\<close>

theorem query_fails_over:
  assumes "i \<in> set (take 3 (Select p))"
    and "\<And>p' t'. pl_upstreams p' ! i = pl_upstreams p ! i \<Longrightarrow> length (pl_upstreams p') = length (pl_upstreams p)
        \<Longrightarrow> pl_bootstrap p' = pl_bootstrap p \<Longrightarrow> \<exists>r. fst (exchange D E p' i m t') = Inr r"
  shows "\<exists>r. fst (pool_Query D E p m t) = Inr r"
proof -
  have "isr (fst (query_loop D E m (take 3 (Select p)) errNoUpstream p t))"
  proof (rule query_loop_answers [where i = i])
    fix p' :: Pool and t' :: time
    assume "pl_upstreams p' ! i = pl_upstreams p ! i" "length (pl_upstreams p') = length (pl_upstreams p)"
      "pl_bootstrap p' = pl_bootstrap p"
    from assms(2) [OF this, of t'] show "isr (fst (exchange D E p' i m t'))" by auto
  qed (use Select_props [of p] assms(1) in \<open>auto dest: in_set_takeD\<close>)
  then show ?thesis unfolding pool_Query_def
    by (cases "fst (query_loop D E m (take 3 (Select p)) errNoUpstream p t)") auto
qed

lemma tiny_exchange_up:
  assumes "i < length (pl_upstreams p)" and "pl_upstreams p ! i = udp_up h" and "h @ '':53'' \<in> set up"
  shows "\<exists>r. fst (exchange D (tiny_net up) p i m t) = Inr r"
  using assms
  by (simp add: exchange_def transport_def exchStreamOrPacket_def dialAddr_def tiny_net_def udp_up_def Let_def)

theorem query_fails_over_witness:
  "\<exists>r. fst (pool_Query tiny_mdns (tiny_net [''1.1.1.1:53'']) (udp_pool [''9.9.9.9'', ''1.1.1.1''] None) (ask 1 ''a.'' TypeA) 0) = Inr r"
proof (rule query_fails_over [where i = 1])
  let ?p = "udp_pool [''9.9.9.9'', ''1.1.1.1''] None"
  show "1 \<in> set (take 3 (Select ?p))"
    by code_simp
  fix p' :: Pool and t' :: time
  assume p': "pl_upstreams p' ! 1 = pl_upstreams ?p ! 1" "length (pl_upstreams p') = length (pl_upstreams ?p)"
  show "\<exists>r. fst (exchange tiny_mdns (tiny_net [''1.1.1.1:53'']) p' 1 (ask 1 ''a.'' TypeA) t') = Inr r"
    by (rule tiny_exchange_up [where h = "''1.1.1.1''"]) (use p' in \<open>simp_all add: udp_pool_def\<close>)
qed

text \<open>
  C30: The outcome of a query. A query that returns an error has tried the three best candidates
  (all, when fewer), each of which has one more consecutive failure and is unhealthy from the
  second failure on; a query that returns a reply has done so for the candidates before the one
  that served it, which is healthy afterwards. In both cases every other upstream is exactly as it
  was and no in-flight counter has moved.
\<close>

theorem query_bookkeeping:
  assumes "pool_Query D E p m t = (r, q, t')"
  shows "\<exists>ys zs. take 3 (Select p) = ys @ zs \<and> (isl r \<longleftrightarrow> zs = [])
    \<and> (\<forall>k \<in> set ys. up_fails (pl_upstreams q ! k) = up_fails (pl_upstreams p ! k) + 1
         \<and> up_healthy (pl_upstreams q ! k) = (up_healthy (pl_upstreams p ! k) \<and> up_fails (pl_upstreams q ! k) < 2))
    \<and> (zs \<noteq> [] \<longrightarrow> up_healthy (pl_upstreams q ! hd zs))
    \<and> (\<forall>k. k \<notin> set ys \<and> (zs = [] \<or> k \<noteq> hd zs) \<longrightarrow> pl_upstreams q ! k = pl_upstreams p ! k)
    \<and> map up_inflight (pl_upstreams q) = map up_inflight (pl_upstreams p)"
proof -
  have "tried (take 3 (Select p)) (isr r) p q"
    using assms unfolding pool_Query_def
    by (rule query_loop_tried) (use Select_props [of p] in \<open>auto dest: in_set_takeD\<close>)
  then obtain ys zs where yz: "length (pl_upstreams q) = length (pl_upstreams p)" "take 3 (Select p) = ys @ zs"
    "isr r \<longleftrightarrow> zs \<noteq> []" "\<forall>k \<in> set ys. failed (pl_upstreams p ! k) (pl_upstreams q ! k)"
    "isr r \<longrightarrow> served (pl_upstreams p ! hd zs) (pl_upstreams q ! hd zs)"
    "\<forall>k. k \<notin> set ys \<and> (zs = [] \<or> k \<noteq> hd zs) \<longrightarrow> pl_upstreams q ! k = pl_upstreams p ! k"
    unfolding tried_def by blast
  have "up_inflight (pl_upstreams q ! k) = up_inflight (pl_upstreams p ! k)" for k
    using yz(3-6) unfolding failed_def served_def by metis
  then have "map up_inflight (pl_upstreams q) = map up_inflight (pl_upstreams p)"
    using yz(1) by (intro nth_equalityI) simp_all
  with yz show ?thesis unfolding failed_def served_def by blast
qed

theorem query_bookkeeping_witness:
  "\<exists>r q t'. pool_Query tiny_mdns (tiny_net []) (udp_pool [''9.9.9.9''] None) (ask 1 ''a.'' TypeA) 0 = (r, q, t')
     \<and> map up_inflight (pl_upstreams q) = [0]"
proof -
  obtain r q t' where eq: "pool_Query tiny_mdns (tiny_net []) (udp_pool [''9.9.9.9''] None) (ask 1 ''a.'' TypeA) 0 = (r, q, t')"
    by (metis prod_cases3)
  have "map up_inflight (pl_upstreams q) = [0]"
    using query_bookkeeping [OF eq] by (auto simp: udp_pool_def udp_up_def)
  with eq show ?thesis by (intro exI conjI)
qed

text \<open>
  C32: Health in sequential runs. In every pool that queries, probes and address refreshes reach
  from a new one, no query is left in flight and an upstream is marked unhealthy only while its
  last two exchanges or more have failed.
\<close>

theorem pool_health_invariant:
  assumes "pool_reach L D E p"
  shows "pl_upstreams p \<noteq> [] \<and> (\<forall>u \<in> set (pl_upstreams p). up_inflight u = 0 \<and> 0 \<le> up_fails u
    \<and> (\<not> up_healthy u \<longrightarrow> 2 \<le> up_fails u))"
  using pool_reach_counters [OF assms] unfolding counters_def counters_ok_def
  by (metis in_set_conv_nth)

theorem pool_health_invariant_witness:
  "\<exists>p. pool_reach ascii_lib tiny_mdns (tiny_net []) p \<and> (\<forall>u \<in> set (pl_upstreams p). up_inflight u = 0)"
proof -
  obtain p where "NewPool ascii_lib (tiny_net []) [''9.9.9.9''] [] [] Second [] = Inr p"
    by (simp add: NewPool_def newUpstream_def tiny_net_def scheme_kind_def go_ToLower_def isASCII_def ascii_lower_def Let_def)
  then have r: "pool_reach ascii_lib tiny_mdns (tiny_net []) p" by (rule pool_reach.created) simp
  with pool_health_invariant [OF r] show ?thesis by blast
qed



text \<open>
  The latency estimate. A successful exchange stores its duration in microseconds as the first
  estimate and afterwards a value between the old estimate and the new measurement, so estimates
  never leave the range of what was measured.
\<close>

theorem latency_is_average:
  assumes "exchange D E p i m t = (Inr r, q, t')" and "i < length (pl_upstreams p)"
    and "0 \<le> up_latency (pl_upstreams p ! i)" and "t \<le> t'"
  shows "let old = up_latency (pl_upstreams p ! i); us = (t' - t) div 1000; new = up_latency (pl_upstreams q ! i)
    in 0 \<le> new \<and> new \<le> max old us \<and> (if old = 0 then new = us else min old us \<le> new)"
proof -
  have "0 \<le> (t' - t) div 1000" using assms(4) by (simp add: pos_imp_zdiv_nonneg_iff)
  then show ?thesis
    using exchange_served [OF assms(1,2)] assms(3) by (auto simp: ema_def Let_def min_def max_def)
qed

theorem latency_is_average_witness:
  "\<exists>r q t'. exchange tiny_mdns (tiny_net [''1.1.1.1:53'']) (udp_pool [''1.1.1.1''] None) 0 (ask 1 ''a.'' TypeA) 0 = (Inr r, q, t')
     \<and> up_latency (pl_upstreams q ! 0) = 4"
proof -
  let ?r = "exchange tiny_mdns (tiny_net [''1.1.1.1:53'']) (udp_pool [''1.1.1.1''] None) 0 (ask 1 ''a.'' TypeA) 0"
  obtain r q where eq: "?r = (Inr r, q, 4001)"
    by (simp add: exchange_def transport_def exchStreamOrPacket_def dialAddr_def tiny_net_def udp_up_def udp_pool_def upd_def Let_def)
  from latency_is_average [OF eq] have "up_latency (pl_upstreams q ! 0) = 4"
    by (simp add: udp_pool_def udp_up_def Let_def)
  with eq show ?thesis by blast
qed

text \<open>
  The browser transport runs after the failures of the tried candidates alone: here it serves a
  query while a fourth, healthy upstream that would have answered was never asked.
\<close>

lemma browser_used_despite_healthy_upstream:
  "let p = udp_pool [''9.9.9.9'', ''8.8.8.8'', ''7.7.7.7'', ''1.1.1.1''] (case NewBrowserPool 1 of Inl _ \<Rightarrow> None | Inr b \<Rightarrow> Some b);
       (r, q, t') = pool_Query tiny_mdns (tiny_net [''1.1.1.1:53'']) p (ask 1 ''a.'' TypeA) 0
   in isr r \<and> up_healthy (pl_upstreams q ! 3) \<and> up_browser (pl_upstreams q ! 2)
      \<and> map_option bp_idx (pl_browserPool q) = Some 1"
  by code_simp

end
