(* ===== verification/Dns_Server.thy ===== *)
theory Dns_Server
  imports Filter_Engine Reply_Cache Dns_Metrics Upstream_Pool Query_Store
begin

text \<open>
  The request pipeline, \<^verbatim>\<open>src/internal/dns/server.go\<close>: block, cache, upstream, uncloak, for
  plain DNS and DoT (\<^verbatim>\<open>ServeDNS\<close>) and for DNS over HTTPS (\<^verbatim>\<open>handleDoH\<close>), with the
  accounting of every query. The state threads through the filter engine, the reply cache, the
  upstream pool, the live metrics and the store. Requests are handled one after another; what the
  parts do under concurrency is the subject of their own theories.

  A run-time panic of the Go code is the result \<open>None\<close>: it ends the process for plain DNS and
  the request for DoH.
\<close>

section \<open>State\<close>

text \<open>Listen addresses, certificates and the source of TLS configurations serve the listeners (\<^verbatim>\<open>Dns_Listen\<close>).\<close>

record srv_Config =
  cfg_ListenPlain :: string
  cfg_ListenDoT :: string
  cfg_ListenDoH :: string
  cfg_DotCert :: "Certificate option"
  cfg_DoHCert :: "Certificate option"
  cfg_TLSConfigFunc :: "(string list \<Rightarrow> tls_Config) option"
  cfg_Domain :: string
  cfg_PerDeviceDoH :: bool
  cfg_Upstreams :: "string list"
  cfg_Weights :: "int list"
  cfg_Bootstrap :: "string list"
  cfg_Timeout :: duration
  cfg_CacheSize :: int
  cfg_CacheMinTTL :: duration
  cfg_CacheMaxTTL :: duration
  cfg_FailTTL :: duration
  cfg_Blocker :: "Engine option"
  cfg_Store :: "Store option"
  cfg_Browser :: "BrowserPool option"

record Server =
  srv_cfg :: srv_Config
  srv_pool :: Pool
  srv_filter :: Engine
  srv_cache :: replyCache
  srv_clientByID :: "(int, string) gomap"
  srv_Live :: Metrics
  srv_store :: Store

datatype srvErr = ErrStoreRequired | ErrBlockerRequired | ErrPool dnsErr

definition NewServer :: "name_lib \<Rightarrow> net_env \<Rightarrow> time \<Rightarrow> srv_Config \<Rightarrow> srvErr + Server" where
  "NewServer L E now cfg =
     (case cfg_Store cfg of
        None \<Rightarrow> Inl ErrStoreRequired
      | Some st \<Rightarrow>
          (case cfg_Blocker cfg of
             None \<Rightarrow> Inl ErrBlockerRequired
           | Some bl \<Rightarrow>
               let cfg = (if cfg_CacheSize cfg \<le> 0 then cfg\<lparr>cfg_CacheSize := 65536\<rparr> else cfg);
                   cfg = (if cfg_Timeout cfg \<le> 0 then cfg\<lparr>cfg_Timeout := 3 * Second\<rparr> else cfg);
                   opts = (case cfg_Browser cfg of None \<Rightarrow> [] | Some b \<Rightarrow> [WithBrowserUpstream (Some b)])
               in (case NewPool L E (cfg_Upstreams cfg) (cfg_Weights cfg) (cfg_Bootstrap cfg) (cfg_Timeout cfg) opts of
                     Inl err \<Rightarrow> Inl (ErrPool err)
                   | Inr pool \<Rightarrow>
                       Inr \<lparr>srv_cfg = cfg, srv_pool = pool, srv_filter = bl,
                            srv_cache = newReplyCache (cfg_CacheSize cfg) (1 * Hour),
                            srv_clientByID = [], srv_Live = NewMetrics now, srv_store = st\<rparr>)))"

section \<open>Block responses\<close>

text \<open>\<^verbatim>\<open>Addr.As4\<close> panics on the zero address and on IPv6 addresses that are not mapped.\<close>

fun addr_As4 :: "Addr \<Rightarrow> u32 option" where
  "addr_As4 AddrZero = None"
| "addr_As4 (Addr4 w) = Some w"
| "addr_As4 (Addr6 w z) = (if is4In6 w then Some (ucast w) else None)"

fun addr_As16 :: "Addr \<Rightarrow> 128 word" where
  "addr_As16 AddrZero = 0"
| "addr_As16 (Addr4 w) = push_bit 32 65535 + ucast w"
| "addr_As16 (Addr6 w z) = w"

definition blockResponse :: "mdns_lib \<Rightarrow> Engine \<Rightarrow> Msg \<Rightarrow> Msg option" where
  "blockResponse D e r =
     (case msg_Question r of
        [] \<Rightarrow> None
      | q # _ \<Rightarrow>
          let resp = (setReply D r)\<lparr>msg_RecursionAvailable := True, msg_Rcode := RcodeSuccess\<rparr> in
          if q_Qtype q = TypeA then
            (case addr_As4 (BlockIPv4 e) of
               None \<Rightarrow> None
             | Some a4 \<Rightarrow>
                 Some (resp\<lparr>msg_Answer := [A \<lparr>hdr_Name = q_Name q, hdr_Rrtype = TypeA, hdr_Class = ClassINET, hdr_Ttl = 60\<rparr> (Some a4)]\<rparr>))
          else if q_Qtype q = TypeAAAA then
            Some (resp\<lparr>msg_Answer := [AAAA \<lparr>hdr_Name = q_Name q, hdr_Rrtype = TypeAAAA, hdr_Class = ClassINET, hdr_Ttl = 60\<rparr>
                     (Some (addr_As16 (BlockIPv6 e)))]\<rparr>)
          else Some (resp\<lparr>msg_Rcode := RcodeNameError\<rparr>))"

section \<open>Uncloaking\<close>

fun rr_target :: "name_lib \<Rightarrow> RR \<Rightarrow> string" where
  "rr_target L (CNAME h t) = go_ToLower (uniLower L) (TrimSuffix t ''.'')"
| "rr_target L rr = ''''"

text \<open>The loop over the answers: the first blocked target, and the engine with its counters.\<close>

fun uncloak_scan :: "name_lib \<Rightarrow> Engine \<Rightarrow> string list \<Rightarrow> RR list \<Rightarrow> string option \<times> Engine" where
  "uncloak_scan L e seen [] = (None, e)"
| "uncloak_scan L e seen (rr # rrs) =
     (let target = rr_target L rr in
      if target \<noteq> '''' \<and> target \<notin> set seen then
        (case Check L e target of
           (True, e) \<Rightarrow> (Some target, e)
         | (False, e) \<Rightarrow> uncloak_scan L e (target # seen) rrs)
      else uncloak_scan L e seen rrs)"

definition uncloak :: "name_lib \<Rightarrow> Engine \<Rightarrow> string \<Rightarrow> Msg \<Rightarrow> Msg \<times> Engine" where
  "uncloak L e qname resp =
     (if msg_Rcode resp \<noteq> RcodeSuccess \<or> msg_Answer resp = [] then (resp, e)
      else (case uncloak_scan L e [qname] (msg_Answer resp) of
          (None, e) \<Rightarrow> (resp, e)
        | (Some _, e) \<Rightarrow> (resp\<lparr>msg_Answer := [], msg_Ns := [], msg_Extra := []\<rparr>, e)))"

section \<open>Resolution\<close>

definition upstream_request :: "name_lib \<Rightarrow> Msg \<Rightarrow> string \<Rightarrow> Msg" where
  "upstream_request L r qname =
     r\<lparr>msg_Id := 0,
       msg_Question := (case msg_Question r of [] \<Rightarrow> [] | q # qs \<Rightarrow> q\<lparr>q_Name := idnaFqdn L qname\<rparr> # qs),
       msg_Extra := []\<rparr>"

definition resolve ::
  "name_lib \<Rightarrow> mdns_lib \<Rightarrow> net_env \<Rightarrow> Server \<Rightarrow> Msg \<Rightarrow> string \<Rightarrow> time \<Rightarrow> ((dnsErr + Msg) \<times> Server \<times> time) option" where
  "resolve L D E s r qname t =
     (case pool_Query D E (srv_pool s) (upstream_request L r qname) t of
        (Inl err, pool, t) \<Rightarrow> Some (Inl err, s\<lparr>srv_pool := pool\<rparr>, t)
      | (Inr None, pool, t) \<Rightarrow> None
      | (Inr (Some resp), pool, t) \<Rightarrow>
          let s = s\<lparr>srv_pool := pool\<rparr>;
              resp = resp\<lparr>msg_Id := msg_Id r, msg_Question := msg_Question r\<rparr>;
              (resp, e) = uncloak L (srv_filter s) qname resp;
              s = s\<lparr>srv_filter := e\<rparr>
          in if msg_Rcode resp = RcodeSuccess \<or> msg_Rcode resp = RcodeNameError then
               let (ttl, resp) = clampTTLs resp (cfg_CacheMinTTL (srv_cfg s)) (cfg_CacheMaxTTL (srv_cfg s));
                   ttl = (if msg_Rcode resp = RcodeNameError \<and> 0 < cfg_FailTTL (srv_cfg s) then cfg_FailTTL (srv_cfg s) else ttl)
               in (case cache_put L D t (srv_cache s) r resp ttl of
                     None \<Rightarrow> None
                   | Some c \<Rightarrow> Some (Inr resp, s\<lparr>srv_cache := c\<rparr>, t))
             else Some (Inr resp, s, t))"

section \<open>The pipeline\<close>

definition query_name :: "name_lib \<Rightarrow> dns_Question \<Rightarrow> string" where
  "query_name L q = go_ToLower (uniLower L) (TrimSuffix (q_Name q) ''.'')"

definition handle ::
  "name_lib \<Rightarrow> mdns_lib \<Rightarrow> net_env \<Rightarrow> Server \<Rightarrow> Msg \<Rightarrow> time \<Rightarrow> ((Msg option \<times> bool \<times> bool) \<times> Server \<times> time) option" where
  "handle L D E s r t =
     (case msg_Question r of
        [] \<Rightarrow> Some ((None, False, False), s, t)
      | q # _ \<Rightarrow>
          let qname = query_name L q;
              (blocked, e) = Check L (srv_filter s) qname;
              s = s\<lparr>srv_filter := e\<rparr>
          in if blocked then
               (case blockResponse D (srv_filter s) r of
                  None \<Rightarrow> None
                | Some resp \<Rightarrow> Some ((Some resp, True, False), s, t))
             else
               (case cache_get L D t (srv_cache s) r of
                  None \<Rightarrow> None
                | Some ((Some m, True, _), c) \<Rightarrow>
                    Some ((Some (m\<lparr>msg_Id := msg_Id r\<rparr>), False, True), s\<lparr>srv_cache := c\<rparr>, t)
                | Some ((Some m, False, _), c) \<Rightarrow>
                    (case resolve L D E (s\<lparr>srv_cache := c\<rparr>) r qname t of
                       None \<Rightarrow> None
                     | Some (Inr resp, s, t) \<Rightarrow> Some ((Some resp, False, False), s, t)
                     | Some (Inl _, s, t) \<Rightarrow>
                         Some ((Some (m\<lparr>msg_Id := msg_Id r\<rparr>), False, True), s\<lparr>srv_Live := ObserveStale (srv_Live s)\<rparr>, t))
                | Some ((None, _, _), c) \<Rightarrow>
                    (case resolve L D E (s\<lparr>srv_cache := c\<rparr>) r qname t of
                       None \<Rightarrow> None
                     | Some (Inr resp, s, t) \<Rightarrow> Some ((Some resp, False, False), s, t)
                     | Some (Inl _, s, t) \<Rightarrow> Some ((None, False, False), s, t))))"

definition observe ::
  "name_lib \<Rightarrow> mdns_lib \<Rightarrow> Server \<Rightarrow> string \<Rightarrow> int \<Rightarrow> Msg \<Rightarrow> bool \<Rightarrow> bool \<Rightarrow> time \<Rightarrow> Server" where
  "observe L D s clientName clientID r blocked cached now =
     (let (qname, qtype) =
            (case msg_Question r of
               [] \<Rightarrow> ('''', '''')
             | q # _ \<Rightarrow> (TrimSuffix (go_ToLower (uniLower L) (q_Name q)) ''.'', typeString D (q_Qtype q)))
      in s\<lparr>srv_Live := Observe now (srv_Live s) clientName clientID qname qtype blocked cached,
           srv_store := RecordQuery now (srv_store s) clientID qname qtype blocked 0\<rparr>)"

text \<open>The message written to the client, and the server afterwards.\<close>

definition ServeDNS ::
  "name_lib \<Rightarrow> mdns_lib \<Rightarrow> net_env \<Rightarrow> Server \<Rightarrow> Msg \<Rightarrow> time \<Rightarrow> (Msg \<times> Server \<times> time) option" where
  "ServeDNS L D E s r t =
     (case handle L D E s r t of
        None \<Rightarrow> None
      | Some ((None, _, _), s, t) \<Rightarrow> Some (failedReply D r, observe L D s ''local'' 0 r False False t, t)
      | Some ((Some resp, blocked, cached), s, t) \<Rightarrow> Some (resp, observe L D s ''local'' 0 r blocked cached t, t))"

section \<open>DNS over HTTPS\<close>

text \<open>
  \<^verbatim>\<open>base64.RawURLEncoding.Strict()\<close>: line breaks are skipped, there is no padding, and the
  unused bits of the last character must be zero.
\<close>

definition b64url_val :: "char \<Rightarrow> int option" where
  "b64url_val c =
     (let n = (of_char c :: int) in
      if 65 \<le> n \<and> n \<le> 90 then Some (n - 65)
      else if 97 \<le> n \<and> n \<le> 122 then Some (n - 71)
      else if 48 \<le> n \<and> n \<le> 57 then Some (n + 4)
      else if n = 45 then Some 62
      else if n = 95 then Some 63
      else None)"

definition byte :: "int \<Rightarrow> char" where
  "byte n = char_of (n mod 256)"

fun b64_bytes :: "int list \<Rightarrow> bytes option" where
  "b64_bytes [] = Some []"
| "b64_bytes [_] = None"
| "b64_bytes [a, b] = (if b mod 16 = 0 then Some [byte (a * 4 + b div 16)] else None)"
| "b64_bytes [a, b, c] =
     (if c mod 4 = 0 then Some [byte (a * 4 + b div 16), byte (b mod 16 * 16 + c div 4)] else None)"
| "b64_bytes (a # b # c # d # rest) =
     map_option (\<lambda>bs. byte (a * 4 + b div 16) # byte (b mod 16 * 16 + c div 4) # byte (c mod 4 * 64 + d) # bs)
       (b64_bytes rest)"

definition base64RawURLDecode :: "string \<Rightarrow> bytes option" where
  "base64RawURLDecode s =
     (let vs = map b64url_val (filter (\<lambda>c. c \<noteq> CHR 0x0A \<and> c \<noteq> CHR 0x0D) s)
      in if None \<in> set vs then None else b64_bytes (map the vs))"

text \<open>What the handler reads of a request; \<open>None\<close> as the body is a read error.\<close>

record doh_request =
  dq_Method :: string
  dq_Path :: string
  dq_dns :: string
  dq_ContentType :: string
  dq_Body :: "bytes option"

datatype doh_response =
    HttpError int string
  | HttpMsg bytes u32

definition ttlOf :: "Msg \<Rightarrow> u32" where
  "ttlOf m = (case msg_Answer m of [] \<Rightarrow> 60 | rr # _ \<Rightarrow> hdr_Ttl (rr_Header rr))"

text \<open>The identity under a per-device path: the error, or the client and the touched store.\<close>

definition doh_identity :: "time \<Rightarrow> Server \<Rightarrow> string \<Rightarrow> doh_response + (int \<times> string \<times> Server)" where
  "doh_identity now s path =
     (if cfg_PerDeviceDoH (srv_cfg s) \<and> HasPrefix path ''/dns/'' then
        let tok = TrimSuffix (TrimPrefix path ''/dns/'') ''/'' in
        if tok = '''' \<or> length tok < 16 then Inl (HttpError 403 ''forbidden'')
        else (case ClientByToken (srv_store s) tok of
            Inl _ \<Rightarrow> Inl (HttpError 403 ''forbidden'')
          | Inr c \<Rightarrow>
              if \<not> cl_Active c then Inl (HttpError 403 ''forbidden'')
              else Inr (cl_ID c, cl_Name c, s\<lparr>srv_store := snd (TouchClient now (srv_store s) (cl_ID c) tok)\<rparr>))
      else Inr (0, ''doh'', s))"

definition doh_wire :: "doh_request \<Rightarrow> doh_response + bytes" where
  "doh_wire req =
     (if dq_Method req = ''GET'' then
        if dq_dns req = '''' then Inl (HttpError 400 ''missing dns param'')
        else (case base64RawURLDecode (dq_dns req) of
            None \<Rightarrow> Inl (HttpError 400 ''bad dns param'')
          | Some w \<Rightarrow> Inr w)
      else if dq_Method req = ''POST'' then
        if dq_ContentType req \<noteq> ''application/dns-message'' then Inl (HttpError 415 ''bad content type'')
        else (case dq_Body req of
            None \<Rightarrow> Inl (HttpError 400 ''read error'')
          | Some b \<Rightarrow> Inr (limit_read 65536 b))
      else Inl (HttpError 405 ''method not allowed''))"

definition handleDoH ::
  "name_lib \<Rightarrow> mdns_lib \<Rightarrow> net_env \<Rightarrow> Server \<Rightarrow> doh_request \<Rightarrow> time \<Rightarrow> (doh_response \<times> Server \<times> time) option" where
  "handleDoH L D E s req t =
     (case doh_identity t s (dq_Path req) of
        Inl e \<Rightarrow> Some (e, s, t)
      | Inr (clientID, clientName, s) \<Rightarrow>
          (case doh_wire req of
             Inl e \<Rightarrow> Some (e, s, t)
           | Inr wire \<Rightarrow>
               (case msgUnpack D wire of
                  None \<Rightarrow> Some (HttpError 400 ''bad dns message'', s, t)
                | Some q \<Rightarrow>
                    (case handle L D E s q t of
                       None \<Rightarrow> None
                     | Some ((None, _, _), s, t) \<Rightarrow>
                         Some (HttpError 503 ''resolution failed'', observe L D s clientName clientID q False False t, t)
                     | Some ((Some resp, blocked, cached), s, t) \<Rightarrow>
                         (case msgPack D resp of
                            None \<Rightarrow> Some (HttpError 500 ''pack error'', s, t)
                          | Some out \<Rightarrow>
                              Some (HttpMsg out (ttlOf resp), observe L D s clientName clientID q blocked cached t, t))))))"

definition ClientName :: "Server \<Rightarrow> int \<Rightarrow> string" where
  "ClientName s i = (case map_of (srv_clientByID s) i of Some n \<Rightarrow> n | None \<Rightarrow> ''device-'' @ itoa i)"

section \<open>What the pipeline changes\<close>

lemma Check_Verdict: "fst (Check L e d) = Verdict L e d"
  by (rule eng.check_verdict)

lemma Verdict_Check [simp]: "Verdict L (snd (Check L e d)) = Verdict L e"
  by (rule eng.verdict_kept)

lemma BlockIP_Check [simp]:
  "BlockIPv4 (snd (Check L e d)) = BlockIPv4 e" "BlockIPv6 (snd (Check L e d)) = BlockIPv6 e"
  by (rule eng.ip4_kept, rule eng.ip6_kept)

text \<open>The scan finds a target exactly when an unseen one is blocked; verdicts stay.\<close>

lemma uncloak_scan_spec:
  "uncloak_scan L e seen rrs = (r, e') \<Longrightarrow> Verdict L e' = Verdict L e
     \<and> BlockIPv4 e' = BlockIPv4 e \<and> BlockIPv6 e' = BlockIPv6 e
     \<and> (r = None \<longleftrightarrow> (\<forall>rr \<in> set rrs. rr_target L rr = '''' \<or> rr_target L rr \<in> set seen \<or> \<not> Verdict L e (rr_target L rr)))"
proof (induction rrs arbitrary: e seen)
  case (Cons rr rrs)
  show ?case
  proof (cases "rr_target L rr \<noteq> '''' \<and> rr_target L rr \<notin> set seen")
    case False
    then show ?thesis using Cons.IH [of e seen] Cons.prems by (auto simp: Let_def split: if_splits)
  next
    case True
    obtain b e1 where ck: "Check L e (rr_target L rr) = (b, e1)" by (cases "Check L e (rr_target L rr)") auto
    then have "b = Verdict L e (rr_target L rr)" "Verdict L e1 = Verdict L e"
      "BlockIPv4 e1 = BlockIPv4 e" "BlockIPv6 e1 = BlockIPv6 e"
      using Check_Verdict [of L e "rr_target L rr"] Verdict_Check [of L e "rr_target L rr"]
        BlockIP_Check [of L e "rr_target L rr"] by simp_all
    then show ?thesis using True ck Cons.prems Cons.IH [of e1 "rr_target L rr # seen"]
      by (cases b) (auto simp: Let_def)
  qed
qed simp

text \<open>A reply without a blocked alias target.\<close>

definition clean_reply :: "name_lib \<Rightarrow> (string \<Rightarrow> bool) \<Rightarrow> Msg \<Rightarrow> bool" where
  "clean_reply L blocked m \<longleftrightarrow>
     (msg_Rcode m = RcodeSuccess \<longrightarrow> (\<forall>h tgt. CNAME h tgt \<in> set (msg_Answer m) \<longrightarrow> \<not> blocked (go_ToLower (uniLower L) (TrimSuffix tgt ''.''))))"

lemma Verdict_empty [simp]: "\<not> Verdict L e ''''"
proof -
  have "Normalize L '''' = ''''"
    by (simp add: Normalize_def go_Trim_def go_ToLower_def isASCII_def TrimSpace_def drop_spaces.simps)
  then show ?thesis by (simp add: Verdict_def Has_def)
qed

lemma uncloak_spec:
  assumes "uncloak L e qname m = (m', e')" and "\<not> Verdict L e qname"
  shows "Verdict L e' = Verdict L e \<and> BlockIPv4 e' = BlockIPv4 e \<and> BlockIPv6 e' = BlockIPv6 e
    \<and> clean_reply L (Verdict L e) m'
    \<and> msg_Id m' = msg_Id m \<and> msg_Question m' = msg_Question m \<and> msg_Rcode m' = msg_Rcode m
    \<and> (m' = m \<or> msg_Answer m' = [])"
proof (cases "msg_Rcode m \<noteq> RcodeSuccess \<or> msg_Answer m = []")
  case True
  then show ?thesis using assms by (auto simp: uncloak_def clean_reply_def)
next
  case False
  obtain r e1 where sc: "uncloak_scan L e [qname] (msg_Answer m) = (r, e1)"
    by (cases "uncloak_scan L e [qname] (msg_Answer m)") auto
  note sp = uncloak_scan_spec [OF sc]
  show ?thesis
  proof (cases r)
    case (Some x)
    then show ?thesis using False sc sp assms(1) by (auto simp: uncloak_def clean_reply_def)
  next
    case None
    then have eq: "m' = m" "e' = e1" using False sc assms(1) by (auto simp: uncloak_def)
    have "\<not> Verdict L e (rr_target L rr)" if "rr \<in> set (msg_Answer m)" for rr
      using sp None that assms(2) Verdict_empty by (metis empty_set list.simps(15) singletonD)
    then have "clean_reply L (Verdict L e) m" unfolding clean_reply_def by (metis rr_target.simps(1))
    then show ?thesis using eq sp by simp
  qed
qed

section \<open>The server invariant\<close>

definition key_text :: "name_lib \<Rightarrow> mdns_lib \<Rightarrow> dns_Question \<Rightarrow> bool \<Rightarrow> string" where
  "key_text L D q b = go_ToLower (uniLower L) (q_Name q) @ ''|'' @ typeString D (q_Qtype q) @ ''|'' @ (if b then ''1'' else ''0'')"

lemma cacheKey_text: "msg_Question r = q # qs \<Longrightarrow> \<exists>b. cacheKey L D r = Some (key_text L D q b)"
  by (auto simp: cacheKey_def key_text_def Let_def)

text \<open>What holds of a reply stored under a key: no blocked alias, and the question of the key.\<close>

definition stored_ok :: "name_lib \<Rightarrow> mdns_lib \<Rightarrow> (string \<Rightarrow> bool) \<Rightarrow> string \<Rightarrow> Msg \<Rightarrow> bool" where
  "stored_ok L D V k m \<longleftrightarrow> clean_reply L V m \<and> (\<exists>q qs b. msg_Question m = q # qs \<and> k = key_text L D q b)"

text \<open>
  The cache holds clean replies with respect to \<open>V\<close>, a set of names that the filter blocks: all
  of them in a run without a refresh, or those that stay blocked through one.
\<close>

definition srv_ok :: "name_lib \<Rightarrow> mdns_lib \<Rightarrow> (string \<Rightarrow> bool) \<Rightarrow> Server \<Rightarrow> bool" where
  "srv_ok L D V s \<longleftrightarrow> wf_cache (srv_cache s) \<and>
     (\<forall>(k, m) \<in> cache_content (srv_cache s). stored_ok L D V k m) \<and> (\<forall>d. V d \<longrightarrow> Verdict L (srv_filter s) d)"

text \<open>The filter of \<open>s'\<close> decides as that of \<open>s\<close> does.\<close>

definition same_filter :: "name_lib \<Rightarrow> Server \<Rightarrow> Server \<Rightarrow> bool" where
  "same_filter L s s' \<longleftrightarrow> Verdict L (srv_filter s') = Verdict L (srv_filter s)
     \<and> BlockIPv4 (srv_filter s') = BlockIPv4 (srv_filter s) \<and> BlockIPv6 (srv_filter s') = BlockIPv6 (srv_filter s)"

lemma same_filter_refl [simp]: "same_filter L s s"
  by (simp add: same_filter_def)

lemma same_filter_trans: "same_filter L s s1 \<Longrightarrow> same_filter L s1 s2 \<Longrightarrow> same_filter L s s2"
  by (simp add: same_filter_def)

lemma srv_ok_mono:
  "srv_ok L D V s \<Longrightarrow> srv_cache s' = srv_cache s \<Longrightarrow> same_filter L s s' \<Longrightarrow> srv_ok L D V s'"
  by (simp add: srv_ok_def same_filter_def)

lemma clean_clamp:
  assumes "clean_reply L V m" and "clampTTLs m mn mx = (ttl, m')"
  shows "clean_reply L V m' \<and> msg_Id m' = msg_Id m \<and> msg_Question m' = msg_Question m \<and> msg_Rcode m' = msg_Rcode m"
proof -
  let ?t = "of_int (fst (clampTTLs m mn mx) div Second) :: u32"
  have m': "m' = m\<lparr>msg_Answer := set_ttls ?t (msg_Answer m), msg_Ns := set_ttls ?t (msg_Ns m), msg_Extra := set_ttls ?t (msg_Extra m)\<rparr>"
    using clampTTLs_msg [of m mn mx] assms(2) by (simp add: Let_def)
  have "\<exists>h'. CNAME h' n \<in> set rrs" if cn: "CNAME h n \<in> set (set_ttls t rrs)" for h n t rrs
  proof -
    from cn obtain rr where rr: "rr \<in> set rrs" "CNAME h n = (if isOPT rr then rr else rr_SetTtl t rr)"
      by (auto simp: set_ttls_def)
    from rr(2) have "\<exists>h'. rr = CNAME h' n" by (cases rr) (auto split: if_splits)
    with rr(1) show ?thesis by blast
  qed
  then show ?thesis using assms(1) unfolding m' clean_reply_def by (auto) blast
qed

lemma resolve_spec:
  assumes ok: "srv_ok L D V s" and q: "msg_Question r = q # qs" and nv: "\<not> Verdict L (srv_filter s) qname"
    and res: "resolve L D E s r qname t = Some (x, s', t')"
  shows "srv_ok L D V s' \<and> same_filter L s s' \<and> srv_cfg s' = srv_cfg s \<and> srv_Live s' = srv_Live s \<and> srv_store s' = srv_store s
    \<and> (\<forall>m. x = Inr m \<longrightarrow> clean_reply L V m \<and> msg_Id m = msg_Id r \<and> msg_Question m = msg_Question r)"
proof -
  obtain y pool t1 where pq: "pool_Query D E (srv_pool s) (upstream_request L r qname) t = (y, pool, t1)"
    by (cases "pool_Query D E (srv_pool s) (upstream_request L r qname) t") auto
  show ?thesis
  proof (cases y)
    case (Inl e)
    then have "x = Inl e" "s' = s\<lparr>srv_pool := pool\<rparr>" using res pq by (auto simp: resolve_def)
    then show ?thesis using ok by (auto simp: srv_ok_def same_filter_def)
  next
    case (Inr o')
    then obtain resp where resp: "y = Inr (Some resp)" using res pq by (cases o') (auto simp: resolve_def)
    let ?m = "resp\<lparr>msg_Id := msg_Id r, msg_Question := msg_Question r\<rparr>"
    obtain m e where un: "uncloak L (srv_filter s) qname ?m = (m, e)" by (cases "uncloak L (srv_filter s) qname ?m") auto
    note us = uncloak_spec [OF un nv]
    obtain ttl m2 where cl: "clampTTLs m (cfg_CacheMinTTL (srv_cfg s)) (cfg_CacheMaxTTL (srv_cfg s)) = (ttl, m2)"
      by (cases "clampTTLs m (cfg_CacheMinTTL (srv_cfg s)) (cfg_CacheMaxTTL (srv_cfg s))") auto
    have cv: "clean_reply L V m" using us ok by (auto simp: clean_reply_def srv_ok_def)
    then have cm: "clean_reply L V m2 \<and> msg_Id m2 = msg_Id r \<and> msg_Question m2 = msg_Question r"
      using clean_clamp [OF _ cl, of L V] us by simp
    show ?thesis
    proof (cases "msg_Rcode m = RcodeSuccess \<or> msg_Rcode m = RcodeNameError")
      case False
      then have "x = Inr m" "s' = s\<lparr>srv_pool := pool, srv_filter := e\<rparr>"
        using res pq resp un by (auto simp: resolve_def Let_def)
      then show ?thesis using ok us cv by (auto simp: srv_ok_def same_filter_def)
    next
      case True
      then obtain d c where put: "cache_put L D t1 (srv_cache s) r m2 d = Some c"
        and x: "x = Inr m2" "s' = s\<lparr>srv_pool := pool, srv_filter := e, srv_cache := c\<rparr>"
        using res pq resp un cl by (auto simp: resolve_def Let_def split: option.splits)
      obtain b where k: "cacheKey L D r = Some (key_text L D q b)" using cacheKey_text [OF q] by blast
      have "stored_ok L D V (key_text L D q b) m2"
        using cm q by (auto simp: stored_ok_def)
      then have "wf_cache c \<and> (\<forall>(k, m) \<in> cache_content c. stored_ok L D V k m)"
        using ok rcache.put_keeps [OF _ k _ _ put, of "stored_ok L D V"] by (simp add: srv_ok_def)
      then show ?thesis using x us cm ok by (auto simp: srv_ok_def same_filter_def)
    qed
  qed
qed

lemma cache_get_ok:
  assumes "srv_ok L D V s" and "msg_Question r = q # qs" and "cache_get L D t (srv_cache s) r = Some ((mo, fresh, ok), c)"
  shows "srv_ok L D V (s\<lparr>srv_cache := c\<rparr>) \<and> (\<forall>m. mo = Some m \<longrightarrow>
    clean_reply L V m \<and> (\<exists>q' qs' b b'. msg_Question m = q' # qs' \<and> key_text L D q' b' = key_text L D q b))"
proof -
  obtain b where k: "cacheKey L D r = Some (key_text L D q b)" using cacheKey_text [OF assms(2)] by blast
  let ?P = "stored_ok L D V"
  have g: "wf_cache c" "\<forall>(k, m) \<in> cache_content c. ?P k m" "\<forall>m. mo = Some m \<longrightarrow> ?P (key_text L D q b) m"
    using rcache.get_keeps [OF _ k _ assms(3), of ?P] assms(1) by (simp_all add: srv_ok_def)
  have "\<exists>q' qs' b b'. msg_Question m = q' # qs' \<and> key_text L D q' b' = key_text L D q b" if "?P (key_text L D q b) m" for m
    using that unfolding stored_ok_def by metis
  then show ?thesis using g assms(1) by (auto simp: srv_ok_def stored_ok_def)
qed

text \<open>The reply asks what the request asked, up to letter case and the DO bit in the key.\<close>

definition same_question :: "name_lib \<Rightarrow> mdns_lib \<Rightarrow> Msg \<Rightarrow> Msg \<Rightarrow> bool" where
  "same_question L D m r \<longleftrightarrow> (\<exists>q qs q' qs' b b'. msg_Question r = q # qs \<and> msg_Question m = q' # qs'
     \<and> key_text L D q' b' = key_text L D q b)"

lemma same_question_eq: "msg_Question m = msg_Question r \<Longrightarrow> msg_Question r \<noteq> [] \<Longrightarrow> same_question L D m r"
  unfolding same_question_def by (metis list.exhaust)

lemma Check_cases:
  "\<exists>e'. Check L e d = (Verdict L e d, e') \<and> Verdict L e' = Verdict L e \<and> BlockIPv4 e' = BlockIPv4 e \<and> BlockIPv6 e' = BlockIPv6 e"
  using Check_Verdict [of L e d] Verdict_Check [of L e d] BlockIP_Check [of L e d]
  by (cases "Check L e d") auto

lemma handle_fresh:
  assumes "msg_Question r = q # qs" and "Check L (srv_filter s) (query_name L q) = (False, e)"
    and "cache_get L D t (srv_cache s) r = Some ((Some m, True, k), c)"
  shows "handle L D E s r t = Some ((Some (m\<lparr>msg_Id := msg_Id r\<rparr>), False, True), s\<lparr>srv_filter := e, srv_cache := c\<rparr>, t)"
  using assms by (simp add: handle_def)

lemma handle_stale:
  assumes "msg_Question r = q # qs" and "Check L (srv_filter s) (query_name L q) = (False, e)"
    and "cache_get L D t (srv_cache s) r = Some ((Some m, False, k), c)"
  shows "handle L D E s r t =
    (case resolve L D E (s\<lparr>srv_filter := e, srv_cache := c\<rparr>) r (query_name L q) t of
       None \<Rightarrow> None
     | Some (Inr resp, s, t) \<Rightarrow> Some ((Some resp, False, False), s, t)
     | Some (Inl _, s, t) \<Rightarrow>
         Some ((Some (m\<lparr>msg_Id := msg_Id r\<rparr>), False, True), s\<lparr>srv_Live := ObserveStale (srv_Live s)\<rparr>, t))"
  using assms by (simp add: handle_def)

lemma handle_miss:
  assumes "msg_Question r = q # qs" and "Check L (srv_filter s) (query_name L q) = (False, e)"
    and "cache_get L D t (srv_cache s) r = Some ((None, f, k), c)"
  shows "handle L D E s r t =
    (case resolve L D E (s\<lparr>srv_filter := e, srv_cache := c\<rparr>) r (query_name L q) t of
       None \<Rightarrow> None
     | Some (Inr resp, s, t) \<Rightarrow> Some ((Some resp, False, False), s, t)
     | Some (Inl _, s, t) \<Rightarrow> Some ((None, False, False), s, t))"
  using assms by (simp add: handle_def)

lemma handle_spec:
  assumes ok: "srv_ok L D V s" and q: "msg_Question r = q # qs" and nv: "\<not> Verdict L (srv_filter s) (query_name L q)"
    and h: "handle L D E s r t = Some ((mo, bl, ca), s', t')"
  shows "\<not> bl \<and> srv_ok L D V s' \<and> same_filter L s s' \<and> srv_cfg s' = srv_cfg s \<and> srv_store s' = srv_store s
    \<and> queriesTotal (srv_Live s') = queriesTotal (srv_Live s)
    \<and> (\<forall>m. mo = Some m \<longrightarrow> clean_reply L V m \<and> msg_Id m = msg_Id r \<and> same_question L D m r)"
proof -
  let ?n = "query_name L q"
  obtain e where ck: "Check L (srv_filter s) ?n = (False, e)" and e: "Verdict L e = Verdict L (srv_filter s)"
    "BlockIPv4 e = BlockIPv4 (srv_filter s)" "BlockIPv6 e = BlockIPv6 (srv_filter s)"
    using Check_cases [of L "srv_filter s" ?n] nv by auto
  let ?s = "s\<lparr>srv_filter := e\<rparr>"
  have sf: "same_filter L s ?s" using e by (simp add: same_filter_def)
  have ok1: "srv_ok L D V ?s" by (rule srv_ok_mono [OF ok _ sf]) simp
  obtain g fresh okk c where get: "cache_get L D t (srv_cache ?s) r = Some ((g, fresh, okk), c)"
    using h q ck by (auto simp: handle_def Let_def split: option.splits prod.splits)
  note gk = cache_get_ok [OF ok1 q get]
  have nv1: "\<not> Verdict L (srv_filter (?s\<lparr>srv_cache := c\<rparr>)) ?n" using nv e by simp
  have hit: "clean_reply L V (m\<lparr>msg_Id := msg_Id r\<rparr>) \<and> same_question L D (m\<lparr>msg_Id := msg_Id r\<rparr>) r"
    if "g = Some m" for m
    using gk that q e by (auto simp: clean_reply_def same_question_def)
  have ok3: "srv_ok L D V (u\<lparr>srv_Live := v\<rparr>) = srv_ok L D V u" "same_filter L s (u\<lparr>srv_Live := v\<rparr>) = same_filter L s u" for u v
    by (simp_all add: srv_ok_def same_filter_def)
  have pass: "srv_ok L D V u \<and> same_filter L s u \<and> srv_cfg u = srv_cfg s \<and> srv_store u = srv_store s \<and> srv_Live u = srv_Live s
      \<and> (\<forall>m. x = Inr m \<longrightarrow> clean_reply L V m \<and> msg_Id m = msg_Id r \<and> same_question L D m r)"
    if "resolve L D E (?s\<lparr>srv_cache := c\<rparr>) r ?n t = Some (x, u, v)" for x u v
  proof -
    note R = resolve_spec [OF conjunct1 [OF gk] q nv1 that]
    have "same_filter L s (?s\<lparr>srv_cache := c\<rparr>)" using e by (simp add: same_filter_def)
    then have "same_filter L s u" using R by (blast intro: same_filter_trans)
    moreover have "same_question L D m r" if "x = Inr m" for m
      using R that q by (intro same_question_eq) auto
    moreover have "Verdict L (srv_filter (?s\<lparr>srv_cache := c\<rparr>)) = Verdict L (srv_filter s)" using e by simp
    moreover have "srv_cfg u = srv_cfg s" "srv_store u = srv_store s" "srv_Live u = srv_Live s" using R by auto
    ultimately show ?thesis using R by metis
  qed
  show ?thesis
  proof (cases g)
    case None
    obtain x u v where res: "resolve L D E (?s\<lparr>srv_cache := c\<rparr>) r ?n t = Some (x, u, v)"
      and eq: "(case x of Inr resp \<Rightarrow> ((Some resp, False, False), u, v) | Inl _ \<Rightarrow> ((None, False, False), u, v)) = ((mo, bl, ca), s', t')"
      using h handle_miss [OF q ck, of D t f okk c E for f] get None by (auto split: option.splits prod.splits sum.splits)
    show ?thesis using eq pass [OF res] by (cases x) auto
  next
    case (Some m)
    show ?thesis
    proof (cases fresh)
      case True
      then have "s' = ?s\<lparr>srv_cache := c\<rparr>" "mo = Some (m\<lparr>msg_Id := msg_Id r\<rparr>)" "\<not> bl"
        using h handle_fresh [OF q ck, of D t m okk c E] get Some by auto
      then show ?thesis using hit [OF Some] gk sf by (simp add: same_filter_def)
    next
      case False
      obtain x u v where res: "resolve L D E (?s\<lparr>srv_cache := c\<rparr>) r ?n t = Some (x, u, v)"
        and eq: "(case x of Inr resp \<Rightarrow> ((Some resp, False, False), u, v)
          | Inl _ \<Rightarrow> ((Some (m\<lparr>msg_Id := msg_Id r\<rparr>), False, True), u\<lparr>srv_Live := ObserveStale (srv_Live u)\<rparr>, v)) = ((mo, bl, ca), s', t')"
        using h handle_stale [OF q ck, of D t m okk c E] get Some False by (auto split: option.splits prod.splits sum.splits)
      show ?thesis using eq pass [OF res] hit [OF Some] by (cases x) (auto simp: ok3 ObserveStale_def)
    qed
  qed
qed

lemma handle_blocked:
  assumes q: "msg_Question r = q # qs" and v: "Verdict L (srv_filter s) (query_name L q)"
  shows "handle L D E s r t =
    map_option (\<lambda>resp. ((Some resp, True, False), s\<lparr>srv_filter := snd (Check L (srv_filter s) (query_name L q))\<rparr>, t))
      (blockResponse D (srv_filter s) r)"
proof -
  obtain e where ck: "Check L (srv_filter s) (query_name L q) = (True, e)"
    and e: "BlockIPv4 e = BlockIPv4 (srv_filter s)" "BlockIPv6 e = BlockIPv6 (srv_filter s)"
    using Check_cases [of L "srv_filter s" "query_name L q"] v by auto
  have "blockResponse D e r = blockResponse D (srv_filter s) r"
    by (simp add: blockResponse_def e q Let_def)
  then show ?thesis
    using ck q by (simp add: handle_def Let_def split: option.split)
qed

lemma handle_ok:
  assumes ok: "srv_ok L D V s" and h: "handle L D E s r t = Some (x, s', t')"
  shows "srv_ok L D V s' \<and> same_filter L s s' \<and> srv_cfg s' = srv_cfg s \<and> srv_store s' = srv_store s
    \<and> queriesTotal (srv_Live s') = queriesTotal (srv_Live s)"
proof (cases "msg_Question r")
  case Nil
  then show ?thesis using assms by (auto simp: handle_def)
next
  case (Cons q qs)
  show ?thesis
  proof (cases "Verdict L (srv_filter s) (query_name L q)")
    case True
    then have "s' = s\<lparr>srv_filter := snd (Check L (srv_filter s) (query_name L q))\<rparr>"
      using h handle_blocked [OF Cons True] by auto
    then show ?thesis using ok by (auto simp: same_filter_def srv_ok_def)
  next
    case False
    obtain mo bl ca where "x = (mo, bl, ca)" by (cases x) auto
    then show ?thesis using handle_spec [OF ok Cons False] h by blast
  qed
qed

section \<open>Runs of the server\<close>

lemma observe_frame [simp]:
  "srv_cache (observe L D s n i r b c t) = srv_cache s" "srv_filter (observe L D s n i r b c t) = srv_filter s"
  "srv_pool (observe L D s n i r b c t) = srv_pool s" "srv_cfg (observe L D s n i r b c t) = srv_cfg s"
  "queriesTotal (srv_Live (observe L D s n i r b c t)) = queriesTotal (srv_Live s) + 1"
  by (simp_all add: observe_def Let_def case_prod_unfold Observe_def)

lemma observe_ok: "srv_ok L D V (observe L D s n i r b c t) = srv_ok L D V s" "same_filter L s (observe L D s n i r b c t)"
  by (simp_all add: srv_ok_def same_filter_def)

lemma ServeDNS_ok:
  assumes "srv_ok L D V s" and "ServeDNS L D E s r t = Some (m, s', t')"
  shows "srv_ok L D V s' \<and> same_filter L s s' \<and> srv_cfg s' = srv_cfg s"
proof -
  obtain x s1 where h: "handle L D E s r t = Some (x, s1, t')"
    and s': "\<exists>n i b c. s' = observe L D s1 n i r b c t'"
    using assms(2) by (auto simp: ServeDNS_def split: option.splits prod.splits)
  then show ?thesis using handle_ok [OF assms(1) h] observe_ok by (auto intro: same_filter_trans)
qed

lemma doh_identity_ok:
  assumes "doh_identity t s path = Inr (i, n, s')"
  shows "srv_ok L D V s' = srv_ok L D V s" "same_filter L s s'" "srv_cfg s' = srv_cfg s"
  using assms by (auto simp: doh_identity_def Let_def srv_ok_def same_filter_def split: if_splits sum.splits)

lemma handleDoH_ok:
  assumes "srv_ok L D V s" and "handleDoH L D E s req t = Some (resp, s', t')"
  shows "srv_ok L D V s' \<and> same_filter L s s' \<and> srv_cfg s' = srv_cfg s"
proof (cases "doh_identity t s (dq_Path req)")
  case (Inl e)
  then show ?thesis using assms by (auto simp: handleDoH_def)
next
  case (Inr ins)
  obtain i n s1 where ins: "doh_identity t s (dq_Path req) = Inr (i, n, s1)" using Inr by (cases ins) auto
  note id1 = doh_identity_ok [OF ins]
  consider "s' = s1" | x s2 t2 b c q where "handle L D E s1 q t = Some (x, s2, t2)"
      "s' = s2 \<or> s' = observe L D s2 n i q b c t2"
    using assms(2) ins by (auto simp: handleDoH_def split: sum.splits option.splits prod.splits) blast+
  then show ?thesis
  proof cases
    case 2
    have ok1: "srv_ok L D V s1" using id1(1) assms(1) by simp
    note h = handle_ok [OF ok1 2(1)]
    then have "same_filter L s s2" using id1(2) by (blast intro: same_filter_trans)
    then have "same_filter L s s'" using 2(2) observe_ok(2) by (blast intro: same_filter_trans)
    then show ?thesis using h 2(2) id1(3) observe_ok(1) by auto
  qed (use id1 assms(1) in auto)
qed

inductive srv_reach :: "name_lib \<Rightarrow> mdns_lib \<Rightarrow> net_env \<Rightarrow> Server \<Rightarrow> Server \<Rightarrow> bool" for L D E s0 where
  start: "srv_reach L D E s0 s0"
| plain: "srv_reach L D E s0 s \<Longrightarrow> ServeDNS L D E s r t = Some (m, s', t') \<Longrightarrow> srv_reach L D E s0 s'"
| https: "srv_reach L D E s0 s \<Longrightarrow> handleDoH L D E s req t = Some (resp, s', t') \<Longrightarrow> srv_reach L D E s0 s'"

lemma NewServer_fields:
  assumes "NewServer L E now cfg = Inr s"
  shows "Some (srv_filter s) = cfg_Blocker cfg" "Some (srv_store s) = cfg_Store cfg"
    "cfg_ListenPlain (srv_cfg s) = cfg_ListenPlain cfg" "cfg_ListenDoT (srv_cfg s) = cfg_ListenDoT cfg"
    "cfg_ListenDoH (srv_cfg s) = cfg_ListenDoH cfg" "cfg_TLSConfigFunc (srv_cfg s) = cfg_TLSConfigFunc cfg"
    "cfg_PerDeviceDoH (srv_cfg s) = cfg_PerDeviceDoH cfg"
  using assms by (auto simp: NewServer_def Let_def split: option.splits sum.splits if_splits)

lemma NewServer_ok: "NewServer L E now cfg = Inr s \<Longrightarrow> (\<And>d. V d \<Longrightarrow> Verdict L (srv_filter s) d) \<Longrightarrow> srv_ok L D V s"
  by (auto simp: NewServer_def Let_def srv_ok_def cache_content_def split: option.splits sum.splits if_splits)

lemma srv_reach_ok:
  assumes "srv_reach L D E s0 s" and "srv_ok L D V s0"
  shows "srv_ok L D V s \<and> same_filter L s0 s"
  using assms
proof (induction rule: srv_reach.induct)
  case (plain s r t m s' t')
  then show ?case using ServeDNS_ok same_filter_trans by blast
next
  case (https s req t resp s' t')
  then show ?case using handleDoH_ok same_filter_trans by blast
qed simp

section \<open>What is assumed of the message library\<close>

text \<open>
  The documented behaviour of \<^verbatim>\<open>miekg/dns\<close>: \<^verbatim>\<open>SetReply\<close> and \<^verbatim>\<open>HandleFailed\<close> keep the
  identifier and the question of the request, and \<^verbatim>\<open>Type.String\<close> gives distinct names
  without a vertical bar.
\<close>

definition mdns_documented :: "mdns_lib \<Rightarrow> bool" where
  "mdns_documented D \<longleftrightarrow>
     (\<forall>r. msg_Id (setReply D r) = msg_Id r \<and> msg_Question (setReply D r) = take 1 (msg_Question r)
        \<and> msg_Id (failedReply D r) = msg_Id r \<and> msg_Question (failedReply D r) = msg_Question r)
     \<and> inj (typeString D) \<and> (\<forall>t. CHR ''|'' \<notin> set (typeString D t))"

lemma split_at_bar:
  assumes "xs @ CHR ''|'' # ys = xs' @ CHR ''|'' # ys'" and "CHR ''|'' \<notin> set ys" and "CHR ''|'' \<notin> set ys'"
  shows "xs = xs' \<and> ys = ys'"
proof -
  have "rev ys @ CHR ''|'' # rev xs = rev ys' @ CHR ''|'' # rev xs'"
    using arg_cong [OF assms(1), of rev] by simp
  then have "rev ys = rev ys' \<and> rev xs = rev xs'"
    by (rule first_sep_eq) (use assms(2,3) in simp_all)
  then show ?thesis by simp
qed

lemma key_text_inj:
  assumes "mdns_documented D" and "key_text L D q b = key_text L D q' b'"
  shows "go_ToLower (uniLower L) (q_Name q) = go_ToLower (uniLower L) (q_Name q') \<and> q_Qtype q = q_Qtype q' \<and> b = b'"
proof -
  let ?n = "\<lambda>q. go_ToLower (uniLower L) (q_Name q)" and ?d = "\<lambda>b. if b then ''1'' else ''0''"
  have "(?n q @ ''|'' @ typeString D (q_Qtype q)) @ CHR ''|'' # ?d b = (?n q' @ ''|'' @ typeString D (q_Qtype q')) @ CHR ''|'' # ?d b'"
    using assms(2) by (simp add: key_text_def)
  moreover have "CHR ''|'' \<notin> set (?d x)" for x by simp
  ultimately have "?n q @ ''|'' @ typeString D (q_Qtype q) = ?n q' @ ''|'' @ typeString D (q_Qtype q') \<and> ?d b = ?d b'"
    by (intro split_at_bar)
  then have o: "?n q @ CHR ''|'' # typeString D (q_Qtype q) = ?n q' @ CHR ''|'' # typeString D (q_Qtype q')" "?d b = ?d b'"
    by simp_all
  have "?n q = ?n q' \<and> typeString D (q_Qtype q) = typeString D (q_Qtype q')"
    using assms(1) by (intro split_at_bar [OF o(1)]) (auto simp: mdns_documented_def)
  then show ?thesis using o(2) assms(1) by (auto simp: mdns_documented_def inj_def split: if_splits)
qed

section \<open>An example server\<close>

text \<open>A denylist with one tracker, one upstream that echoes the question with an alias.\<close>

definition ok_mdns :: mdns_lib where
  "ok_mdns = tiny_mdns\<lparr>typeString := \<lambda>t. replicate (unat t) CHR ''x''\<rparr>"

definition demo_server :: Server where
  "demo_server =
     \<lparr>srv_cfg = \<lparr>cfg_ListenPlain = ''0.0.0.0:53'', cfg_ListenDoT = '''', cfg_ListenDoH = '''', cfg_DotCert = None,
        cfg_DoHCert = None, cfg_TLSConfigFunc = None, cfg_Domain = ''d'', cfg_PerDeviceDoH = True, cfg_Upstreams = [''udp://1.1.1.1''], cfg_Weights = [],
        cfg_Bootstrap = [], cfg_Timeout = Second, cfg_CacheSize = 1024, cfg_CacheMinTTL = 0, cfg_CacheMaxTTL = 0,
        cfg_FailTTL = 0, cfg_Blocker = None, cfg_Store = None, cfg_Browser = None\<rparr>,
      srv_pool = udp_pool [''1.1.1.1''] None,
      srv_filter = NewEngine ascii_lib '''' [] [] [''tracker.net''] 0,
      srv_cache = newReplyCache 1024 Hour, srv_clientByID = [], srv_Live = NewMetrics 0, srv_store = Open True 0\<rparr>"

definition demo_cfg :: srv_Config where
  "demo_cfg = (srv_cfg demo_server)\<lparr>cfg_Upstreams := [''1.1.1.1''], cfg_Blocker := Some (srv_filter demo_server),
     cfg_Store := Some (Open True 0)\<rparr>"

definition alias_net :: net_env where
  "alias_net = (tiny_net [])\<lparr>connExchange := (\<lambda>t n a m. (Inr (Some (m\<lparr>msg_Response := True, msg_Answer :=
     [CNAME \<lparr>hdr_Name = ''a.com.'', hdr_Rrtype = TypeCNAME, hdr_Class = ClassINET, hdr_Ttl = 300\<rparr> ''b.com.'']\<rparr>)), t + 5))\<rparr>"

lemma ok_mdns_documented: "mdns_documented ok_mdns"
proof -
  have "inj (\<lambda>t :: u16. replicate (unat t) CHR ''x'')"
    by (rule injI) (metis length_replicate word_unat_eq_iff)
  then show ?thesis by (simp add: mdns_documented_def ok_mdns_def tiny_mdns_def empty_msg_def)
qed

lemma demo_server_ok: "srv_ok L D (\<lambda>_. False) demo_server"
  by (simp add: srv_ok_def demo_server_def cache_content_def)

lemma demo_verdicts:
  "Verdict ascii_lib (srv_filter demo_server) (query_name ascii_lib \<lparr>q_Name = ''x.tracker.net.'', q_Qtype = TypeA, q_Qclass = ClassINET\<rparr>)"
  "\<not> Verdict ascii_lib (srv_filter demo_server) (query_name ascii_lib \<lparr>q_Name = ''a.com.'', q_Qtype = TypeA, q_Qclass = ClassINET\<rparr>)"
  by code_simp+

section \<open>Properties\<close>

text \<open>
  C1: A blocked name never leaves the server. A query whose name the filter blocks is answered at
  once, without touching the cache, the upstreams or the clock: an A query with the configured
  IPv4 address, an AAAA query with the IPv6 address, both with TTL 60 and NOERROR, any other type
  with NXDOMAIN and no records beyond what \<^verbatim>\<open>SetReply\<close> gives. The hypothesis on the IPv4
  address is needed: with any other address the handler panics on A queries.
\<close>

theorem blocked_name_never_leaves:
  assumes q: "msg_Question r = q # qs" and v: "Verdict L (srv_filter s) (query_name L q)"
    and a4: "addr_As4 (BlockIPv4 (srv_filter s)) = Some a4"
  shows "\<exists>resp s'. handle L D E s r t = Some ((Some resp, True, False), s', t)
    \<and> srv_cache s' = srv_cache s \<and> srv_pool s' = srv_pool s \<and> srv_store s' = srv_store s
    \<and> msg_Id resp = msg_Id (setReply D r)
    \<and> (q_Qtype q = TypeA \<longrightarrow> msg_Rcode resp = RcodeSuccess \<and>
         msg_Answer resp = [A \<lparr>hdr_Name = q_Name q, hdr_Rrtype = TypeA, hdr_Class = ClassINET, hdr_Ttl = 60\<rparr> (Some a4)])
    \<and> (q_Qtype q = TypeAAAA \<longrightarrow> msg_Rcode resp = RcodeSuccess \<and>
         msg_Answer resp = [AAAA \<lparr>hdr_Name = q_Name q, hdr_Rrtype = TypeAAAA, hdr_Class = ClassINET, hdr_Ttl = 60\<rparr>
           (Some (addr_As16 (BlockIPv6 (srv_filter s))))])
    \<and> (q_Qtype q \<notin> {TypeA, TypeAAAA} \<longrightarrow> msg_Rcode resp = RcodeNameError \<and> msg_Answer resp = msg_Answer (setReply D r))"
proof -
  have "blockResponse D (srv_filter s) r \<noteq> None" using q a4 by (simp add: blockResponse_def Let_def)
  then obtain resp where resp: "blockResponse D (srv_filter s) r = Some resp" by blast
  have h: "handle L D E s r t = Some ((Some resp, True, False), s\<lparr>srv_filter := snd (Check L (srv_filter s) (query_name L q))\<rparr>, t)"
    using handle_blocked [OF q v, of D E t] resp by simp
  show ?thesis
    using resp q a4 unfolding h by (auto simp: blockResponse_def Let_def split: if_splits)
qed

theorem blocked_name_never_leaves_witness:
  "\<exists>resp s'. handle ascii_lib ok_mdns (tiny_net []) demo_server (ask 9 ''x.tracker.net.'' TypeA) 0 = Some ((Some resp, True, False), s', 0)
     \<and> msg_Answer resp = [A \<lparr>hdr_Name = ''x.tracker.net.'', hdr_Rrtype = TypeA, hdr_Class = ClassINET, hdr_Ttl = 60\<rparr> (Some 0)]"
proof -
  have a4: "addr_As4 (BlockIPv4 (srv_filter demo_server)) = Some 0"
    by (simp add: demo_server_def NewEngine_def BlockIPv4_def blockIPs_def defaultBlockA4_def)
  have "msg_Question (ask 9 ''x.tracker.net.'' TypeA) = [\<lparr>q_Name = ''x.tracker.net.'', q_Qtype = TypeA, q_Qclass = ClassINET\<rparr>]"
    by (simp add: ask_def)
  from blocked_name_never_leaves [OF this demo_verdicts(1) a4, of ok_mdns "tiny_net []" 0] show ?thesis by auto
qed





text \<open>
  C4: Stale answers only replace failed upstreams. When the cache has only an expired entry within
  its stale window, the upstreams are asked first: if they answer, the client gets that answer, not
  the stale one; if they fail, it gets the stale entry with its own identifier, marked as cached,
  and the stale counter grows by one. On a miss, failing upstreams leave no answer.
\<close>

theorem stale_only_on_failure:
  assumes q: "msg_Question r = q # qs" and nv: "\<not> Verdict L (srv_filter s) (query_name L q)"
    and g: "cache_get L D t (srv_cache s) r = Some ((mo, False, k), c)"
    and pq: "pool_Query D E (srv_pool s) (upstream_request L r (query_name L q)) t = (y, pool, t')"
    and h: "handle L D E s r t = Some (x, s', t'')"
  shows "(\<forall>err. y = Inl err \<longrightarrow> x = (map_option (\<lambda>m. m\<lparr>msg_Id := msg_Id r\<rparr>) mo, False, mo \<noteq> None)
      \<and> staleTotal (srv_Live s') = staleTotal (srv_Live s) + of_bool (mo \<noteq> None) \<and> srv_cache s' = c)
    \<and> (\<forall>resp. y = Inr (Some resp) \<longrightarrow> (\<exists>m. x = (Some m, False, False) \<and> (msg_Answer m = [] \<or> length (msg_Answer m) = length (msg_Answer resp)))
      \<and> staleTotal (srv_Live s') = staleTotal (srv_Live s))"
proof -
  let ?n = "query_name L q"
  obtain e where ck: "Check L (srv_filter s) ?n = (False, e)" "Verdict L e = Verdict L (srv_filter s)"
    using Check_cases [of L "srv_filter s" ?n] nv by auto
  let ?s = "s\<lparr>srv_filter := e, srv_cache := c\<rparr>"
  have down: "resolve L D E ?s r ?n t = Some (Inl err, ?s\<lparr>srv_pool := pool\<rparr>, t')" if "y = Inl err" for err
    using pq that by (simp add: resolve_def)
  have up: "\<exists>m s1 t1. resolve L D E ?s r ?n t = Some (Inr m, s1, t1) \<and> srv_Live s1 = srv_Live s
      \<and> (msg_Answer m = [] \<or> length (msg_Answer m) = length (msg_Answer resp))"
    if y: "y = Inr (Some resp)" "resolve L D E ?s r ?n t \<noteq> None" for resp
  proof -
    let ?m = "resp\<lparr>msg_Id := msg_Id r, msg_Question := msg_Question r\<rparr>"
    obtain m e1 where un: "uncloak L e ?n ?m = (m, e1)" by (cases "uncloak L e ?n ?m") auto
    have a: "m = ?m \<or> msg_Answer m = []" using uncloak_spec [OF un] ck(2) nv by simp
    obtain ttl m2 where cl: "clampTTLs m (cfg_CacheMinTTL (srv_cfg s)) (cfg_CacheMaxTTL (srv_cfg s)) = (ttl, m2)"
      by (cases "clampTTLs m (cfg_CacheMinTTL (srv_cfg s)) (cfg_CacheMaxTTL (srv_cfg s))") auto
    have "length (msg_Answer m2) = length (msg_Answer m)"
      using clampTTLs_msg [of m "cfg_CacheMinTTL (srv_cfg s)" "cfg_CacheMaxTTL (srv_cfg s)"] cl by (simp add: set_ttls_def Let_def)
    then have "msg_Answer m2 = [] \<or> length (msg_Answer m2) = length (msg_Answer resp)"
      "msg_Answer m = [] \<or> length (msg_Answer m) = length (msg_Answer resp)" using a by auto
    then show ?thesis using y pq un cl by (auto simp: resolve_def Let_def split: option.splits)
  qed
  have nn: "resolve L D E ?s r ?n t \<noteq> None"
    using h handle_miss [OF q ck(1), of D t False k c E] handle_stale [OF q ck(1), of D t _ k c E] g
    by (cases mo) (auto split: option.splits)
  show ?thesis
  proof (cases mo)
    case None
    then show ?thesis using h g handle_miss [OF q ck(1), of D t False k c E] down up [OF _ nn] by auto
  next
    case (Some m)
    then show ?thesis using h g handle_stale [OF q ck(1), of D t m k c E] down up [OF _ nn] by (auto simp: ObserveStale_def)
  qed
qed

theorem stale_only_on_failure_witness:
  "\<exists>x s' t''. handle ascii_lib ok_mdns (tiny_net []) demo_server (ask 9 ''a.com.'' TypeA) 0 = Some (x, s', t'')
     \<and> x = (None, False, False) \<and> staleTotal (srv_Live s') = staleTotal (srv_Live demo_server)"
proof -
  let ?r = "ask 9 ''a.com.'' TypeA"
  let ?q = "\<lparr>q_Name = ''a.com.'', q_Qtype = TypeA, q_Qclass = ClassINET\<rparr>"
  have "case cache_get ascii_lib ok_mdns 0 (srv_cache demo_server) ?r of Some ((None, False, False), c) \<Rightarrow> True | _ \<Rightarrow> False"
    and "isl (fst (pool_Query ok_mdns (tiny_net []) (srv_pool demo_server) (upstream_request ascii_lib ?r (query_name ascii_lib ?q)) 0))"
    and "handle ascii_lib ok_mdns (tiny_net []) demo_server ?r 0 \<noteq> None"
    by code_simp+
  then obtain c err pool t' x s' t'' where
    g: "cache_get ascii_lib ok_mdns 0 (srv_cache demo_server) ?r = Some ((None, False, False), c)"
    and p: "pool_Query ok_mdns (tiny_net []) (srv_pool demo_server) (upstream_request ascii_lib ?r (query_name ascii_lib ?q)) 0 = (Inl err, pool, t')"
    and h: "handle ascii_lib ok_mdns (tiny_net []) demo_server ?r 0 = Some (x, s', t'')"
    by (cases "pool_Query ok_mdns (tiny_net []) (srv_pool demo_server) (upstream_request ascii_lib ?r (query_name ascii_lib ?q)) 0")
      (auto simp: isl_def split: option.splits prod.splits bool.splits)
  have "msg_Question ?r = [?q]" by (simp add: ask_def)
  from stale_only_on_failure [OF this demo_verdicts(2) g p h] h show ?thesis by auto
qed

lemma handle_returns:
  assumes ok: "srv_ok L D V s" and a4: "addr_As4 (BlockIPv4 (srv_filter s)) \<noteq> None"
    and conn: "conn_documented E"
  shows "handle L D E s r t \<noteq> None"
proof (cases "msg_Question r")
  case Nil
  then show ?thesis by (simp add: handle_def)
next
  case (Cons q qs)
  let ?n = "query_name L q"
  show ?thesis
  proof (cases "Verdict L (srv_filter s) ?n")
    case True
    have "blockResponse D (srv_filter s) r \<noteq> None" using Cons a4 by (auto simp: blockResponse_def Let_def)
    then show ?thesis using handle_blocked [OF Cons True] by auto
  next
    case False
    obtain e where ck: "Check L (srv_filter s) ?n = (False, e)" "Verdict L e = Verdict L (srv_filter s)"
      using Check_cases [of L "srv_filter s" ?n] False by auto
    obtain b where k: "cacheKey L D r = Some (key_text L D q b)" using cacheKey_text [OF Cons] by blast
    obtain g fresh kk c where get: "cache_get L D t (srv_cache s) r = Some ((g, fresh, kk), c)" "wf_cache c"
      using rcache.get_law [OF _ k] ok unfolding srv_ok_def by blast
    have ps: "cache_put L D n c r m d \<noteq> None" for n m d
      using rcache.put_law [OF get(2) k, of n m d] by auto
    have "resolve L D E (s\<lparr>srv_filter := e, srv_cache := c\<rparr>) r ?n t \<noteq> None"
      using pool_Query_not_nil [OF conn, of D "srv_pool s" "upstream_request L r ?n" t]
      by (auto simp: resolve_def Let_def ps split: prod.splits sum.splits option.splits)
    then show ?thesis
      using get(1) handle_fresh [OF Cons ck(1), of D t _ kk c E] handle_stale [OF Cons ck(1), of D t _ kk c E]
        handle_miss [OF Cons ck(1), of D t fresh kk c E]
      by (cases g; cases fresh) (auto split: sum.splits)
  qed
qed

lemma doh_identity_keeps:
  "doh_identity t s path = Inr (i, n, s1) \<Longrightarrow>
     srv_filter s1 = srv_filter s \<and> srv_pool s1 = srv_pool s \<and> srv_cache s1 = srv_cache s \<and> srv_cfg s1 = srv_cfg s"
  by (auto simp: doh_identity_def Let_def split: if_splits sum.splits)

lemma handleDoH_returns:
  assumes ok: "srv_ok L D V s" and a4: "addr_As4 (BlockIPv4 (srv_filter s)) \<noteq> None"
    and conn: "conn_documented E"
  shows "handleDoH L D E s req t \<noteq> None"
proof -
  have "handle L D E s1 q t \<noteq> None" if "doh_identity t s (dq_Path req) = Inr (i, n, s1)" for i n s1 q
    using doh_identity_keeps [OF that] assms by (intro handle_returns [of L D V]) (simp_all add: srv_ok_def)
  then have "doh_identity t s (dq_Path req) = Inr (i, n, s1) \<longrightarrow> handle L D E s1 q t \<noteq> None" for i n s1 q
    by blast
  then show ?thesis
    unfolding handleDoH_def by (simp split: sum.split option.split prod.split) (metis option.distinct(1))
qed

text \<open>
  C5: The handler does not panic. With a consistent state, a block address that is an IPv4 address
  and connections that return a reply or an error, every request gets a reply, also one without a
  question.
\<close>

theorem handler_never_panics:
  assumes ok: "srv_ok L D V s" and a4: "addr_As4 (BlockIPv4 (srv_filter s)) \<noteq> None"
    and conn: "conn_documented E"
  shows "\<exists>m s' t'. ServeDNS L D E s r t = Some (m, s', t') \<and> queriesTotal (srv_Live s') = queriesTotal (srv_Live s) + 1"
proof -
  obtain x s1 t1 where h: "handle L D E s r t = Some (x, s1, t1)"
    using handle_returns [OF assms, of r t] by auto
  then show ?thesis using handle_ok [OF ok h] by (cases x) (auto simp: ServeDNS_def split: option.splits)
qed

theorem handler_never_panics_witness:
  "\<exists>m s' t'. ServeDNS ascii_lib ok_mdns (tiny_net []) demo_server (ask 9 ''a.com.'' TypeA) 0 = Some (m, s', t')
     \<and> queriesTotal (srv_Live s') = queriesTotal (srv_Live demo_server) + 1"
proof (rule handler_never_panics [OF demo_server_ok])
  show "addr_As4 (BlockIPv4 (srv_filter demo_server)) \<noteq> None"
    by (simp add: demo_server_def NewEngine_def BlockIPv4_def blockIPs_def defaultBlockA4_def)
  show "conn_documented (tiny_net [])" by (simp add: conn_documented_def tiny_net_def)
qed

text \<open>
  C6: Per-device DoH paths are closed to strangers. With per-device paths enabled, a request under
  \<^verbatim>\<open>/dns/\<close> whose token is shorter than 16 bytes, unknown, or belongs to an inactive device is
  answered 403 and changes nothing; any other answer means that the token belongs to an active
  device of the store.
\<close>

theorem doh_token_gate:
  assumes "cfg_PerDeviceDoH (srv_cfg s)" and "HasPrefix (dq_Path req) ''/dns/''"
    and "tok = TrimSuffix (TrimPrefix (dq_Path req) ''/dns/'') ''/''"
    and "handleDoH L D E s req t = Some (resp, s', t')"
  shows "(length tok < 16 \<or> \<not> (\<exists>c. ClientByToken (srv_store s) tok = Inr c \<and> cl_Active c)
      \<longrightarrow> resp = HttpError 403 ''forbidden'' \<and> s' = s \<and> t' = t)
    \<and> (resp \<noteq> HttpError 403 ''forbidden'' \<longrightarrow> 16 \<le> length tok \<and>
        (\<exists>row \<in> set (st_clients (srv_store s)). crow_token row = tok \<and> crow_active row = 1))"
proof -
  have gate: "resp = HttpError 403 ''forbidden'' \<and> s' = s \<and> t' = t"
    if "length tok < 16 \<or> \<not> (\<exists>c. ClientByToken (srv_store s) tok = Inr c \<and> cl_Active c)"
  proof -
    have "doh_identity t s (dq_Path req) = Inl (HttpError 403 ''forbidden'')"
      using assms(1-3) that by (auto simp: doh_identity_def Let_def split: sum.splits)
    then show ?thesis using assms(4) by (simp add: handleDoH_def)
  qed
  have "\<exists>row \<in> set (st_clients (srv_store s)). crow_token row = tok \<and> crow_active row = 1"
    if "ClientByToken (srv_store s) tok = Inr c" "cl_Active c" for c
    using that by (auto simp: ClientByToken_def scanClient_def client_of_def find_Some_iff split: option.splits)
  then show ?thesis using gate by force
qed

theorem doh_token_gate_witness:
  "\<exists>resp s' t'. handleDoH ascii_lib ok_mdns (tiny_net []) demo_server
       \<lparr>dq_Method = ''GET'', dq_Path = ''/dns/deadbeef'', dq_dns = '''', dq_ContentType = '''', dq_Body = None\<rparr> 0 = Some (resp, s', t')
     \<and> resp = HttpError 403 ''forbidden'' \<and> s' = demo_server"
proof -
  let ?req = "\<lparr>dq_Method = ''GET'', dq_Path = ''/dns/deadbeef'', dq_dns = '''', dq_ContentType = '''', dq_Body = None\<rparr>"
  have "handleDoH ascii_lib ok_mdns (tiny_net []) demo_server ?req 0 \<noteq> None" by code_simp
  then obtain resp s' t' where h: "handleDoH ascii_lib ok_mdns (tiny_net []) demo_server ?req 0 = Some (resp, s', t')" by auto
  have "cfg_PerDeviceDoH (srv_cfg demo_server)" by (simp add: demo_server_def)
  moreover have "HasPrefix (dq_Path ?req) ''/dns/''" by (simp add: HasPrefix_def)
  ultimately show ?thesis
    using doh_token_gate [OF _ _ refl h] h by (simp add: TrimPrefix_def TrimSuffix_def)
qed

section \<open>Boundaries of these properties\<close>

text \<open>An IPv6 address as the IPv4 block address makes every blocked A query panic.\<close>

lemma ipv6_response_ip_panics:
  assumes "msg_Question r = q # qs" and "Verdict L (srv_filter s) (query_name L q)" and "q_Qtype q = TypeA"
    and "BlockIPv4 (srv_filter s) = Addr6 w z" and "\<not> is4In6 w"
  shows "ServeDNS L D E s r t = None"
proof -
  have "blockResponse D (srv_filter s) r = None" using assms by (simp add: blockResponse_def Let_def)
  then show ?thesis using handle_blocked [OF assms(1,2), of D E t] by (simp add: ServeDNS_def)
qed

text \<open>The cache key has no class: questions that differ in it share an entry.\<close>

lemma cache_key_ignores_class:
  "msg_Question r = [q] \<Longrightarrow> isEdns0 D (r\<lparr>msg_Question := [q\<lparr>q_Qclass := c\<rparr>]\<rparr>) = isEdns0 D r \<Longrightarrow>
     cacheKey L D (r\<lparr>msg_Question := [q\<lparr>q_Qclass := c\<rparr>]\<rparr>) = cacheKey L D r"
  by (simp add: cacheKey_def)

text \<open>A fresh cache hit is served as stored, whatever the filter says of its aliases by now.\<close>

lemma fresh_hit_skips_uncloaking:
  assumes "msg_Question r = q # qs" and "\<not> Verdict L (srv_filter s) (query_name L q)"
    and "cache_get L D t (srv_cache s) r = Some ((Some m, True, k), c)"
  shows "\<exists>s'. handle L D E s r t = Some ((Some (m\<lparr>msg_Id := msg_Id r\<rparr>), False, True), s', t)"
proof -
  obtain e where "Check L (srv_filter s) (query_name L q) = (False, e)"
    using Check_cases [of L "srv_filter s" "query_name L q"] assms(2) by auto
  from handle_fresh [OF assms(1) this assms(3)] show ?thesis by blast
qed

end
