(* ===== verification/Dns_Listen.thy ===== *)
theory Dns_Listen
  imports Dns_Server
begin

text \<open>
  The listeners of \<^verbatim>\<open>src/internal/dns/server.go\<close>: which sockets \<^verbatim>\<open>Run\<close> opens and in
  which order, with which TLS configuration, what it leaves when one cannot be opened, the routes
  of the HTTPS server, and \<^verbatim>\<open>Close\<close>. Serving a socket is \<^verbatim>\<open>ServeDNS\<close> and
  \<^verbatim>\<open>handleDoH\<close> of the theory of the server.
\<close>

section \<open>State\<close>

type_synonym socket = "string \<times> string"

record http_Server =
  hs_Addr :: string
  hs_Patterns :: "string list"
  hs_TLSConfig :: tls_Config
  hs_ReadHeaderTimeout :: duration

text \<open>
  The servers that \<^verbatim>\<open>Run\<close> has built, the sockets that are open, whether the goroutine of the
  pool runs, and whether the channel \<^verbatim>\<open>shutdown\<close> is closed.
\<close>

record Listeners =
  ls_udp :: "socket list"
  ls_tcp :: "socket list"
  ls_dot :: "(socket \<times> tls_Config) list"
  ls_http :: "http_Server option"
  ls_open :: "socket list"
  ls_pool :: bool
  ls_shutdown :: bool

text \<open>After \<^verbatim>\<open>NewServer\<close>, which has started the pool.\<close>

definition new_listeners :: Listeners where
  "new_listeners =
     \<lparr>ls_udp = [], ls_tcp = [], ls_dot = [], ls_http = None, ls_open = [], ls_pool = True, ls_shutdown = False\<rparr>"

datatype listen_error = PlainUdp string | PlainTcp string | DotListen string | DohListen string

text \<open>A socket opens when the system allows it and the process does not have it open already.\<close>

definition net_Listen :: "(socket \<Rightarrow> bool) \<Rightarrow> socket \<Rightarrow> Listeners \<Rightarrow> Listeners option" where
  "net_Listen free k l =
     (if free k \<and> k \<notin> set (ls_open l) then Some (l\<lparr>ls_open := ls_open l @ [k]\<rparr>) else None)"

definition tls_Listen :: "(socket \<Rightarrow> bool) \<Rightarrow> string \<Rightarrow> tls_Config \<Rightarrow> Listeners \<Rightarrow> Listeners option" where
  "tls_Listen free addr conf l = (if tls_listenable conf then net_Listen free (''tcp'', addr) l else None)"

section \<open>Opening\<close>

definition listen_plain :: "(socket \<Rightarrow> bool) \<Rightarrow> srv_Config \<Rightarrow> Listeners \<Rightarrow> listen_error option \<times> Listeners" where
  "listen_plain free cfg l =
     (let addr = cfg_ListenPlain cfg in
      if addr = '''' then (None, l)
      else (case net_Listen free (''udp'', addr) l of
          None \<Rightarrow> (Some (PlainUdp addr), l)
        | Some l \<Rightarrow>
            let l = l\<lparr>ls_udp := ls_udp l @ [(''udp'', addr)]\<rparr> in
            (case net_Listen free (''tcp'', addr) l of
               None \<Rightarrow> (Some (PlainTcp addr), l)
             | Some l \<Rightarrow> (None, l\<lparr>ls_tcp := ls_tcp l @ [(''tcp'', addr)]\<rparr>))))"

definition listen_dot :: "(socket \<Rightarrow> bool) \<Rightarrow> srv_Config \<Rightarrow> Listeners \<Rightarrow> listen_error option \<times> Listeners" where
  "listen_dot free cfg l =
     (let addr = cfg_ListenDoT cfg in
      if addr \<noteq> '''' \<and> (cfg_TLSConfigFunc cfg \<noteq> None \<or> cfg_DotCert cfg \<noteq> None) then
        let tlscfg =
          (case cfg_TLSConfigFunc cfg of
             Some fn \<Rightarrow> fn [''dot'']
           | None \<Rightarrow> \<lparr>ServerName = '''', NextProtos = [''dot''], MinVersion = VersionTLS12,
                      Certificates = [the (cfg_DotCert cfg)], GetCertificate = False\<rparr>)
        in (case tls_Listen free addr tlscfg l of
              None \<Rightarrow> (Some (DotListen addr), l)
            | Some l \<Rightarrow> (None, l\<lparr>ls_dot := ls_dot l @ [((''tcp'', addr), tlscfg)]\<rparr>))
      else (None, l))"

definition listen_doh :: "(socket \<Rightarrow> bool) \<Rightarrow> srv_Config \<Rightarrow> Listeners \<Rightarrow> listen_error option \<times> Listeners" where
  "listen_doh free cfg l =
     (let addr = cfg_ListenDoH cfg in
      if addr \<noteq> '''' \<and> (cfg_TLSConfigFunc cfg \<noteq> None \<or> cfg_DoHCert cfg \<noteq> None) then
        let patterns = ''/dns-query'' # (if cfg_PerDeviceDoH cfg then [''/dns/''] else []);
            tlscfg =
              (case cfg_TLSConfigFunc cfg of
                 Some fn \<Rightarrow> fn [''h2'', ''http/1.1'']
               | None \<Rightarrow> \<lparr>ServerName = '''', NextProtos = [], MinVersion = VersionTLS12,
                          Certificates = [the (cfg_DoHCert cfg)], GetCertificate = False\<rparr>);
            l = l\<lparr>ls_http := Some \<lparr>hs_Addr = addr, hs_Patterns = patterns, hs_TLSConfig = tlscfg,
                                   hs_ReadHeaderTimeout = 10 * Second\<rparr>\<rparr>
        in (case tls_Listen free addr tlscfg l of
              None \<Rightarrow> (Some (DohListen addr), l)
            | Some l \<Rightarrow> (None, l))
      else (None, l))"

text \<open>\<^verbatim>\<open>Run\<close> up to where it waits for the context to end.\<close>

definition open_listeners :: "(socket \<Rightarrow> bool) \<Rightarrow> srv_Config \<Rightarrow> Listeners \<Rightarrow> listen_error option \<times> Listeners" where
  "open_listeners free cfg l =
     (case listen_plain free cfg l of
        (Some err, l) \<Rightarrow> (Some err, l)
      | (None, l) \<Rightarrow>
          (case listen_dot free cfg l of
             (Some err, l) \<Rightarrow> (Some err, l)
           | (None, l) \<Rightarrow> listen_doh free cfg l))"

section \<open>Closing\<close>

text \<open>Stopping a server closes its socket.\<close>

definition shut :: "socket list \<Rightarrow> Listeners \<Rightarrow> Listeners" where
  "shut ks l = l\<lparr>ls_open := filter (\<lambda>k. k \<notin> set ks) (ls_open l)\<rparr>"

text \<open>Closing a channel twice panics, here \<open>None\<close>; the pool waits for its goroutine to end.\<close>

definition pool_Close :: "Listeners \<Rightarrow> Listeners option" where
  "pool_Close l = (if ls_pool l then Some (l\<lparr>ls_pool := False\<rparr>) else None)"

definition srv_Close :: "Listeners \<Rightarrow> Listeners option" where
  "srv_Close l =
     (let l = shut (ls_udp l @ ls_tcp l) l;
          l = shut (map fst (ls_dot l)) l;
          l = (case ls_http l of None \<Rightarrow> l | Some h \<Rightarrow> shut [(''tcp'', hs_Addr h)] l)
      in case pool_Close l of
           None \<Rightarrow> None
         | Some l \<Rightarrow> if ls_shutdown l then None else Some (l\<lparr>ls_shutdown := True\<rparr>))"

text \<open>The whole of \<^verbatim>\<open>Run\<close>, from the call to the end of the context.\<close>

definition dns_Run :: "(socket \<Rightarrow> bool) \<Rightarrow> srv_Config \<Rightarrow> Listeners \<Rightarrow> (listen_error option \<times> Listeners) option" where
  "dns_Run free cfg l =
     (case open_listeners free cfg l of
        (Some err, l) \<Rightarrow> Some (Some err, l)
      | (None, l) \<Rightarrow> (case srv_Close l of None \<Rightarrow> None | Some l \<Rightarrow> Some (None, l)))"

section \<open>Routes of the HTTPS server\<close>

datatype https_response =
    HttpsMoved string
  | HttpsNotFound
  | Https doh_response

text \<open>
  \<^verbatim>\<open>http.ServeMux\<close> on the two patterns: a path that is not clean is redirected, and so is
  \<^verbatim>\<open>/dns\<close> to the subtree.
\<close>

definition https_serve ::
  "name_lib \<Rightarrow> mdns_lib \<Rightarrow> net_env \<Rightarrow> Server \<Rightarrow> doh_request \<Rightarrow> time \<Rightarrow> (https_response \<times> Server \<times> time) option" where
  "https_serve L D E s req t =
     (let path = dq_Path req; sub = cfg_PerDeviceDoH (srv_cfg s) in
      if mux_clean path \<noteq> path then Some (HttpsMoved (mux_clean path), s, t)
      else if path = ''/dns-query'' \<or> sub \<and> HasPrefix path ''/dns/'' then
        map_option (\<lambda>(resp, s', t'). (Https resp, s', t')) (handleDoH L D E s req t)
      else if sub \<and> path = ''/dns'' then Some (HttpsMoved ''/dns/'', s, t)
      else Some (HttpsNotFound, s, t))"

section \<open>What is open\<close>

text \<open>The sockets that a configuration asks for, in the order they are opened.\<close>

definition wanted_plain :: "srv_Config \<Rightarrow> socket list" where
  "wanted_plain cfg =
     (if cfg_ListenPlain cfg = '''' then [] else [(''udp'', cfg_ListenPlain cfg), (''tcp'', cfg_ListenPlain cfg)])"

definition wanted_tls :: "string \<Rightarrow> socket list" where
  "wanted_tls addr = (if addr = '''' then [] else [(''tcp'', addr)])"

definition wanted :: "srv_Config \<Rightarrow> socket list" where
  "wanted cfg = wanted_plain cfg @ wanted_tls (cfg_ListenDoT cfg) @ wanted_tls (cfg_ListenDoH cfg)"

text \<open>The encrypted listeners, when asked for, have a source of certificates.\<close>

definition tls_ready :: "srv_Config \<Rightarrow> bool" where
  "tls_ready cfg \<longleftrightarrow>
     (cfg_ListenDoT cfg \<noteq> '''' \<or> cfg_ListenDoH cfg \<noteq> '''' \<longrightarrow>
        (\<exists>fn. cfg_TLSConfigFunc cfg = Some fn \<and> (\<forall>ps. tls_listenable (fn ps))))"

text \<open>The sockets of the servers that \<^verbatim>\<open>Close\<close> stops.\<close>

definition server_sockets :: "Listeners \<Rightarrow> socket set" where
  "server_sockets l = set (ls_udp l) \<union> set (ls_tcp l) \<union> fst ` set (ls_dot l) \<union>
     (case ls_http l of None \<Rightarrow> {} | Some h \<Rightarrow> {(''tcp'', hs_Addr h)})"

text \<open>A stage opens the sockets \<open>ws\<close>, and fails exactly when one of them cannot be opened.\<close>

definition opens :: "(socket \<Rightarrow> bool) \<Rightarrow> socket list \<Rightarrow> Listeners \<Rightarrow> listen_error option \<times> Listeners \<Rightarrow> bool" where
  "opens free ws l r \<longleftrightarrow>
     (case r of
        (None, l') \<Rightarrow> list_all free ws \<and> distinct ws \<and> set ws \<inter> set (ls_open l) = {} \<and> ls_open l' = ls_open l @ ws \<and>
          ls_pool l' = ls_pool l \<and> ls_shutdown l' = ls_shutdown l \<and> server_sockets l' = server_sockets l \<union> set ws
      | (Some _, l') \<Rightarrow> \<not> (list_all free ws \<and> distinct ws \<and> set ws \<inter> set (ls_open l) = {}))"

lemmas listen_defs = opens_def net_Listen_def tls_Listen_def Let_def

lemma opens_plain: "opens free (wanted_plain cfg) l (listen_plain free cfg l)"
  by (auto simp: listen_plain_def wanted_plain_def server_sockets_def listen_defs)

lemma opens_dot: "tls_ready cfg \<Longrightarrow> opens free (wanted_tls (cfg_ListenDoT cfg)) l (listen_dot free cfg l)"
  by (auto simp: listen_dot_def wanted_tls_def server_sockets_def tls_ready_def listen_defs)

lemma opens_doh:
  "tls_ready cfg \<Longrightarrow> ls_http l = None \<Longrightarrow> opens free (wanted_tls (cfg_ListenDoH cfg)) l (listen_doh free cfg l)"
  by (auto simp: listen_doh_def wanted_tls_def server_sockets_def tls_ready_def listen_defs)

lemma listen_no_http:
  "listen_plain free cfg l = (r, l') \<Longrightarrow> ls_http l' = ls_http l"
  "listen_dot free cfg l = (r, l') \<Longrightarrow> ls_http l' = ls_http l"
  by (auto simp: listen_plain_def listen_dot_def net_Listen_def tls_Listen_def Let_def split: if_splits option.splits)

lemma opens_then:
  assumes "opens free ws l (None, l1)" and "opens free vs l1 (r, l2)"
  shows "opens free (ws @ vs) l (r, l2)"
  using assms by (auto simp: opens_def split: option.splits)

lemma opens_fails: "opens free ws l (Some err, l1) \<Longrightarrow> opens free (ws @ vs) l (Some err, l2)"
  by (auto simp: opens_def)

lemma open_listeners_opens:
  assumes "tls_ready cfg"
  shows "opens free (wanted cfg) new_listeners (open_listeners free cfg new_listeners)"
proof -
  obtain r1 l1 where p: "listen_plain free cfg new_listeners = (r1, l1)" by (cases "listen_plain free cfg new_listeners")
  obtain r2 l2 where d: "listen_dot free cfg l1 = (r2, l2)" by (cases "listen_dot free cfg l1")
  obtain r3 l3 where h: "listen_doh free cfg l2 = (r3, l3)" by (cases "listen_doh free cfg l2")
  have op: "opens free (wanted_plain cfg) new_listeners (r1, l1)" using opens_plain [of free cfg new_listeners] p by simp
  have od: "opens free (wanted_tls (cfg_ListenDoT cfg)) l1 (r2, l2)" using opens_dot [OF assms, of free l1] d by simp
  have "ls_http l2 = None" using listen_no_http(1) [OF p] listen_no_http(2) [OF d] by (simp add: new_listeners_def)
  then have oh: "opens free (wanted_tls (cfg_ListenDoH cfg)) l2 (r3, l3)" using opens_doh [OF assms, of l2 free] h by simp
  show ?thesis
  proof (cases r1)
    case (Some err)
    then show ?thesis using op p opens_fails by (simp add: open_listeners_def wanted_def)
  next
    case None
    show ?thesis
    proof (cases r2)
      case (Some err)
      then show ?thesis
        using opens_then [OF op [unfolded None] opens_fails [OF od [unfolded Some]]] None p d by (simp add: open_listeners_def wanted_def)
    next
      case r2: None
      then show ?thesis
        using opens_then [OF op [unfolded None] opens_then [OF od [unfolded r2] oh]] None p d h by (simp add: open_listeners_def wanted_def)
    qed
  qed
qed

text \<open>Closing what \<^verbatim>\<open>Run\<close> opened leaves nothing open; a second call panics.\<close>

lemma srv_Close_all:
  assumes "ls_pool l" and "\<not> ls_shutdown l" and "set (ls_open l) \<subseteq> server_sockets l"
  shows "\<exists>l'. srv_Close l = Some l' \<and> ls_open l' = [] \<and> \<not> ls_pool l' \<and> srv_Close l' = None"
proof -
  have "(case ls_http l of None \<Rightarrow> l | Some h \<Rightarrow> shut [(''tcp'', hs_Addr h)] l) =
      shut (case ls_http l of None \<Rightarrow> [] | Some h \<Rightarrow> [(''tcp'', hs_Addr h)]) l" for l
    by (simp add: shut_def split: option.split)
  moreover have "\<forall>k \<in> set (ls_open l). k \<in> server_sockets l" using assms(3) by blast
  ultimately show ?thesis
    using assms(1,2)
    by (auto simp: srv_Close_def pool_Close_def shut_def server_sockets_def Let_def filter_empty_conv split: option.splits)
qed

lemma dns_Run_cases:
  assumes "tls_ready cfg"
  obtains (fails) err l where "open_listeners free cfg new_listeners = (Some err, l)" "\<not> (distinct (wanted cfg) \<and> list_all free (wanted cfg))"
    "dns_Run free cfg new_listeners = Some (Some err, l)"
  | (runs) l l' where "open_listeners free cfg new_listeners = (None, l)" "distinct (wanted cfg)" "list_all free (wanted cfg)"
    "ls_open l = wanted cfg" "dns_Run free cfg new_listeners = Some (None, l')" "ls_open l' = []" "\<not> ls_pool l'"
proof -
  obtain r l where op: "open_listeners free cfg new_listeners = (r, l)" by (cases "open_listeners free cfg new_listeners")
  have w: "opens free (wanted cfg) new_listeners (r, l)" using open_listeners_opens [OF assms, of free] op by simp
  show ?thesis
  proof (cases r)
    case (Some err)
    then show ?thesis using fails [of err l] op w by (auto simp: dns_Run_def opens_def new_listeners_def)
  next
    case None
    with w have l: "ls_open l = wanted cfg" "ls_pool l" "\<not> ls_shutdown l" "server_sockets l = set (wanted cfg)"
        "distinct (wanted cfg)" "list_all free (wanted cfg)"
      by (simp_all add: opens_def new_listeners_def server_sockets_def)
    then obtain l' where "srv_Close l = Some l'" "ls_open l' = []" "\<not> ls_pool l'" using srv_Close_all [of l] by auto
    then show ?thesis using runs [of l l'] op None l by (simp add: dns_Run_def)
  qed
qed

text \<open>
  When a later socket cannot be opened, \<^verbatim>\<open>Run\<close> returns with the earlier ones open and the
  pool's goroutine running; only the end of the process closes them.
\<close>

lemma failed_run_leaves_sockets:
  assumes "cfg_ListenPlain cfg = a" and "a \<noteq> ''''" and "free (''udp'', a)" and "\<not> free (''tcp'', a)"
  shows "\<exists>l. dns_Run free cfg new_listeners = Some (Some (PlainTcp a), l) \<and> ls_open l = [(''udp'', a)] \<and> ls_pool l"
  using assms by (simp add: dns_Run_def open_listeners_def listen_plain_def net_Listen_def new_listeners_def Let_def)

end
