(* ===== verification/Supp_Cli.thy ===== *)
theory Supp_Cli
  imports Supp_Init Supp_Tls Admin_Api Dns_Listen
begin

text \<open>
  The command line, \<^verbatim>\<open>src/cmd/supp/main.go\<close>: finding the configuration, starting the server
  from it, and the \<^verbatim>\<open>wg\<close>, \<^verbatim>\<open>client\<close> and \<^verbatim>\<open>doctor\<close> commands with
  their effect on the store and the machine. What is printed is not modelled.
\<close>

section \<open>Arguments\<close>

definition is_config_flag :: "string \<Rightarrow> bool" where
  "is_config_flag a \<longleftrightarrow> a = ''--config'' \<or> a = ''-config''"

definition is_config_assign :: "string \<Rightarrow> bool" where
  "is_config_assign a \<longleftrightarrow> HasPrefix a ''--config='' \<or> HasPrefix a ''-config=''"

fun scan_config :: "string list \<Rightarrow> string option" where
  "scan_config [] = None"
| "scan_config (a # args) =
     (if is_config_flag a then (case args of p # _ \<Rightarrow> Some p | [] \<Rightarrow> None)
      else if is_config_assign a then
        Some (drop (length ''config='') (TrimPrefix (TrimPrefix a ''--'') ''-''))
      else scan_config args)"

definition configPath :: "string \<Rightarrow> fs \<Rightarrow> string list \<Rightarrow> string" where
  "configPath envConfig f args =
     (case scan_config args of
        Some p \<Rightarrow> p
      | None \<Rightarrow>
          if envConfig \<noteq> '''' then envConfig
          else (case find (\<lambda>c. f c \<noteq> None) [''/etc/supp/config.toml'', ''supp.toml''] of
              Some c \<Rightarrow> c
            | None \<Rightarrow> ''/etc/supp/config.toml''))"

function stripConfigArg :: "string list \<Rightarrow> string list" where
  "stripConfigArg [] = []"
| "stripConfigArg (a # args) =
     (if is_config_flag a then stripConfigArg (drop 1 args)
      else if is_config_assign a then stripConfigArg args
      else a # stripConfigArg args)"
  by pat_completeness auto
termination
  by (relation "measure length") auto

section \<open>Starting the server\<close>

definition upstreamURLs :: "Config \<Rightarrow> string list" where
  "upstreamURLs c = map us_URL (dns_Upstreams (c_DNS c))"

definition upstreamWeights :: "Config \<Rightarrow> int list" where
  "upstreamWeights c = map us_Weight (dns_Upstreams (c_DNS c))"

definition list_specs :: "Config \<Rightarrow> ListSpec list" where
  "list_specs c = map (\<lambda>l. \<lparr>spec_Name = li_Name l, spec_URL = li_URL l, spec_Format = li_Format l\<rparr>) (bl_Lists (c_Block c))"

definition boot_engine :: "name_lib \<Rightarrow> list_env \<Rightarrow> time \<Rightarrow> Config \<Rightarrow> fs \<Rightarrow> Engine \<times> fs" where
  "boot_engine L env now c f =
     (let b = c_Block c;
          e = NewEngine L (sv_DataDir (c_Server c)) (list_specs c) (bl_Allowlist b) (bl_Denylist b) (bl_Refresh b);
          e = SetResponseIP e (bl_ResponseIP b) ''::''
      in if bl_Enabled b then (case Refresh L env now e f of (_, e', f') \<Rightarrow> (e', f')) else (e, f))"

definition certPtr :: "TLSCerts option \<Rightarrow> Certificate option" where
  "certPtr c = (case c of None \<Rightarrow> None | Some t \<Rightarrow> tc_Cert t)"

text \<open>The TLS source is set exactly when certificates are; \<open>mp\<close> are the protocols of the ACME manager.\<close>

definition boot_config ::
  "string list \<Rightarrow> Config \<Rightarrow> TLSCerts option \<Rightarrow> Engine \<Rightarrow> Store \<Rightarrow> BrowserPool option \<Rightarrow> srv_Config" where
  "boot_config mp c certs e st browser =
     \<lparr>cfg_ListenPlain = ln_Plain (dns_Listen (c_DNS c)), cfg_ListenDoT = ln_DoT (dns_Listen (c_DNS c)),
      cfg_ListenDoH = ln_DoH (dns_Listen (c_DNS c)), cfg_DotCert = certPtr certs, cfg_DoHCert = certPtr certs,
      cfg_TLSConfigFunc = (case certs of None \<Rightarrow> None | Some t \<Rightarrow> Some (TLSConfig mp (Some t))),
      cfg_Domain = sv_Domain (c_Server c), cfg_PerDeviceDoH = True,
      cfg_Upstreams = upstreamURLs c, cfg_Weights = upstreamWeights c, cfg_Bootstrap = dns_Bootstrap (c_DNS c),
      cfg_Timeout = dns_Timeout (c_DNS c), cfg_CacheSize = ca_Size (dns_Cache (c_DNS c)),
      cfg_CacheMinTTL = ca_MinTTL (dns_Cache (c_DNS c)), cfg_CacheMaxTTL = ca_MaxTTL (dns_Cache (c_DNS c)),
      cfg_FailTTL = ca_FailTTL (dns_Cache (c_DNS c)),
      cfg_Blocker = Some e, cfg_Store = Some st, cfg_Browser = browser\<rparr>"

text \<open>
  What starting depends on: which directories can be made, opening the database (its rows), what
  certificates are made with, the environment variables, the protocols of the ACME manager.
\<close>

record boot_env =
  bt_mkdir :: "string \<Rightarrow> bool"
  bt_rows :: "Store option"
  bt_x509 :: x509_lib
  bt_env :: "string \<Rightarrow> string"
  bt_mgrProtos :: "string list"

datatype boot_error = BootMkdir | BootStore | BootCerts tls_error | BootServer srvErr

text \<open>What runs then; \<open>rn_Lists\<close> says that the refresh loop of the lists does.\<close>

record 'os running =
  rn_Server :: Server
  rn_WG :: "Service option"
  rn_Admin :: "Deps option"
  rn_Lists :: bool
  rn_fs :: fs
  rn_os :: 'os

text \<open>TLS, only needed for encrypted listeners.\<close>

definition boot_certs :: "name_lib \<Rightarrow> boot_env \<Rightarrow> time \<Rightarrow> Config \<Rightarrow> tls_error + TLSCerts option" where
  "boot_certs L bt now c =
     (let needTLS = (ln_DoT (dns_Listen (c_DNS c)) \<noteq> '''' \<or> ln_DoH (dns_Listen (c_DNS c)) \<noteq> '''')
      in if needTLS
         then (case GetCerts L (bt_x509 bt) (bt_mkdir bt) (bt_env bt) now c of Inl err \<Rightarrow> Inl err | Inr t \<Rightarrow> Inr (Some t))
         else Inr None)"

definition boot_wg :: "'os host \<Rightarrow> Config \<Rightarrow> Store \<Rightarrow> 'os \<Rightarrow> Service option \<times> 'os" where
  "boot_wg H c st os =
     (if wg_Enabled (c_WG c) then
        (case Enable H (NewService (c_WG c) (sv_Domain (c_Server c)) (sv_DataDir (c_Server c))) st os of
           (Some _, _, os') \<Rightarrow> (None, os')
         | (None, s, os') \<Rightarrow> (Some s, os'))
      else (None, os))"

definition runServer ::
  "name_lib \<Rightarrow> list_env \<Rightarrow> net_env \<Rightarrow> 'os host \<Rightarrow> boot_env \<Rightarrow> time \<Rightarrow> string \<Rightarrow> Config \<Rightarrow> fs \<Rightarrow> 'os \<Rightarrow> boot_error + 'os running" where
  "runServer L env E H bt now version c f os =
     (if \<not> bt_mkdir bt (sv_DataDir (c_Server c)) then Inl BootMkdir
      else case bt_rows bt of
        None \<Rightarrow> Inl BootStore
      | Some rows \<Rightarrow>
          let st = rows\<lparr>st_logQueries := log_Queries (c_Log c), st_retention := log_Retention (c_Log c)\<rparr>;
              (eng, f) = boot_engine L env now c f;
              browser = (case NewBrowserPool 2 of Inl _ \<Rightarrow> None | Inr bp \<Rightarrow> Some bp)
          in case boot_certs L bt now c of
               Inl err \<Rightarrow> Inl (BootCerts err)
             | Inr certs \<Rightarrow>
               (case NewServer L E now (boot_config (bt_mgrProtos bt) c certs eng st browser) of
                 Inl err \<Rightarrow> Inl (BootServer err)
               | Inr srv \<Rightarrow>
                   let (wg, os) = boot_wg H c st os
                   in Inr \<lparr>rn_Server = srv, rn_WG = wg,
                        rn_Admin = (if ad_Enabled (c_Admin c) then
                            Some \<lparr>dp_Filter = Some eng, dp_Live = srv_Live srv, dp_WG = wg, dp_Version = version,
                                  dp_Token = ad_Token (c_Admin c)\<rparr>
                          else None),
                        rn_Lists = bl_Enabled (c_Block c), rn_fs = f, rn_os = os\<rparr>))"

section \<open>Subcommands\<close>

text \<open>\<^verbatim>\<open>strconv.ParseBool\<close>.\<close>

definition ParseBool :: "string \<Rightarrow> bool option" where
  "ParseBool s =
     (if s \<in> {''1'', ''t'', ''T'', ''TRUE'', ''true'', ''True''} then Some True
      else if s \<in> {''0'', ''f'', ''F'', ''FALSE'', ''false'', ''False''} then Some False
      else None)"

text \<open>
  The package \<^verbatim>\<open>flag\<close> on a set of flags: it stops at the first argument that is not a flag
  and fails on an unknown one, on a flag without its value, on a value that is no boolean. The
  result is the values that were set, the last one of a flag in front.
\<close>

datatype flag_kind = StringFlag | BoolFlag

definition flag_parts :: "string \<Rightarrow> (string \<times> string option) option" where
  "flag_parts a =
     (let name = (if prefix ''--'' a then drop 2 a else drop 1 a) in
      if name = '''' \<or> hd name = CHR ''-'' \<or> hd name = CHR ''='' then None
      else (case IndexByte name CHR ''='' of
          None \<Rightarrow> Some (name, None)
        | Some i \<Rightarrow> Some (take i name, Some (drop (i + 1) name))))"

function flag_Parse ::
  "(string \<times> flag_kind) list \<Rightarrow> (string \<times> string) list \<Rightarrow> string list \<Rightarrow> (string \<times> string) list option" where
  "flag_Parse known acc [] = Some acc"
| "flag_Parse known acc (a # args) =
     (if length a < 2 \<or> hd a \<noteq> CHR ''-'' \<or> a = ''--'' then Some acc
      else (case flag_parts a of
          None \<Rightarrow> None
        | Some (name, val) \<Rightarrow>
            (case map_of known name of
               None \<Rightarrow> None
             | Some BoolFlag \<Rightarrow>
                 (case val of
                    None \<Rightarrow> flag_Parse known ((name, ''true'') # acc) args
                  | Some v \<Rightarrow> (case ParseBool v of None \<Rightarrow> None | Some _ \<Rightarrow> flag_Parse known ((name, v) # acc) args))
             | Some StringFlag \<Rightarrow>
                 (case val of
                    Some v \<Rightarrow> flag_Parse known ((name, v) # acc) args
                  | None \<Rightarrow> (case args of [] \<Rightarrow> None | v # rest \<Rightarrow> flag_Parse known ((name, v) # acc) rest)))))"
  by pat_completeness auto
termination
  by (relation "measure (\<lambda>(_, _, args). length args)") auto

definition flag_string :: "(string \<times> string) list \<Rightarrow> string \<Rightarrow> string" where
  "flag_string fs name = (case map_of fs name of None \<Rightarrow> '''' | Some v \<Rightarrow> v)"

definition flag_bool :: "(string \<times> string) list \<Rightarrow> string \<Rightarrow> bool" where
  "flag_bool fs name = (Option.bind (map_of fs name) ParseBool = Some True)"

datatype cli_error =
    Usage
  | LoadErr config_error
  | OpenErr
  | FlagErr
  | Svc svc_error
  | Db storeErr
  | QrFailed
  | UnknownSub string
  | InitErr init_error
  | BootErr boot_error
  | ListenErr listen_error
  | Unreachable
  | BadJson
  | DoctorProblems

text \<open>
  \<^verbatim>\<open>cmdWG\<close> after the configuration is loaded and the database opened; the outer \<open>None\<close> is a
  command that does not return or panics. The service of a command is a new one, without a kernel
  manager.
\<close>

definition wg_add ::
  "'os host \<Rightarrow> time \<Rightarrow> Config \<Rightarrow> Service \<Rightarrow> Store \<Rightarrow> 'os \<Rightarrow> string list \<Rightarrow> (cli_error option \<times> Store \<times> 'os) option" where
  "wg_add H now c svc st os rest =
     (case rest of
        [] \<Rightarrow> Some (Some Usage, st, os)
      | name # flags \<Rightarrow>
          (case flag_Parse [(''split'', BoolFlag), (''client'', StringFlag)] [] (stripConfigArg flags) of
             None \<Rightarrow> Some (Some FlagErr, st, os)
           | Some fl \<Rightarrow>
               let client = flag_string fl ''client'';
                   full = (if flag_bool fl ''split'' then False else wg_DefaultFullTunnel (c_WG c)) in
               (case (if client = '''' then Inr 0
                      else (case ClientByName st client of Inl err \<Rightarrow> Inl err | Inr cl \<Rightarrow> Inr (cl_ID cl))) of
                  Inl err \<Rightarrow> Some (Some (Db err), st, os)
                | Inr clientID \<Rightarrow>
                    (case AddPeer H now svc st os name full clientID of
                       None \<Rightarrow> None
                     | Some (Inl err, st', os') \<Rightarrow> Some (Some (Svc err), st', os')
                     | Some (Inr p, st', os') \<Rightarrow>
                         (case PeerConf H svc os' p of
                            (Inl err, os'') \<Rightarrow> Some (Some (Svc err), st', os'')
                          | (Inr _, os'') \<Rightarrow> Some (None, st', os''))))))"

definition wg_qr ::
  "'os host \<Rightarrow> (string \<Rightarrow> bool list list option) \<Rightarrow> Service \<Rightarrow> Store \<Rightarrow> 'os \<Rightarrow> string list \<Rightarrow> (cli_error option \<times> Store \<times> 'os) option" where
  "wg_qr H enc svc st os rest =
     (case rest of
        [] \<Rightarrow> Some (Some Usage, st, os)
      | name # _ \<Rightarrow>
          (case WgPeerByName st name of
             Inl err \<Rightarrow> Some (Some (Db err), st, os)
           | Inr p \<Rightarrow>
               (case PeerConf H svc os p of
                  (Inl err, os') \<Rightarrow> Some (Some (Svc err), st, os')
                | (Inr conf, os') \<Rightarrow>
                    (case QRTerminal enc conf of
                       None \<Rightarrow> None
                     | Some None \<Rightarrow> Some (Some QrFailed, st, os')
                     | Some (Some _) \<Rightarrow> Some (None, st, os')))))"

definition wg_remove ::
  "'os host \<Rightarrow> Service \<Rightarrow> Store \<Rightarrow> 'os \<Rightarrow> string list \<Rightarrow> cli_error option \<times> Store \<times> 'os" where
  "wg_remove H svc st os rest =
     (case rest of
        [] \<Rightarrow> (Some Usage, st, os)
      | name # _ \<Rightarrow>
          (case WgPeerByName st name of
             Inl err \<Rightarrow> (Some (Db err), st, os)
           | Inr p \<Rightarrow> (case RemovePeer H svc st os (wp_ID p) of (r, st', os') \<Rightarrow> (map_option Svc r, st', os'))))"

definition cmdWG ::
  "toml_lib \<Rightarrow> string \<Rightarrow> fs \<Rightarrow> 'os host \<Rightarrow> (string \<Rightarrow> bool list list option) \<Rightarrow> time \<Rightarrow> Store option \<Rightarrow> 'os \<Rightarrow> string list \<Rightarrow>
    (cli_error option \<times> Store option \<times> 'os) option" where
  "cmdWG T envConfig f H enc now db os args =
     (case args of
        [] \<Rightarrow> Some (Some Usage, db, os)
      | sub # rest \<Rightarrow>
          (case Load T f (configPath envConfig f args) of
             Inl err \<Rightarrow> Some (Some (LoadErr err), db, os)
           | Inr c \<Rightarrow>
               let c = c\<lparr>c_WG := ApplyDefaults ((c_WG c)\<lparr>wg_Enabled := True\<rparr>)\<rparr> in
               (case db of
                  None \<Rightarrow> Some (Some OpenErr, db, os)
                | Some st \<Rightarrow>
                    let svc = NewService (c_WG c) (sv_Domain (c_Server c)) (sv_DataDir (c_Server c));
                        done = map_option (\<lambda>(r, st, os). (r, Some st, os))
                    in if sub = ''enable'' then
                         (case Enable H svc st os of (r, _, os') \<Rightarrow> Some (map_option Svc r, Some st, os'))
                       else if sub = ''disable'' then
                         (case Disable H svc os of (r, os') \<Rightarrow> Some (map_option Svc r, Some st, os'))
                       else if sub = ''add'' then done (wg_add H now c svc st os rest)
                       else if sub = ''list'' then Some (None, Some st, os)
                       else if sub = ''qr'' then done (wg_qr H enc svc st os rest)
                       else if sub = ''remove'' \<or> sub = ''delete'' then done (Some (wg_remove H svc st os rest))
                       else if sub = ''show'' then Some (None, Some st, os)
                       else Some (Some (UnknownSub sub), Some st, os))))"

definition cmdClient ::
  "toml_lib \<Rightarrow> string \<Rightarrow> fs \<Rightarrow> u8 list option \<Rightarrow> time \<Rightarrow> Store option \<Rightarrow> string list \<Rightarrow> cli_error option \<times> Store option" where
  "cmdClient T envConfig f rnd now db args =
     (case args of
        [] \<Rightarrow> (Some Usage, db)
      | sub # rest \<Rightarrow>
          (case Load T f (configPath envConfig f args) of
             Inl err \<Rightarrow> (Some (LoadErr err), db)
           | Inr c \<Rightarrow>
               (case db of
                  None \<Rightarrow> (Some OpenErr, db)
                | Some st \<Rightarrow>
                    if sub = ''add'' then
                      (case rest of
                         [] \<Rightarrow> (Some Usage, db)
                       | name # _ \<Rightarrow>
                           (case CreateClient rnd now st name of
                              (Inl err, st') \<Rightarrow> (Some (Db err), Some st')
                            | (Inr _, st') \<Rightarrow> (None, Some st')))
                    else if sub = ''list'' then (None, db)
                    else if sub = ''revoke'' \<or> sub = ''remove'' \<or> sub = ''delete'' then
                      (case rest of
                         [] \<Rightarrow> (Some Usage, db)
                       | name # _ \<Rightarrow>
                           (case ClientByName st name of
                              Inl err \<Rightarrow> (Some (Db err), db)
                            | Inr cl \<Rightarrow> (None, Some (DeleteClient st (cl_ID cl)))))
                    else (Some (UnknownSub sub), db))))"

text \<open>What \<^verbatim>\<open>wg list\<close> and \<^verbatim>\<open>client list\<close> show of a row, before the columns are padded.\<close>

definition tunnelMode :: "bool \<Rightarrow> string" where
  "tunnelMode full = (if full then ''full-tunnel'' else ''split'')"

definition cli_humanBytes :: "u64 \<Rightarrow> string" where
  "cli_humanBytes w =
     (let n = uint w; k = 1024 in
      if k * k * k * k \<le> n then one_decimal n (k * k * k * k) @ ''T''
      else if k * k * k \<le> n then one_decimal n (k * k * k) @ ''G''
      else if k * k \<le> n then one_decimal n (k * k) @ ''M''
      else if k \<le> n then one_decimal n k @ ''K''
      else itoa n @ ''B'')"

record peer_line =
  pl_Name :: string
  pl_IP :: string
  pl_Mode :: string
  pl_Rx :: string
  pl_Tx :: string
  pl_Handshake :: string
  pl_Status :: string

definition wg_list :: "time \<Rightarrow> Store \<Rightarrow> peer_line list" where
  "wg_list now st =
     map (\<lambda>p. \<lparr>pl_Name = wp_Name p, pl_IP = wp_IP p, pl_Mode = tunnelMode (wp_FullTunnel p),
               pl_Rx = cli_humanBytes (wp_RxBytes p), pl_Tx = cli_humanBytes (wp_TxBytes p),
               pl_Handshake = (if wp_LastHandsha p \<noteq> zero_time \<and> 0 < Unix (wp_LastHandsha p)
                 then Duration_String (Duration_Round (time_Sub now (wp_LastHandsha p)) Second) @ '' ago'' else ''never''),
               pl_Status = (if \<not> wp_Active p then ''REVOKED'' else ''active'')\<rparr>)
       (ListWgPeers st)"

record client_line =
  cn_Name :: string
  cn_Status :: string
  cn_Queries :: int
  cn_Blocked :: int
  cn_Last :: time

definition client_list :: "time \<Rightarrow> Store \<Rightarrow> client_line list" where
  "client_list now st =
     (let byID = fold (\<lambda>r. AList.update (clr_ID r) r) (PerClient st (now - 24 * Hour)) [] in
      map (\<lambda>c. \<lparr>cn_Name = cl_Name c, cn_Status = (if \<not> cl_Active c then ''REVOKED'' else ''active''),
                cn_Queries = (case map_of byID (cl_ID c) of None \<Rightarrow> 0 | Some r \<Rightarrow> clr_Queries r),
                cn_Blocked = (case map_of byID (cl_ID c) of None \<Rightarrow> 0 | Some r \<Rightarrow> clr_Blocked r),
                cn_Last = cl_LastSeen c\<rparr>)
        (ListClients st))"

section \<open>The doctor\<close>

definition hostOf :: "string \<Rightarrow> string" where
  "hostOf url =
     (let s = fold (\<lambda>p s. TrimPrefix s p) [''doh://'', ''dot://'', ''tls://'', ''udp://'', ''tcp://'', ''https://''] url;
          s = (case IndexByte s CHR ''/'' of None \<Rightarrow> s | Some i \<Rightarrow> take i s)
      in case LastIndexByte s CHR '':'' of None \<Rightarrow> s | Some i \<Rightarrow> take i s)"

definition cli_splitHostPort :: "string \<Rightarrow> string \<times> int" where
  "cli_splitHostPort ep =
     (case SplitHostPort ep of
        None \<Rightarrow> (ep, 0)
      | Some (host, port) \<Rightarrow> (host, case go_Atoi port of None \<Rightarrow> 0 | Some p \<Rightarrow> p))"

text \<open>
  What the checks ask of the machine: directories and files, requests to the dashboard, free ports,
  names that resolve. \<open>pr_newRequest\<close> says whether an address makes a valid request; \<open>pr_http\<close>
  is a \<^verbatim>\<open>GET\<close> with the header \<^verbatim>\<open>X-Admin-Token\<close>, its status and body; \<open>pr_json\<close> whether a
  body is a JSON object.
\<close>

record probes =
  pr_disk :: disk
  pr_remove :: "string \<Rightarrow> bool"
  pr_newRequest :: "string \<Rightarrow> bool"
  pr_http :: "string \<Rightarrow> string \<Rightarrow> (int \<times> bytes) option"
  pr_json :: "bytes \<Rightarrow> bool"
  pr_tcp :: "string \<Rightarrow> bool"
  pr_udp :: "string \<Rightarrow> bool"
  pr_lookup :: "string \<Rightarrow> bool"

definition stats_url :: "Config \<Rightarrow> string" where
  "stats_url c = ''http://'' @ ad_Listen (c_Admin c) @ ''/api/stats''"

text \<open>
  The error of building the request is ignored, and setting the header of the missing request
  panics: \<open>None\<close>.
\<close>

definition serverAlive :: "probes \<Rightarrow> Config \<Rightarrow> bool option" where
  "serverAlive P c =
     (if \<not> pr_newRequest P (stats_url c) then None
      else Some (case pr_http P (stats_url c) (ad_Token (c_Admin c)) of
          None \<Rightarrow> False
        | Some (status, _) \<Rightarrow> status = 200))"

definition cmdStatus :: "toml_lib \<Rightarrow> string \<Rightarrow> fs \<Rightarrow> probes \<Rightarrow> string list \<Rightarrow> cli_error option option" where
  "cmdStatus T envConfig f P args =
     (case Load T f (configPath envConfig f args) of
        Inl err \<Rightarrow> Some (Some (LoadErr err))
      | Inr c \<Rightarrow>
          if \<not> pr_newRequest P (stats_url c) then None
          else (case pr_http P (stats_url c) (ad_Token (c_Admin c)) of
              None \<Rightarrow> Some (Some Unreachable)
            | Some (_, body) \<Rightarrow> Some (if pr_json P body then None else Some BadJson)))"

definition writableDir :: "probes \<Rightarrow> string \<Rightarrow> fs \<Rightarrow> bool \<times> fs" where
  "writableDir P dir f =
     (if \<not> mkdirAll (pr_disk P) dir then (False, f)
      else
        let probe = filepath_Join [dir, ''.probe''] in
        if \<not> openWrite (pr_disk P) probe then (False, f)
        else if pr_remove P probe then (True, f(probe := None))
        else (False, f(probe \<mapsto> ''x'')))"

text \<open>An error, or none, for a condition.\<close>

definition nilIf :: "bool \<Rightarrow> unit option" where
  "nilIf cond = (if cond then None else Some ())"

definition portFree :: "probes \<Rightarrow> string \<Rightarrow> bool" where
  "portFree P addr = (if pr_tcp P addr then True else pr_udp P addr)"

definition udpFree :: "probes \<Rightarrow> int \<Rightarrow> bool" where
  "udpFree P port = pr_udp P (''0.0.0.0:'' @ itoa port)"

definition wg_checks :: "probes \<Rightarrow> Config \<Rightarrow> bool list" where
  "wg_checks P c =
     (if wg_Enabled (c_WG c) then
        [nilIf (wg_Interface (c_WG c) \<noteq> '''') = None, udpFree P (wg_Port (c_WG c))] @
        (let ep = EffectiveEndpoint (c_WG c) (sv_Domain (c_Server c)) in
         if \<not> HasPrefix ep ''<'' then [pr_lookup P (fst (cli_splitHostPort ep))] else [])
      else [])"

text \<open>The checks after that of the data directory, in their order.\<close>

definition doctor_checks :: "bool \<Rightarrow> probes \<Rightarrow> Config \<Rightarrow> bool list" where
  "doctor_checks alive P c =
     (if alive then []
      else map (portFree P) (filter (\<lambda>addr. addr \<noteq> '''')
             [ln_Plain (dns_Listen (c_DNS c)), ln_DoT (dns_Listen (c_DNS c)), ln_DoH (dns_Listen (c_DNS c))])) @
     (if sv_Domain (c_Server c) \<noteq> '''' then [pr_lookup P (sv_Domain (c_Server c))] else []) @
     map (\<lambda>u. pr_lookup P (hostOf (us_URL u))) (dns_Upstreams (c_DNS c)) @
     wg_checks P c"

definition cmdDoctor :: "toml_lib \<Rightarrow> string \<Rightarrow> fs \<Rightarrow> probes \<Rightarrow> string list \<Rightarrow> (cli_error option \<times> fs) option" where
  "cmdDoctor T envConfig f P args =
     (case Load T f (configPath envConfig f args) of
        Inl err \<Rightarrow> Some (Some (LoadErr err), f)
      | Inr c \<Rightarrow>
          let (writable, f) = writableDir P (sv_DataDir (c_Server c)) f in
          (case serverAlive P c of
             None \<Rightarrow> None
           | Some alive \<Rightarrow>
               let ok = list_all (\<lambda>b. b) ([True, writable] @ doctor_checks alive P c)
               in Some (if ok then None else Some DoctorProblems, f)))"

section \<open>The program\<close>

definition cmdInit ::
  "toml_lib \<Rightarrow> disk \<Rightarrow> string \<Rightarrow> fs \<Rightarrow> string \<Rightarrow> u8 list option \<Rightarrow> string list \<Rightarrow> (cli_error option \<times> fs) option" where
  "cmdInit T dk envConfig f stdin rnd args =
     (let cfgPath = configPath envConfig f args in
      case flag_Parse [(''domain'', StringFlag), (''token'', StringFlag)] [] (stripConfigArg args) of
        None \<Rightarrow> Some (Some FlagErr, f)
      | Some fl \<Rightarrow>
          (case init_Run T dk f \<lparr>op_ConfigPath = cfgPath, op_Domain = flag_string fl ''domain'', op_AdminToken = flag_string fl ''token''\<rparr> stdin rnd of
             None \<Rightarrow> None
           | Some (Inl err, f') \<Rightarrow> Some (Some (InitErr err), f')
           | Some (Inr _, f') \<Rightarrow> Some (None, f')))"

text \<open>
  What a run of the program depends on; \<open>ce_free\<close> are the sockets that can be opened, and
  \<open>ce_after\<close> what the requests and timers between start and end of a server leave behind.
\<close>

record 'os world =
  wd_fs :: fs
  wd_db :: "Store option"
  wd_os :: 'os

record 'os cli_env =
  ce_toml :: toml_lib
  ce_disk :: disk
  ce_config :: string
  ce_stdin :: string
  ce_rnd :: "u8 list option"
  ce_now :: time
  ce_names :: name_lib
  ce_lists :: list_env
  ce_net :: net_env
  ce_host :: "'os host"
  ce_boot :: boot_env
  ce_version :: string
  ce_free :: "socket \<Rightarrow> bool"
  ce_qr :: "string \<Rightarrow> bool list list option"
  ce_probes :: probes
  ce_after :: "'os running \<Rightarrow> 'os world"

definition cmdServer :: "'os cli_env \<Rightarrow> 'os world \<Rightarrow> string list \<Rightarrow> (cli_error option \<times> 'os world) option" where
  "cmdServer X w args =
     (case Load (ce_toml X) (wd_fs w) (configPath (ce_config X) (wd_fs w) args) of
        Inl err \<Rightarrow> Some (Some (LoadErr err), w)
      | Inr c \<Rightarrow>
          (case runServer (ce_names X) (ce_lists X) (ce_net X) (ce_host X) (ce_boot X) (ce_now X) (ce_version X) c (wd_fs w) (wd_os w) of
             Inl err \<Rightarrow> Some (Some (BootErr err), w)
           | Inr r \<Rightarrow>
               (case dns_Run (ce_free X) (srv_cfg (rn_Server r)) new_listeners of
                  None \<Rightarrow> None
                | Some (res, _) \<Rightarrow> Some (map_option ListenErr res, ce_after X r))))"

text \<open>
  \<^verbatim>\<open>main\<close> on the arguments after the program's name: the exit code and what is left, \<open>None\<close> for
  a panic or a command that does not return.
\<close>

definition run_command ::
  "'os cli_env \<Rightarrow> 'os world \<Rightarrow> string \<Rightarrow> string list \<Rightarrow> (cli_error option \<times> 'os world) option option" where
  "run_command X w cmd args =
     (if cmd = ''init'' then
        Some (map_option (\<lambda>(r, f). (r, w\<lparr>wd_fs := f\<rparr>))
          (cmdInit (ce_toml X) (ce_disk X) (ce_config X) (wd_fs w) (ce_stdin X) (ce_rnd X) args))
      else if cmd = ''server'' then Some (cmdServer X w args)
      else if cmd = ''client'' then
        Some (case cmdClient (ce_toml X) (ce_config X) (wd_fs w) (ce_rnd X) (ce_now X) (wd_db w) args of
            (r, db) \<Rightarrow> Some (r, w\<lparr>wd_db := db\<rparr>))
      else if cmd = ''wg'' then
        Some (map_option (\<lambda>(r, db, os). (r, w\<lparr>wd_db := db, wd_os := os\<rparr>))
          (cmdWG (ce_toml X) (ce_config X) (wd_fs w) (ce_host X) (ce_qr X) (ce_now X) (wd_db w) (wd_os w) args))
      else if cmd = ''status'' then
        Some (map_option (\<lambda>r. (r, w)) (cmdStatus (ce_toml X) (ce_config X) (wd_fs w) (ce_probes X) args))
      else if cmd = ''doctor'' then
        Some (map_option (\<lambda>(r, f). (r, w\<lparr>wd_fs := f\<rparr>))
          (cmdDoctor (ce_toml X) (ce_config X) (wd_fs w) (ce_probes X) args))
      else if cmd \<in> {''version'', ''--version'', ''-v'', ''help'', ''--help'', ''-h''} then Some (Some (None, w))
      else None)"

definition main :: "'os cli_env \<Rightarrow> 'os world \<Rightarrow> string list \<Rightarrow> (int \<times> 'os world) option" where
  "main X w args =
     (case args of
        [] \<Rightarrow> Some (2, w)
      | cmd # rest \<Rightarrow>
          (case run_command X w cmd rest of
             None \<Rightarrow> Some (2, w)
           | Some None \<Rightarrow> None
           | Some (Some (None, w')) \<Rightarrow> Some (0, w')
           | Some (Some (Some _, w')) \<Rightarrow> Some (1, w')))"

section \<open>Arguments and wiring\<close>

text \<open>No configuration flag is left for the flag parser, and without one nothing is removed.\<close>

lemma strip_no_config: "a \<in> set (stripConfigArg args) \<Longrightarrow> a \<in> set args \<and> \<not> is_config_flag a \<and> \<not> is_config_assign a"
  by (induction args rule: stripConfigArg.induct) (auto split: if_splits dest: in_set_dropD)

lemma strip_id: "\<forall>a \<in> set args. \<not> is_config_flag a \<and> \<not> is_config_assign a \<Longrightarrow> stripConfigArg args = args"
  by (induction args rule: stripConfigArg.induct) auto

text \<open>The flag is found wherever it stands, also after a subcommand.\<close>

lemma config_flag_anywhere:
  "\<forall>a \<in> set pre. \<not> is_config_flag a \<and> \<not> is_config_assign a \<Longrightarrow>
     configPath ev f (pre @ ''--config'' # p # post) = p \<and> stripConfigArg (pre @ ''--config'' # p # post) = pre @ stripConfigArg post"
proof (induction pre)
  case Nil
  then show ?case by (simp add: configPath_def is_config_flag_def)
next
  case (Cons a pre)
  then show ?case by (simp add: configPath_def)
qed

lemma weights_match_urls: "length (upstreamWeights c) = length (upstreamURLs c)"
  by (simp add: upstreamWeights_def upstreamURLs_def)

lemma boot_not_failing_on_config:
  "valid_config c \<Longrightarrow> upstreamURLs c \<noteq> [] \<and> 0 < cfg_CacheSize (boot_config mp c certs e st b)"
  by (simp add: valid_config_def upstreamURLs_def boot_config_def)

text \<open>
  The DNS server starts, or fails to start, in the same way whatever becomes of the VPN.
\<close>

lemma wg_failure_keeps_dns:
  "(case runServer L env E H bt now v c f os of Inl err \<Rightarrow> Inl err | Inr r \<Rightarrow> Inr (rn_Server r)) =
   (case runServer L env E H' bt now v c f os' of Inl err \<Rightarrow> Inl err | Inr r \<Rightarrow> Inr (rn_Server r))"
  by (simp add: runServer_def Let_def split: option.split sum.split prod.split)

text \<open>The inline lists are in force from the start, with or without a refresh, whatever the lists deliver.\<close>

lemma SetResponseIP_sets [simp]:
  "eng_blocked (SetResponseIP e a b) = eng_blocked e" "eng_allowed (SetResponseIP e a b) = eng_allowed e"
  "eng_deny (SetResponseIP e a b) = eng_deny e" "eng_allow (SetResponseIP e a b) = eng_allow e"
  by (simp_all add: SetResponseIP_def Let_def split: option.split)

lemma SetResponseIP_ip4: "ParseAddr a = Some (Addr4 w) \<Longrightarrow> respA4 (SetResponseIP e a b) = Some (Addr4 w)"
proof -
  assume "ParseAddr a = Some (Addr4 w)"
  moreover from this have "a \<noteq> []" by (auto simp: ParseAddr_def)
  ultimately show ?thesis by (simp add: SetResponseIP_def Let_def split: option.split)
qed

lemma Refresh_keeps_inline:
  "b \<in> set (eng_deny e) \<Longrightarrow> covers L b d \<Longrightarrow> Has L (eng_blocked e) d \<Longrightarrow> Has L (eng_blocked (refreshed L env now e f)) d"
  "respA4 (refreshed L env now e f) = respA4 e"
proof -
  have throttled: "refreshed L env now e f = e" if "time_Sub now (lastTry e) < 5 * Second"
    using that by (simp add: Refresh_def)
  show "respA4 (refreshed L env now e f) = respA4 e"
    using throttled Refresh_sets(7) [OF _ refl refl] by (cases "time_Sub now (lastTry e) < 5 * Second") auto
  assume b: "b \<in> set (eng_deny e)" "covers L b d" "Has L (eng_blocked e) d"
  show "Has L (eng_blocked (refreshed L env now e f)) d"
  proof (cases "time_Sub now (lastTry e) < 5 * Second")
    case True
    with throttled b show ?thesis by simp
  next
    case False
    with b show ?thesis unfolding Refresh_sets(1) [OF False refl refl] has_add_all by auto
  qed
qed

lemma boot_engine_denies:
  assumes "b \<in> set (bl_Denylist (c_Block c))" and "covers L b d"
  shows "Has L (eng_blocked (fst (boot_engine L env now c f))) d"
proof -
  let ?e = "SetResponseIP (NewEngine L (sv_DataDir (c_Server c)) (list_specs c) (bl_Allowlist (c_Block c))
    (bl_Denylist (c_Block c)) (bl_Refresh (c_Block c))) (bl_ResponseIP (c_Block c)) ''::''"
  have "Has L (eng_blocked ?e) d" "b \<in> set (eng_deny ?e)"
    using assms by (auto simp: NewEngine_def has_add_all)
  with Refresh_keeps_inline(1) [of b ?e L d env now f] assms(2) show ?thesis
    by (auto simp: boot_engine_def Let_def split: prod.splits)
qed

lemma boot_engine_ip4:
  assumes "ParseAddr (bl_ResponseIP (c_Block c)) = Some (Addr4 w)"
  shows "BlockIPv4 (fst (boot_engine L env now c f)) = Addr4 w"
proof -
  let ?e = "SetResponseIP (NewEngine L (sv_DataDir (c_Server c)) (list_specs c) (bl_Allowlist (c_Block c))
    (bl_Denylist (c_Block c)) (bl_Refresh (c_Block c))) (bl_ResponseIP (c_Block c)) ''::''"
  have "respA4 ?e = Some (Addr4 w)" using assms by (rule SetResponseIP_ip4)
  with Refresh_keeps_inline(2) [of L env now ?e f] show ?thesis
    by (auto simp: boot_engine_def Let_def BlockIPv4_def blockIPs_def split: prod.splits)
qed

lemma runServer_filter:
  assumes "runServer L env E H bt now v c f os = Inr r"
  shows "srv_filter (rn_Server r) = fst (boot_engine L env now c f) \<and>
    (\<exists>now' cfg'. NewServer L E now' cfg' = Inr (rn_Server r))"
proof -
  obtain mp certs st b srv where n: "NewServer L E now (boot_config mp c certs (fst (boot_engine L env now c f)) st b) = Inr srv"
    and r: "rn_Server r = srv"
    using assms by (auto simp: runServer_def Let_def split: if_splits option.splits sum.splits prod.splits)
  then have "srv_filter srv = fst (boot_engine L env now c f)"
    using NewServer_fields(1) [OF n] by (simp add: boot_config_def)
  with n r show ?thesis by blast
qed

section \<open>A configuration for examples\<close>

text \<open>Blocking by an inline entry, one plain upstream, all listeners, a self-signed certificate.\<close>

definition demo_config :: Config where
  "demo_config =
     Default\<lparr>c_DNS := (c_DNS Default)\<lparr>dns_Upstreams := [\<lparr>us_URL = ''1.1.1.1'', us_Weight = 1\<rparr>]\<rparr>,
       c_Block := (c_Block Default)\<lparr>bl_Enabled := False, bl_Denylist := [''ads.com'']\<rparr>\<rparr>"

definition demo_x509 :: x509_lib where
  "demo_x509 =
     \<lparr>generateKey = Some ''k'', randInt = (\<lambda>m. if 0 < m then Some 0 else None), createCertificate = (\<lambda>_ _ _. Some ''c''),
      parseCertificate = (\<lambda>_. Some (cert_template ''supp.local'' 0 0))\<rparr>"

definition demo_boot :: boot_env where
  "demo_boot = \<lparr>bt_mkdir = (\<lambda>_. True), bt_rows = Some (Open True 0), bt_x509 = demo_x509, bt_env = (\<lambda>_. []), bt_mgrProtos = []\<rparr>"

section \<open>Listening\<close>

text \<open>The sockets that the configuration asks for.\<close>

definition configured :: "Listen \<Rightarrow> socket list" where
  "configured li =
     (if ln_Plain li = '''' then [] else [(''udp'', ln_Plain li), (''tcp'', ln_Plain li)]) @
     wanted_tls (ln_DoT li) @ wanted_tls (ln_DoH li)"

lemma runServer_config:
  assumes "runServer L env E H bt now v c f os = Inr r"
  shows "\<exists>mp certs e st b. NewServer L E now (boot_config mp c certs e st b) = Inr (rn_Server r) \<and> boot_certs L bt now c = Inr certs"
proof -
  obtain e f' where e: "boot_engine L env now c f = (e, f')" by (cases "boot_engine L env now c f")
  obtain certs where "boot_certs L bt now c = Inr certs"
    using assms e by (auto simp: runServer_def Let_def split: sum.splits if_splits option.splits)
  moreover obtain mp st b where "NewServer L E now (boot_config mp c certs e st b) = Inr (rn_Server r)"
    using assms e calculation by (auto simp: runServer_def Let_def split: sum.splits prod.splits if_splits option.splits)
  ultimately show ?thesis by blast
qed

lemma runServer_listen:
  assumes "runServer L env E H bt now v c f os = Inr r"
  shows "tls_ready (srv_cfg (rn_Server r))" "wanted (srv_cfg (rn_Server r)) = configured (dns_Listen (c_DNS c))"
proof -
  obtain mp certs e st b where n: "NewServer L E now (boot_config mp c certs e st b) = Inr (rn_Server r)"
    and certs: "boot_certs L bt now c = Inr certs"
    using runServer_config [OF assms] by blast
  have "\<exists>t. certs = Some t \<and> (\<forall>mp ps. tls_listenable (TLSConfig mp (Some t) ps))"
    if "ln_DoT (dns_Listen (c_DNS c)) \<noteq> '''' \<or> ln_DoH (dns_Listen (c_DNS c)) \<noteq> ''''"
    using certs that GetCerts_listenable by (auto simp: boot_certs_def Let_def split: sum.splits)
  then show "tls_ready (srv_cfg (rn_Server r))"
    unfolding tls_ready_def NewServer_fields [OF n] by (auto simp: boot_config_def)
  show "wanted (srv_cfg (rn_Server r)) = configured (dns_Listen (c_DNS c))"
    unfolding wanted_def wanted_plain_def NewServer_fields [OF n] by (simp add: boot_config_def configured_def)
qed



section \<open>From init to the dashboard\<close>

text \<open>The request of \<^verbatim>\<open>supp status\<close> and of the doctor, as it arrives at the dashboard.\<close>

definition stats_request :: "Config \<Rightarrow> admin_request" where
  "stats_request c =
     \<lparr>arq_Method = ''GET'', arq_Path = ''/api/stats'', arq_XAdminToken = ad_Token (c_Admin c), arq_Cookie = None,
      arq_Query = [], arq_Body = []\<rparr>"

lemma auth_stats:
  assumes "ad_Token (c_Admin c) \<noteq> []" and "dp_Token d = ad_Token (c_Admin c)"
  shows "auth H J enc d rnd now a (stats_request c) = Some (JsonStats (stats d now (as_Store a)), a)"
proof -
  have "mux_clean ''/api/stats'' = ''/api/stats''" by code_simp
  moreover have "mux_find ''GET'' (path_segs ''/api/stats'') = Inr StatsJson" by code_simp
  ultimately show ?thesis
    using assms
    by (simp add: auth_def presented_def stats_request_def query_get_def ConstantTimeCompare_eq admin_mux_def run_route_def apiStats_def)
qed

lemma runServer_admin:
  "runServer L env E H bt now v c f os = Inr r \<Longrightarrow> rn_Admin r = Some d \<Longrightarrow> dp_Token d = ad_Token (c_Admin c)"
  by (auto simp: runServer_def Let_def split: if_splits option.splits sum.splits prod.splits)

lemma init_Run_files:
  assumes "init_Run T dk f opts stdin rnd = Some (r, f')"
  shows "(\<forall>q. q \<noteq> op_ConfigPath opts \<longrightarrow> f' q = f q) \<and> (f (op_ConfigPath opts) \<noteq> None \<longrightarrow> f' (op_ConfigPath opts) \<noteq> None)"
  using assms by (auto simp: init_Run_def Save_def split: sum.splits option.splits prod.splits if_splits)

text \<open>Only the domain and the token differ from what init started with.\<close>

definition init_base :: "toml_lib \<Rightarrow> fs \<Rightarrow> string \<Rightarrow> Config \<Rightarrow> bool" where
  "init_base T f p c \<longleftrightarrow> (if f p \<noteq> None then Load T f p = Inr c else c = Default)"

lemma set_same: "set_domain c (sv_Domain (c_Server c)) = c" "set_token c (ad_Token (c_Admin c)) = c"
  by (simp_all add: set_domain_def set_token_def)

lemma init_Run_shape:
  assumes "init_Run T dk f opts stdin rnd = Some (Inr c, f')"
  shows "\<exists>c0 dom tok. init_base T f (op_ConfigPath opts) c0 \<and> c = filled (set_token (set_domain c0 dom) tok)"
proof -
  obtain c0 c2 ch2 where c0: "(if f (op_ConfigPath opts) \<noteq> None then Load T f (op_ConfigPath opts) else Inr Default) = Inr c0"
    and t: "choose_token opts rnd (choose_domain opts stdin c0) = Some (c2, ch2)" and c: "Validate c2 = (None, c)"
    using assms by (auto simp: init_Run_def split: sum.splits option.splits prod.splits if_splits)
  obtain c1 ch where d: "choose_domain opts stdin c0 = (c1, ch)" by fastforce
  have "\<exists>dom. c1 = set_domain c0 dom"
    using d set_same(1) [of c0] by (auto simp: choose_domain_def Let_def split: if_splits intro: sym)
  moreover have "\<exists>tok. c2 = set_token c1 tok"
    using t d set_same(2) [of c1] by (auto simp: choose_token_def split: if_splits intro: sym)
  ultimately show ?thesis
    using c0 c by (auto simp: init_base_def Validate_cases split: if_splits)
qed

text \<open>The search for the configuration finds the file that it found, or would have created, before.\<close>

lemma configPath_stable:
  assumes "\<forall>q. q \<noteq> p \<longrightarrow> f' q = f q" and "f' p \<noteq> None" and "configPath ev f args = p"
  shows "configPath ev f' args = p"
proof (cases "scan_config args = None \<and> ev = ''''")
  case True
  then have "(case find (\<lambda>c. f c \<noteq> None) [''/etc/supp/config.toml'', ''supp.toml''] of
      Some c \<Rightarrow> c | None \<Rightarrow> ''/etc/supp/config.toml'') = p"
    using assms(3) by (auto simp: configPath_def)
  then have "(case find (\<lambda>c. f' c \<noteq> None) [''/etc/supp/config.toml'', ''supp.toml''] of
      Some c \<Rightarrow> c | None \<Rightarrow> ''/etc/supp/config.toml'') = p"
    using assms(1,2) by (cases "f ''/etc/supp/config.toml''"; cases "f ''supp.toml''") (auto split: if_splits)
  with True show ?thesis by (auto simp: configPath_def)
qed (use assms(3) in \<open>auto simp: configPath_def\<close>)


text \<open>A codec for the example: the text is the token, and only changed tokens are written.\<close>

definition demo_toml :: toml_lib where
  "demo_toml =
     \<lparr>tomlUnmarshal = (\<lambda>b c. Some (set_token c b)),
      tomlEncode = (\<lambda>c. (ad_Token (c_Admin c), c = set_token Default (ad_Token (c_Admin c))))\<rparr>"

definition demo_probes :: probes where
  "demo_probes =
     \<lparr>pr_disk = \<lparr>mkdirAll = (\<lambda>_. True), openWrite = (\<lambda>_. True)\<rparr>, pr_remove = (\<lambda>_. True), pr_newRequest = (\<lambda>_. True),
      pr_http = (\<lambda>_ _. None), pr_json = (\<lambda>_. False), pr_tcp = (\<lambda>_. True), pr_udp = (\<lambda>_. True), pr_lookup = (\<lambda>_. True)\<rparr>"

definition demo_world :: "string list world" where
  "demo_world = \<lparr>wd_fs = Map.empty, wd_db = None, wd_os = []\<rparr>"

definition demo_cli :: "string list cli_env" where
  "demo_cli =
     \<lparr>ce_toml = demo_toml, ce_disk = pr_disk demo_probes, ce_config = '''', ce_stdin = [], ce_rnd = Some [171],
      ce_now = 0, ce_names = ascii_lib, ce_lists = offline_env, ce_net = tiny_net [], ce_host = tiny_host ''k'', ce_boot = demo_boot,
      ce_version = ''v'', ce_free = (\<lambda>_. True), ce_qr = (\<lambda>_. None), ce_probes = demo_probes, ce_after = (\<lambda>_. demo_world)\<rparr>"


section \<open>Observed limits\<close>

text \<open>\<^verbatim>\<open>supp wg disable\<close> never succeeds: its service has no manager, and the machine stays as it is.\<close>

lemma wg_disable_always_fails:
  "\<exists>err. cmdWG T ev f H enc now db os (''disable'' # rest) = Some (Some err, db, os)"
  by (simp add: cmdWG_def disable_without_kernel Let_def split: sum.split option.split)

text \<open>\<^verbatim>\<open>supp wg remove\<close> deletes the row only; the peer stays in the kernel.\<close>

lemma wg_remove_keeps_kernel:
  "wg_remove H (NewService w d dir) st os rest = (r, st', os') \<Longrightarrow> os' = os"
  by (auto simp: wg_remove_def RemovePeer_def NewService_def Let_def split: list.splits sum.splits)

text \<open>A port counts as free when only one of its two protocols is.\<close>

lemma port_free_udp_only: "pr_udp P addr \<Longrightarrow> portFree P addr"
  by (simp add: portFree_def)

text \<open>The upstream check looks up a name with brackets, or a cut address, for IPv6 upstreams.\<close>

lemma host_of_ipv6:
  "hostOf ''udp://[2001:db8::1]:53'' = ''[2001:db8::1]'' \<and> hostOf ''udp://2001:db8::1'' = ''2001:db8:''"
  by code_simp

text \<open>The check of the data directory writes and removes one file, also one that was there before.\<close>

lemma writableDir_files:
  "writableDir P dir f = (ok, f') \<Longrightarrow> (\<forall>q. q \<noteq> filepath_Join [dir, ''.probe''] \<longrightarrow> f' q = f q) \<and> (ok \<longrightarrow> f' (filepath_Join [dir, ''.probe'']) = None)"
  by (auto simp: writableDir_def Let_def split: if_splits)

text \<open>An address that makes no valid request ends \<^verbatim>\<open>status\<close> and \<^verbatim>\<open>doctor\<close> with a panic.\<close>

lemma status_panics_on_bad_address:
  assumes "Load T f (configPath ev f args) = Inr c" and "\<not> pr_newRequest P (stats_url c)"
  shows "cmdStatus T ev f P args = None \<and> cmdDoctor T ev f P args = None"
  using assms by (simp add: cmdStatus_def cmdDoctor_def serverAlive_def split: prod.split)

text \<open>The two copies of the byte counts agree.\<close>

lemma cli_humanBytes_eq: "cli_humanBytes = humanBytes"
  by (rule ext) (simp only: cli_humanBytes_def humanBytes_def)

text \<open>Which exit code means what.\<close>

lemma main_exit_codes:
  assumes "main X w args = Some (k, w')"
  shows "k = 2 \<and> w' = w \<and> (args = [] \<or> run_command X w (hd args) (tl args) = None) \<or>
    args \<noteq> [] \<and> (\<exists>res. run_command X w (hd args) (tl args) = Some (Some (res, w')) \<and> k = (if res = None then 0 else 1))"
proof (cases args)
  case (Cons cmd rest)
  with assms show ?thesis
    by (cases "run_command X w cmd rest") (auto simp: main_def split: option.splits prod.splits)
qed (use assms in \<open>simp add: main_def\<close>)

end
