(* ===== verification/Supp_System.thy ===== *)
theory Supp_System
  imports Supp_Cli
begin

text \<open>
  The running program as one transition system: requests of clients, requests to the dashboard,
  the ticks of the background loops that \<^verbatim>\<open>runServer\<close> starts (\<^verbatim>\<open>src/cmd/supp/main.go\<close>),
  and management commands that other processes run on the same database, in any order. The parts
  share one server, one store and one machine; the dashboard reads the filter and the counters
  through pointers and so sees their current state. A step runs to its end before the next one; a
  refresh, which downloads without holding the lock, takes effect when it swaps the sets in.
\<close>

section \<open>The system\<close>

record 'os system =
  sy_srv :: Server
  sy_fs :: fs
  sy_os :: 'os
  sy_lists :: bool
  sy_wg :: "Service option"
  sy_admin :: "(string \<times> string) option"
  sy_visits :: int

text \<open>The part of the environment that stays; it contains the configuration's path for commands.\<close>

record 'os sys_env =
  se_names :: name_lib
  se_mdns :: mdns_lib
  se_net :: net_env
  se_host :: "'os host"
  se_json :: json_lib
  se_png :: "string \<Rightarrow> int \<Rightarrow> bytes option"
  se_qr :: "string \<Rightarrow> bool list list option"
  se_toml :: toml_lib
  se_config :: string

definition boot_system :: "'os running \<Rightarrow> 'os system" where
  "boot_system r =
     \<lparr>sy_srv = rn_Server r, sy_fs = rn_fs r, sy_os = rn_os r, sy_lists = rn_Lists r, sy_wg = rn_WG r,
      sy_admin = map_option (\<lambda>d. (dp_Version d, dp_Token d)) (rn_Admin r), sy_visits = 0\<rparr>"

datatype sys_event =
    PlainQuery Msg time
  | HttpsRequest doh_request time
  | ListTick list_env time
  | PoolTick pool_tick
  | CleanTick time
  | StatsTick
  | AdminRequest admin_request "u8 list option" time
  | ClientCommand "string list" "u8 list option" time
  | WgCommand "string list" time

definition set_store :: "Store \<Rightarrow> 'os system \<Rightarrow> 'os system" where
  "set_store st s = s\<lparr>sy_srv := (sy_srv s)\<lparr>srv_store := st\<rparr>\<rparr>"

abbreviation sy_store :: "'os system \<Rightarrow> Store" where
  "sy_store s \<equiv> srv_store (sy_srv s)"

definition sy_deps :: "'os system \<Rightarrow> string \<Rightarrow> string \<Rightarrow> Deps" where
  "sy_deps s version tok =
     \<lparr>dp_Filter = Some (srv_filter (sy_srv s)), dp_Live = srv_Live (sy_srv s), dp_WG = sy_wg s,
      dp_Version = version, dp_Token = tok\<rparr>"

text \<open>One step; \<open>None\<close> is a panic or a handler that does not return.\<close>

fun sys_exec :: "'os sys_env \<Rightarrow> sys_event \<Rightarrow> 'os system \<Rightarrow> 'os system option" where
  "sys_exec X (PlainQuery m t) s =
     map_option (\<lambda>(_, srv, _). s\<lparr>sy_srv := srv\<rparr>) (ServeDNS (se_names X) (se_mdns X) (se_net X) (sy_srv s) m t)"
| "sys_exec X (HttpsRequest req t) s =
     map_option (\<lambda>(_, srv, _). s\<lparr>sy_srv := srv\<rparr>) (https_serve (se_names X) (se_mdns X) (se_net X) (sy_srv s) req t)"
| "sys_exec X (ListTick env t) s =
     (if \<not> sy_lists s then Some s
      else case fst (engine_Loop (se_names X) (srv_filter (sy_srv s), sy_fs s) [Tick (t, env)]) of
        (e, f) \<Rightarrow> Some (s\<lparr>sy_srv := (sy_srv s)\<lparr>srv_filter := e\<rparr>, sy_fs := f\<rparr>))"
| "sys_exec X (PoolTick k) s =
     Some (s\<lparr>sy_srv := (sy_srv s)\<lparr>srv_pool := fst (pool_Start (se_mdns X) (se_net X) (srv_pool (sy_srv s)) [Tick k])\<rparr>\<rparr>)"
| "sys_exec X (CleanTick t) s = Some (set_store (fst (store_Loop (sy_store s) [Tick t])) s)"
| "sys_exec X StatsTick s =
     (case sy_wg s of
        None \<Rightarrow> Some s
      | Some w \<Rightarrow> Some (set_store (fst (svc_Loop (se_host X) w (sy_store s) [Tick (sy_os s)])) s))"
| "sys_exec X (AdminRequest r rnd t) s =
     (case sy_admin s of
        None \<Rightarrow> Some s
      | Some (version, tok) \<Rightarrow>
          map_option (\<lambda>(_, a). (set_store (as_Store a) s)\<lparr>sy_os := as_os a, sy_visits := as_visits a\<rparr>)
            (auth (se_host X) (se_json X) (se_png X) (sy_deps s version tok) rnd t
              \<lparr>as_Store = sy_store s, as_os = sy_os s, as_visits = sy_visits s\<rparr> r))"
| "sys_exec X (ClientCommand args rnd t) s =
     (case cmdClient (se_toml X) (se_config X) (sy_fs s) rnd t (Some (sy_store s)) args of
        (_, None) \<Rightarrow> Some s
      | (_, Some st) \<Rightarrow> Some (set_store st s))"
| "sys_exec X (WgCommand args t) s =
     (case cmdWG (se_toml X) (se_config X) (sy_fs s) (se_host X) (se_qr X) t (Some (sy_store s)) (sy_os s) args of
        None \<Rightarrow> None
      | Some (_, None, os) \<Rightarrow> Some (s\<lparr>sy_os := os\<rparr>)
      | Some (_, Some st, os) \<Rightarrow> Some ((set_store st s)\<lparr>sy_os := os\<rparr>))"

text \<open>Runs of any partial step function, by the events that happened.\<close>

inductive runs :: "('e \<Rightarrow> 's \<Rightarrow> 's option) \<Rightarrow> 's \<Rightarrow> 'e list \<Rightarrow> 's \<Rightarrow> bool" for exec where
  runs_start: "runs exec s [] s"
| runs_step: "runs exec s evs s1 \<Longrightarrow> exec ev s1 = Some s2 \<Longrightarrow> runs exec s (evs @ [ev]) s2"

abbreviation sys_run :: "'os sys_env \<Rightarrow> 'os system \<Rightarrow> sys_event list \<Rightarrow> 'os system \<Rightarrow> bool" where
  "sys_run X \<equiv> runs (sys_exec X)"

text \<open>
  The contract of an invariant: each permitted event keeps it and relates the state before to the
  state after. Whole runs then do the same.
\<close>

locale kept_by_steps =
  fixes exec :: "'e \<Rightarrow> 's \<Rightarrow> 's option" and permitted :: "'e \<Rightarrow> bool" and inv :: "'s \<Rightarrow> bool" and same :: "'s \<Rightarrow> 's \<Rightarrow> bool"
  assumes same_refl: "same s s"
    and same_trans: "same s s1 \<Longrightarrow> same s1 s2 \<Longrightarrow> same s s2"
    and step_keeps: "inv s \<Longrightarrow> permitted ev \<Longrightarrow> exec ev s = Some s' \<Longrightarrow> inv s' \<and> same s s'"
begin

lemma run_keeps:
  assumes "runs exec s evs s'" and "inv s" and "\<forall>ev \<in> set evs. permitted ev"
  shows "inv s' \<and> same s s'"
  using assms
proof (induction rule: runs.induct)
  case (runs_step s evs s1 ev s2)
  then show ?case using step_keeps [of s1 ev s2] same_trans by auto
qed (simp add: same_refl)

end

text \<open>The same, where moreover no permitted event fails: every sequence of events runs to its end.\<close>

locale live_steps = kept_by_steps +
  assumes step_returns: "inv s \<Longrightarrow> permitted ev \<Longrightarrow> exec ev s \<noteq> None"
begin

lemma runs_to_end:
  assumes "inv s" and "\<forall>ev \<in> set evs. permitted ev"
  shows "\<exists>s'. runs exec s evs s'"
  using assms(2)
proof (induction evs rule: rev_induct)
  case Nil
  show ?case by (rule exI, rule runs_start)
next
  case (snoc ev evs)
  then obtain s1 where s1: "runs exec s evs s1" by auto
  then have "exec ev s1 \<noteq> None" using run_keeps [OF s1 assms(1)] step_returns [of s1 ev] snoc.prems by simp
  then show ?case using runs_step [OF s1] by blast
qed

end

section \<open>What requests keep\<close>

text \<open>The engine without its hit counters, which are all that a check changes.\<close>

definition eng_sets :: "Engine \<Rightarrow> Engine" where
  "eng_sets e = e\<lparr>hitsBlock := 0, hitsAllow := 0, hitsPass := 0\<rparr>"

lemma eng_sets_Check [simp]: "eng_sets (snd (Check L e d)) = eng_sets e"
  by (simp add: eng_sets_def Check_def)

lemma eng_sets_sel:
  "eng_sets e' = eng_sets e \<Longrightarrow> eng_blocked e' = eng_blocked e \<and> eng_allowed e' = eng_allowed e \<and> eng_deny e' = eng_deny e \<and>
     eng_allow e' = eng_allow e \<and> respA4 e' = respA4 e \<and> respA6 e' = respA6 e \<and> refreshEvery e' = refreshEvery e"
  unfolding eng_sets_def by (cases e; cases e') simp

lemma eng_sets_scan: "eng_sets (snd (uncloak_scan L e seen rrs)) = eng_sets e"
proof (induction rrs arbitrary: e seen)
  case (Cons rr rrs)
  obtain b e1 where "Check L e (rr_target L rr) = (b, e1)" by (cases "Check L e (rr_target L rr)")
  moreover from this have "eng_sets e1 = eng_sets e" using eng_sets_Check [of L e "rr_target L rr"] by simp
  ultimately show ?case using Cons.IH by (auto simp: Let_def split: bool.split)
qed simp

lemma eng_sets_uncloak: "uncloak L e qname m = (m', e') \<Longrightarrow> eng_sets e' = eng_sets e"
  using eng_sets_scan [of L e "[qname]" "msg_Answer m"]
  by (auto simp: uncloak_def split: if_splits prod.splits option.splits)

text \<open>The filter but for its hits, the configuration and the store stay, and so do sound pool counters.\<close>

definition srv_frame :: "Server \<Rightarrow> Server \<Rightarrow> bool" where
  "srv_frame s s' \<longleftrightarrow> eng_sets (srv_filter s') = eng_sets (srv_filter s) \<and> srv_cfg s' = srv_cfg s \<and>
     (counters (srv_pool s) \<longrightarrow> counters (srv_pool s'))"

lemma srv_frame_refl [simp]: "srv_frame s s"
  by (simp add: srv_frame_def)

lemma srv_frame_trans: "srv_frame s s1 \<Longrightarrow> srv_frame s1 s2 \<Longrightarrow> srv_frame s s2"
  by (simp add: srv_frame_def)

lemma srv_frame_upd [simp]:
  "srv_frame s (u\<lparr>srv_cache := c\<rparr>) = srv_frame s u" "srv_frame (u\<lparr>srv_cache := c\<rparr>) s = srv_frame u s"
  "srv_frame s (u\<lparr>srv_Live := v\<rparr>) = srv_frame s u" "srv_frame s (u\<lparr>srv_store := st\<rparr>) = srv_frame s u"
  "srv_frame (u\<lparr>srv_store := st\<rparr>) s = srv_frame u s"
  by (simp_all add: srv_frame_def)

lemma resolve_frame:
  assumes "resolve L D E s r qname t = Some (x, s', t')"
  shows "srv_frame s s' \<and> srv_store s' = srv_store s"
proof -
  obtain y pool t1 where pq: "pool_Query D E (srv_pool s) (upstream_request L r qname) t = (y, pool, t1)"
    by (cases "pool_Query D E (srv_pool s) (upstream_request L r qname) t") auto
  have p: "counters (srv_pool s) \<longrightarrow> counters pool" using Query_counters [OF pq] by blast
  show ?thesis
    using assms pq p eng_sets_uncloak
    by (auto simp: resolve_def srv_frame_def Let_def split: sum.splits option.splits prod.splits if_splits)
qed

lemma handle_frame:
  assumes "handle L D E s r t = Some (x, s', t')"
  shows "srv_frame s s' \<and> srv_store s' = srv_store s"
proof (cases "msg_Question r")
  case (Cons q qs)
  obtain b e where ck: "Check L (srv_filter s) (query_name L q) = (b, e)" by fastforce
  have e: "srv_frame s (s\<lparr>srv_filter := e\<rparr>)"
    using ck eng_sets_Check [of L "srv_filter s" "query_name L q"] by (simp add: srv_frame_def)
  show ?thesis
  proof (cases b)
    case True
    with assms Cons ck e show ?thesis by (auto simp: handle_def split: option.splits)
  next
    case False
    have res: "srv_frame s u \<and> srv_store u = srv_store s"
      if "resolve L D E (s\<lparr>srv_filter := e, srv_cache := c\<rparr>) r (query_name L q) t = Some (y, u, t1)" for c y u t1
    proof -
      have "srv_frame s (s\<lparr>srv_filter := e, srv_cache := c\<rparr>)" using e by simp
      then show ?thesis using resolve_frame [OF that] by (auto intro: srv_frame_trans)
    qed
    from assms Cons ck False e res show ?thesis
      by (auto simp: handle_def Let_def split: option.splits prod.splits sum.splits bool.splits)
  qed
qed (use assms in \<open>simp add: handle_def\<close>)

lemma observe_sys: "srv_frame s (observe L D u n i r b c t) = srv_frame s u"
  "\<exists>qn qt. srv_store (observe L D u n i r b c t) = RecordQuery t (srv_store u) i qn qt b 0"
  by (auto simp: observe_def srv_frame_def Let_def split: list.splits)

text \<open>The store after a request: a device seen, a query recorded, both, or neither.\<close>

inductive store_served :: "Store \<Rightarrow> Store \<Rightarrow> bool" for st where
  unserved: "store_served st st"
| touched: "store_served st st1 \<Longrightarrow> store_served st (snd (TouchClient now st1 i tok))"
| counted: "store_served st st1 \<Longrightarrow> store_served st (RecordQuery now st1 i qn qt b rc)"

lemma ServeDNS_sys:
  assumes "ServeDNS L D E s r t = Some (m, s', t')"
  shows "srv_frame s s' \<and> store_served (srv_store s) (srv_store s')"
proof -
  obtain x s1 n i b c where h: "handle L D E s r t = Some (x, s1, t')" and s': "s' = observe L D s1 n i r b c t'"
    using assms by (auto simp: ServeDNS_def split: option.splits prod.splits)
  then show ?thesis
    using handle_frame [OF h] observe_sys(1) [of s L D s1 n i r b c t'] observe_sys(2) [of L D s1 n i r b c t'] counted [OF unserved] by auto
qed

lemma doh_identity_sys:
  assumes "doh_identity t s path = Inr (i, n, s1)"
  shows "srv_frame s s1 \<and> store_served (srv_store s) (srv_store s1)"
  using assms touched [OF unserved] unserved
  by (auto simp: doh_identity_def Let_def split: if_splits sum.splits)

lemma handleDoH_sys:
  assumes "handleDoH L D E s req t = Some (resp, s', t')"
  shows "srv_frame s s' \<and> store_served (srv_store s) (srv_store s')"
proof (cases "doh_identity t s (dq_Path req)")
  case (Inl e)
  then show ?thesis using assms unserved by (auto simp: handleDoH_def)
next
  case (Inr ins)
  obtain i n s1 where ins: "doh_identity t s (dq_Path req) = Inr (i, n, s1)" using Inr by (cases ins) auto
  note id1 = doh_identity_sys [OF ins]
  consider "s' = s1" | x s2 t2 b c q where "handle L D E s1 q t = Some (x, s2, t2)"
      "s' = s2 \<or> s' = observe L D s2 n i q b c t2"
    using assms ins by (auto simp: handleDoH_def split: sum.splits option.splits prod.splits) blast+
  then show ?thesis
  proof cases
    case 2
    have s2: "srv_frame s s2" "srv_store s2 = srv_store s1"
      using handle_frame [OF 2(1)] id1 by (auto intro: srv_frame_trans)
    with 2(2) id1 observe_sys(1) [of s L D s2 n i q b c t2] observe_sys(2) [of L D s2 n i q b c t2] counted show ?thesis by auto
  qed (use id1 in simp)
qed

lemma https_serve_sys:
  assumes "https_serve L D E s req t = Some (resp, s', t')"
  shows "srv_frame s s' \<and> store_served (srv_store s) (srv_store s')"
  using assms handleDoH_sys unserved by (auto simp: https_serve_def Let_def split: if_splits)

section \<open>Devices and peers\<close>

text \<open>What identifies a device or a peer and decides whether it is let in.\<close>

definition devices :: "Store \<Rightarrow> (int \<times> string \<times> string \<times> int) list" where
  "devices st = map (\<lambda>r. (crow_id r, crow_name r, crow_token r, crow_active r)) (st_clients st)"

definition peers :: "Store \<Rightarrow> (int \<times> string \<times> string \<times> string \<times> string \<times> int \<times> int \<times> int) list" where
  "peers st =
     map (\<lambda>r. (prow_id r, prow_name r, prow_pub r, prow_priv r, prow_ip r, prow_active r, prow_full r, prow_client r)) (st_peers st)"

definition same_identities :: "Store \<Rightarrow> Store \<Rightarrow> bool" where
  "same_identities st st' \<longleftrightarrow> devices st' = devices st \<and> peers st' = peers st"

lemma same_identities_refl [simp]: "same_identities st st"
  by (simp add: same_identities_def)

lemma same_identities_trans: "same_identities st st1 \<Longrightarrow> same_identities st1 st2 \<Longrightarrow> same_identities st st2"
  by (simp add: same_identities_def)

lemma touch_identities: "st_peers (snd (TouchClient now st i tok)) = st_peers st" "devices (snd (TouchClient now st i tok)) = devices st"
  by (auto simp: TouchClient_def devices_def split: option.split)

lemma record_identities:
  "st_peers (RecordQuery now st i qn qt b rc) = st_peers st" "devices (RecordQuery now st i qn qt b rc) = devices st"
  by (simp_all add: RecordQuery_def devices_def Let_def)

lemma clean_identities: "st_peers (Cleanup now st) = st_peers st" "devices (Cleanup now st) = devices st"
  by (simp_all add: Cleanup_def devices_def Let_def)

lemma stats_identities: "same_identities st (snd (UpdateWgPeerStats st i rx tx h))"
  by (auto simp: same_identities_def UpdateWgPeerStats_def devices_def peers_def)

lemma refresh_identities: "same_identities st (RefreshStats H w st os)"
proof -
  have "same_identities st (refresh_peer H m os p st)" for m p st
    using stats_identities by (auto simp: refresh_peer_def split: sum.split)
  then have "same_identities st (fold (refresh_peer H m os) ps st)" for m ps st
    by (induction ps arbitrary: st) (auto simp: same_identities_def)
  then show ?thesis by (simp add: RefreshStats_def split: option.split)
qed

lemma served_store:
  assumes "store_served st st'"
  shows "st_peers st' = st_peers st \<and> devices st' = devices st \<and> (wf_store st \<longrightarrow> wf_store st')"
  using assms
proof (induction rule: store_served.induct)
  case (touched st1 now i tok)
  then show ?case using touch_identities wf_TouchClient [OF _ prod.collapse [symmetric]] by metis
next
  case (counted st1 now i qn qt b rc)
  then show ?case using record_identities wf_RecordQuery by metis
qed simp

section \<open>The peer rows stay sound\<close>

lemma vpn_ok_other: "vpn_ok H st \<Longrightarrow> wf_store st' \<Longrightarrow> st_peers st' = st_peers st \<Longrightarrow> vpn_ok H st'"
  using vpn_ok_cong [of st' st H] unfolding peer_keys by simp

lemma vpn_ok_served: "vpn_ok H st \<Longrightarrow> store_served st st' \<Longrightarrow> vpn_ok H st'"
  using served_store vpn_ok_other by (metis vpn_ok_def)

lemma vpn_ok_refresh: "vpn_ok H st \<Longrightarrow> vpn_ok H (RefreshStats H w st os)"
  using refresh_all_keys [of st H _ os "ListWgPeers st"] vpn_ok_cong [of "RefreshStats H w st os" st H]
  unfolding peer_keys by (auto simp: RefreshStats_def vpn_ok_def split: option.splits)

lemma vpn_ok_ops:
  assumes "vpn_ok H st"
  shows "RemovePeer H w st os i = (r, st', os') \<Longrightarrow> vpn_ok H st'"
    and "SetPeerActive H w st os i a = (r, st', os') \<Longrightarrow> vpn_ok H st'"
    and "CreateClient rnd now st name = (rc, st') \<Longrightarrow> vpn_ok H st'"
    and "vpn_ok H (DeleteClient st i)" "vpn_ok H (Cleanup now st)"
proof -
  have wf: "wf_store st" using assms by (simp add: vpn_ok_def)
  show "RemovePeer H w st os i = (r, st', os') \<Longrightarrow> vpn_ok H st'"
    using assms by (auto simp: vpn_ok_def db.del_law dest!: vpn_store_cases(1))
  show "SetPeerActive H w st os i a = (r, st', os') \<Longrightarrow> vpn_ok H st'"
    using assms by (auto simp: vpn_ok_def db.set_active_law dest!: vpn_store_cases(2))
  have "st_peers st' = st_peers st" if "CreateClient rnd now st name = (rc, st')"
    using that by (auto simp: CreateClient_def Let_def split: sum.splits if_splits)
  then show "CreateClient rnd now st name = (rc, st') \<Longrightarrow> vpn_ok H st'"
    using vpn_ok_other [OF assms wf_CreateClient [OF wf]] by blast
  show "vpn_ok H (DeleteClient st i)"
    by (rule vpn_ok_other [OF assms wf_DeleteClient [OF wf]]) (simp add: DeleteClient_def)
  show "vpn_ok H (Cleanup now st)"
    by (rule vpn_ok_other [OF assms wf_Cleanup [OF wf]]) (simp add: clean_identities)
qed

lemma vpn_ok_auth:
  assumes doc: "wgctrl_documented H" and ok: "vpn_ok H (as_Store a)" and au: "auth H J enc d rnd now a r = Some (resp, a')"
  shows "vpn_ok H (as_Store a')"
proof -
  note add = vpn_ok_AddPeer [OF doc ok]
  have "vpn_ok H (as_Store a')" if "run_route H J enc d rnd now a r h = Some (resp, a')" for h
    using that ok vpn_ok_ops [OF ok] add
    by (cases h)
      (auto simp: run_route_def pageOverview_def apiWGPeerCreate_def apiWGPeerDelete_def apiWGPeerToggle_def apiWGPeerConf_def
        apiWGPeerQR_def apiClientCreate_def apiClientDelete_def Let_def
        split: option.splits sum.splits prod.splits if_splits)
  with assms show ?thesis
    by (auto simp: auth_def admin_mux_def Let_def split: if_splits sum.splits)
qed

lemma vpn_ok_client:
  assumes "vpn_ok H st" and "cmdClient T ev f rnd now (Some st) args = (r, Some st')"
  shows "vpn_ok H st'"
  using assms(2) vpn_ok_ops(3,4) [OF assms(1)] assms(1)
  by (auto simp: cmdClient_def split: list.splits sum.splits if_splits prod.splits)

lemma vpn_ok_wg:
  assumes doc: "wgctrl_documented H" and ok: "vpn_ok H st"
    and run: "cmdWG T ev f H enc now (Some st) os args = Some (r, Some st', os')"
  shows "vpn_ok H st'"
proof -
  have add: "vpn_ok H st1" if "wg_add H now c svc st os rest = Some (x, st1, os1)" for c svc rest x st1 os1
    using that ok vpn_ok_AddPeer [OF doc ok]
    by (auto simp: wg_add_def Let_def split: list.splits option.splits sum.splits prod.splits)
  have qr: "vpn_ok H st1" if "wg_qr H enc svc st os rest = Some (x, st1, os1)" for svc rest x st1 os1
    using that ok by (auto simp: wg_qr_def split: list.splits sum.splits prod.splits option.splits)
  have rm: "vpn_ok H st1" if "wg_remove H svc st os rest = (x, st1, os1)" for svc rest x st1 os1
    using that ok vpn_ok_ops(1) [OF ok] by (auto simp: wg_remove_def split: list.splits sum.splits prod.splits)
  show ?thesis
    using run ok add qr rm by (auto simp: cmdWG_def Let_def split: list.splits sum.splits if_splits prod.splits)
qed

section \<open>The invariant of the system\<close>

text \<open>The entries of the inline lists are in the sets of the engine.\<close>

definition inline_ok :: "name_lib \<Rightarrow> Engine \<Rightarrow> bool" where
  "inline_ok L e \<longleftrightarrow>
     (\<forall>b \<in> set (eng_deny e). \<forall>d. covers L b d \<longrightarrow> Has L (eng_blocked e) d) \<and>
     (\<forall>b \<in> set (eng_allow e). \<forall>d. covers L b d \<longrightarrow> Has L (eng_allowed e) d)"

text \<open>What the configuration has fixed in the filter: the inline lists and the answer addresses.\<close>

definition same_inline :: "Engine \<Rightarrow> Engine \<Rightarrow> bool" where
  "same_inline e e' \<longleftrightarrow> eng_deny e' = eng_deny e \<and> eng_allow e' = eng_allow e \<and> respA4 e' = respA4 e \<and> respA6 e' = respA6 e"

lemma eng_sets_inline: "eng_sets e' = eng_sets e \<Longrightarrow> same_inline e e' \<and> inline_ok L e' = inline_ok L e \<and> Verdict L e' = Verdict L e"
  using eng_sets_sel [of e' e] by (simp add: same_inline_def inline_ok_def Verdict_def fun_eq_iff)

lemma Refresh_inline:
  assumes "inline_ok L e"
  shows "same_inline e (refreshed L env now e f) \<and> inline_ok L (refreshed L env now e f)"
proof (cases "time_Sub now (lastTry e) < 5 * Second")
  case True
  then have "refreshed L env now e f = e" by (simp add: Refresh_def)
  with assms show ?thesis by (simp add: same_inline_def)
next
  case False
  note R = Refresh_sets [OF False refl refl, of L env f]
  show ?thesis
    unfolding same_inline_def inline_ok_def R has_add_all by auto
qed

definition dns_ok :: "'os sys_env \<Rightarrow> 'os system \<Rightarrow> bool" where
  "dns_ok X s \<longleftrightarrow>
     counters (srv_pool (sy_srv s)) \<and>
     srv_ok (se_names X) (se_mdns X) (\<lambda>_. False) (sy_srv s) \<and>
     inline_ok (se_names X) (srv_filter (sy_srv s))"

definition sys_ok :: "'os sys_env \<Rightarrow> 'os system \<Rightarrow> bool" where
  "sys_ok X s \<longleftrightarrow> dns_ok X s \<and> vpn_ok (se_host X) (sy_store s)"

text \<open>What no step changes.\<close>

definition sys_same :: "'os system \<Rightarrow> 'os system \<Rightarrow> bool" where
  "sys_same s s' \<longleftrightarrow> same_inline (srv_filter (sy_srv s)) (srv_filter (sy_srv s')) \<and>
     srv_cfg (sy_srv s') = srv_cfg (sy_srv s) \<and> sy_wg s' = sy_wg s \<and> sy_admin s' = sy_admin s"

lemma sys_same_refl [simp]: "sys_same s s"
  by (simp add: sys_same_def same_inline_def)

lemma sys_same_trans: "sys_same s s1 \<Longrightarrow> sys_same s1 s2 \<Longrightarrow> sys_same s s2"
  by (simp add: sys_same_def same_inline_def)

lemma set_store_sel [simp]:
  "sy_store (set_store st s) = st" "srv_filter (sy_srv (set_store st s)) = srv_filter (sy_srv s)"
  "srv_pool (sy_srv (set_store st s)) = srv_pool (sy_srv s)" "srv_cache (sy_srv (set_store st s)) = srv_cache (sy_srv s)"
  "srv_cfg (sy_srv (set_store st s)) = srv_cfg (sy_srv s)" "sy_wg (set_store st s) = sy_wg s" "sy_admin (set_store st s) = sy_admin s"
  "sy_os (set_store st s) = sy_os s" "sy_fs (set_store st s) = sy_fs s" "sy_visits (set_store st s) = sy_visits s"
  by (simp_all add: set_store_def)

lemma srv_ok_cong:
  "srv_cache u = srv_cache s \<Longrightarrow> srv_filter u = srv_filter s \<Longrightarrow> srv_ok L D V u = srv_ok L D V s"
  by (simp add: srv_ok_def)

text \<open>A request to the server: the invariant follows from what the pipeline keeps.\<close>

lemma dns_ok_request:
  assumes "dns_ok X s" and "srv_frame (sy_srv s) srv" and "srv_ok (se_names X) (se_mdns X) (\<lambda>_. False) srv"
  shows "dns_ok X (s\<lparr>sy_srv := srv\<rparr>) \<and> sys_same s (s\<lparr>sy_srv := srv\<rparr>)"
  using assms eng_sets_inline [of "srv_filter srv" "srv_filter (sy_srv s)"]
  by (auto simp: dns_ok_def sys_same_def srv_frame_def)

text \<open>A change of the store or of the machine only.\<close>

lemma dns_ok_store: "dns_ok X (set_store st s) = dns_ok X s" "sys_same t (set_store st s) = sys_same t s"
  using srv_ok_cong [of "sy_srv (set_store st s)" "sy_srv s"]
  by (auto simp: dns_ok_def sys_same_def same_inline_def)

lemma dns_ok_os: "dns_ok X (s\<lparr>sy_os := os, sy_visits := v\<rparr>) = dns_ok X s" "dns_ok X (s\<lparr>sy_os := os\<rparr>) = dns_ok X s"
  "sys_same t (s\<lparr>sy_os := os, sy_visits := v\<rparr>) = sys_same t s" "sys_same t (s\<lparr>sy_os := os\<rparr>) = sys_same t s"
  by (simp_all add: dns_ok_def sys_same_def)

lemma pool_counters_tick: "counters p \<Longrightarrow> counters (pool_body D E k p)"
proof (cases k)
  case (ProbeTick t)
  assume "counters p"
  then show ?thesis
    using ProbeTick probeAll_fold [of p "[0 ..< length (pl_upstreams p)]" D E t] by (simp add: probeAll_def)
next
  case (RefreshTick t)
  assume "counters p"
  then show ?thesis
    using RefreshTick refresh_counters [of p D E "[0 ..< length (pl_upstreams p)]" t] by (simp add: refreshAddrs_def)
qed

lemma https_serve_ok:
  "srv_ok L D V s \<Longrightarrow> https_serve L D E s req t = Some (resp, s', t') \<Longrightarrow> srv_ok L D V s'"
  using handleDoH_ok by (auto simp: https_serve_def Let_def split: if_splits)

lemma engine_Loop_tick:
  "fst (engine_Loop L (e, f) [Tick (t, env)]) = (if refreshEvery e \<le> 0 then (e, f) else snd (Refresh L env t e f))"
  by (simp add: engine_Loop_def engine_tick_def)

lemma dns_ok_lists:
  assumes "dns_ok X s" and "fst (engine_Loop (se_names X) (srv_filter (sy_srv s), sy_fs s) [Tick (t, env)]) = (e, f)"
  defines "s' \<equiv> s\<lparr>sy_srv := (sy_srv s)\<lparr>srv_filter := e\<rparr>, sy_fs := f\<rparr>"
  shows "dns_ok X s' \<and> sys_same s s'"
proof -
  have "e = srv_filter (sy_srv s) \<or> (\<exists>g. e = refreshed (se_names X) env t (srv_filter (sy_srv s)) g)"
    using assms(2) by (auto simp: engine_Loop_tick split: if_splits) (metis snd_conv fst_conv)
  then have "same_inline (srv_filter (sy_srv s)) e \<and> inline_ok (se_names X) e"
    using assms(1) Refresh_inline by (auto simp: dns_ok_def same_inline_def)
  with assms(1) show ?thesis by (simp add: s'_def dns_ok_def sys_same_def srv_ok_def)
qed

text \<open>The two request steps with their results, and the dashboard's.\<close>

lemma sys_exec_request:
  assumes "sys_exec X ev s = Some s'" and "ev = PlainQuery m t \<or> ev = HttpsRequest req t"
  obtains srv where "s' = s\<lparr>sy_srv := srv\<rparr>" and "srv_frame (sy_srv s) srv" and "store_served (sy_store s) (srv_store srv)"
    and "\<And>V. srv_ok (se_names X) (se_mdns X) V (sy_srv s) \<Longrightarrow> srv_ok (se_names X) (se_mdns X) V srv"
  using assms(2)
proof
  assume "ev = PlainQuery m t"
  with assms(1) obtain a srv b where sv: "ServeDNS (se_names X) (se_mdns X) (se_net X) (sy_srv s) m t = Some (a, srv, b)"
    and "s' = s\<lparr>sy_srv := srv\<rparr>" by auto
  then show ?thesis using that ServeDNS_sys [OF sv] ServeDNS_ok [OF _ sv] by blast
next
  assume "ev = HttpsRequest req t"
  with assms(1) obtain a srv b where sv: "https_serve (se_names X) (se_mdns X) (se_net X) (sy_srv s) req t = Some (a, srv, b)"
    and "s' = s\<lparr>sy_srv := srv\<rparr>" by auto
  then show ?thesis using that https_serve_sys [OF sv] https_serve_ok [OF _ sv] by blast
qed

lemma sys_exec_admin:
  assumes "sys_exec X (AdminRequest r rnd t) s = Some s'" and "sy_admin s = Some (version, tok)"
  obtains resp a where "auth (se_host X) (se_json X) (se_png X) (sy_deps s version tok) rnd t
        \<lparr>as_Store = sy_store s, as_os = sy_os s, as_visits = sy_visits s\<rparr> r = Some (resp, a)"
    and "s' = (set_store (as_Store a) s)\<lparr>sy_os := as_os a, sy_visits := as_visits a\<rparr>"
  using assms by auto

lemma sys_exec_dns:
  assumes ok: "dns_ok X s" and ex: "sys_exec X ev s = Some s'"
  shows "dns_ok X s' \<and> sys_same s s'"
proof (cases ev)
  case (PlainQuery m t)
  show ?thesis by (rule sys_exec_request [OF ex disjI1 [OF PlainQuery]]) (use ok dns_ok_request [OF ok] in \<open>simp add: dns_ok_def\<close>)
next
  case (HttpsRequest req t)
  show ?thesis by (rule sys_exec_request [OF ex disjI2 [OF HttpsRequest]]) (use ok dns_ok_request [OF ok] in \<open>simp add: dns_ok_def\<close>)
next
  case (ListTick env t)
  then show ?thesis using ex ok dns_ok_lists [OF ok] by (auto split: prod.splits if_splits)
next
  case (PoolTick k)
  then show ?thesis
    using ex ok pool_counters_tick by (auto simp: pool_Start_def dns_ok_def sys_same_def same_inline_def srv_ok_def)
qed (use ex ok in \<open>auto simp: dns_ok_store dns_ok_os split: option.splits prod.splits\<close>)

lemma sys_exec_vpn:
  assumes doc: "wgctrl_documented (se_host X)" and v: "vpn_ok (se_host X) (sy_store s)" and ex: "sys_exec X ev s = Some s'"
  shows "vpn_ok (se_host X) (sy_store s')"
proof (cases ev)
  case (PlainQuery m t)
  show ?thesis by (rule sys_exec_request [OF ex disjI1 [OF PlainQuery]]) (simp add: vpn_ok_served [OF v])
next
  case (HttpsRequest req t)
  show ?thesis by (rule sys_exec_request [OF ex disjI2 [OF HttpsRequest]]) (simp add: vpn_ok_served [OF v])
next
  case (AdminRequest r rnd t)
  show ?thesis
  proof (cases "sy_admin s")
    case (Some vt)
    then have "sy_admin s = Some (fst vt, snd vt)" by simp
    from sys_exec_admin [OF ex [unfolded AdminRequest] this] obtain resp a where
      au: "auth (se_host X) (se_json X) (se_png X) (sy_deps s (fst vt) (snd vt)) rnd t
        \<lparr>as_Store = sy_store s, as_os = sy_os s, as_visits = sy_visits s\<rparr> r = Some (resp, a)"
      and "s' = (set_store (as_Store a) s)\<lparr>sy_os := as_os a, sy_visits := as_visits a\<rparr>" .
    moreover have "vpn_ok (se_host X) (as_Store a)" using v by (intro vpn_ok_auth [OF doc _ au]) simp
    ultimately show ?thesis by simp
  qed (use AdminRequest ex v in simp)
next
  case (CleanTick t)
  then show ?thesis using vpn_ok_ops(5) [OF v] ex by (auto simp: store_Loop_def)
next
  case (ClientCommand args rnd t)
  then show ?thesis using v ex vpn_ok_client [OF v] by (auto split: prod.splits option.splits)
next
  case (WgCommand args t)
  then show ?thesis using v ex vpn_ok_wg [OF doc v] by (auto split: prod.splits option.splits)
qed (use ex v vpn_ok_refresh [OF v] in \<open>auto simp: svc_Loop_def split: option.splits prod.splits if_splits\<close>)

interpretation dns: kept_by_steps "sys_exec X" "\<lambda>_. True" "dns_ok X" sys_same for X
  by unfold_locales (simp, blast intro: sys_same_trans, blast dest: sys_exec_dns)

interpretation vpn: kept_by_steps "sys_exec X" "\<lambda>_. True"
  "\<lambda>s. wgctrl_documented (se_host X) \<and> vpn_ok (se_host X) (sy_store s)" "\<lambda>_ _. True" for X
  by unfold_locales (auto dest: sys_exec_vpn)

section \<open>Strangers\<close>

text \<open>
  The events that someone without the dashboard's token and without a shell on the machine can
  cause, and the ticks.
\<close>

fun outsider :: "string \<Rightarrow> sys_event \<Rightarrow> bool" where
  "outsider tok (AdminRequest r rnd t) = (\<not> (tok \<noteq> '''' \<and> presented r = tok))"
| "outsider tok (ClientCommand args rnd t) = False"
| "outsider tok (WgCommand args t) = False"
| "outsider tok _ = True"

definition guarded_by :: "string \<Rightarrow> 'os system \<Rightarrow> bool" where
  "guarded_by tok s \<longleftrightarrow> (\<forall>version tok'. sy_admin s = Some (version, tok') \<longrightarrow> tok' = tok)"

definition unmanaged :: "'os system \<Rightarrow> 'os system \<Rightarrow> bool" where
  "unmanaged s s' \<longleftrightarrow> same_identities (sy_store s) (sy_store s') \<and> sy_os s' = sy_os s \<and> sy_visits s' = sy_visits s"

lemma auth_stranger:
  "\<not> (dp_Token d \<noteq> '''' \<and> presented r = dp_Token d) \<Longrightarrow> auth H J enc d rnd t a r = Some (LoginPage, a)"
  by (auto simp: auth_def ConstantTimeCompare_eq)

lemma sys_exec_outsider:
  assumes g: "guarded_by tok s" and out: "outsider tok ev" and ex: "sys_exec X ev s = Some s'"
  shows "guarded_by tok s' \<and> unmanaged s s'"
proof (cases ev)
  case (PlainQuery m t)
  show ?thesis
    by (rule sys_exec_request [OF ex disjI1 [OF PlainQuery]])
      (use g in \<open>simp add: guarded_by_def unmanaged_def same_identities_def peers_def served_store\<close>)
next
  case (HttpsRequest req t)
  show ?thesis
    by (rule sys_exec_request [OF ex disjI2 [OF HttpsRequest]])
      (use g in \<open>simp add: guarded_by_def unmanaged_def same_identities_def peers_def served_store\<close>)
next
  case (AdminRequest r rnd t)
  show ?thesis
  proof (cases "sy_admin s")
    case (Some vt)
    then obtain version where "sy_admin s = Some (version, tok)" using Some g by (cases vt) (auto simp: guarded_by_def)
    from sys_exec_admin [OF ex [unfolded AdminRequest] this] obtain resp a where
      au: "auth (se_host X) (se_json X) (se_png X) (sy_deps s version tok) rnd t
        \<lparr>as_Store = sy_store s, as_os = sy_os s, as_visits = sy_visits s\<rparr> r = Some (resp, a)"
      and s': "s' = (set_store (as_Store a) s)\<lparr>sy_os := as_os a, sy_visits := as_visits a\<rparr>" .
    have "a = \<lparr>as_Store = sy_store s, as_os = sy_os s, as_visits = sy_visits s\<rparr>"
      using au out AdminRequest by (subst (asm) auth_stranger) (auto simp: sy_deps_def)
    then have "s' = s" by (simp add: s' set_store_def)
    then show ?thesis using g by (simp add: unmanaged_def)
  qed (use AdminRequest ex g in \<open>simp add: unmanaged_def\<close>)
next
  case (CleanTick t)
  then show ?thesis
    using ex g clean_identities by (auto simp: store_Loop_def guarded_by_def unmanaged_def same_identities_def peers_def)
next
  case StatsTick
  then show ?thesis
    using ex g refresh_identities by (auto simp: svc_Loop_def guarded_by_def unmanaged_def split: option.splits)
qed (use ex out g in \<open>auto simp: guarded_by_def unmanaged_def split: prod.splits if_splits\<close>)

interpretation stranger: kept_by_steps "sys_exec X" "outsider tok" "guarded_by tok" unmanaged for X tok
proof unfold_locales
  show "unmanaged s s" for s :: "'a system" by (simp add: unmanaged_def)
  show "unmanaged s s1 \<Longrightarrow> unmanaged s1 s2 \<Longrightarrow> unmanaged s s2" for s s1 s2 :: "'a system"
    by (auto simp: unmanaged_def intro: same_identities_trans)
qed (rule sys_exec_outsider)

section \<open>No step fails\<close>

text \<open>The rows of a QR code have one length, as the encoder documents.\<close>

definition qr_documented :: "(string \<Rightarrow> bool list list option) \<Rightarrow> bool" where
  "qr_documented enc \<longleftrightarrow> (\<forall>c m. enc c = Some m \<longrightarrow> (\<exists>w. \<forall>row \<in> set m. length row = w))"

lemma AddPeer_returns: "AddPeer H now w st os name ft cid \<noteq> None"
  using AddPeer_run [of H now w st os name ft cid] by auto

lemma auth_returns: "auth H J enc d rnd t a r \<noteq> None"
proof -
  have "run_route H J enc d rnd t a r h \<noteq> None" for h
    by (cases h) (auto simp: run_route_def apiWGPeerCreate_def Let_def AddPeer_returns split: option.splits prod.splits sum.splits)
  note this [simp]
  show ?thesis by (simp add: auth_def admin_mux_def Let_def del: not_None_eq split: sum.split)
qed

lemma cmdWG_returns:
  assumes "qr_documented enc"
  shows "cmdWG T ev f H enc now db os args \<noteq> None"
proof -
  have "QRTerminal enc conf \<noteq> None" for conf
    using assms qr_terminal_no_panic [of enc conf] unfolding qr_documented_def
    by (cases "enc conf") (simp add: QRTerminal_def, blast)
  note qr = this
  have q: "wg_qr H enc w st os rest \<noteq> None" for w st os rest
    by (simp add: wg_qr_def qr del: not_None_eq split: list.split sum.split prod.split option.split)
  have a: "wg_add H now c w st os rest \<noteq> None" for c w st os rest
    by (simp add: wg_add_def Let_def AddPeer_returns del: not_None_eq split: list.split option.split sum.split prod.split)
  show ?thesis
    by (simp add: cmdWG_def Let_def q a del: not_None_eq split: list.split option.split sum.split prod.split)
qed

lemma sys_exec_returns:
  assumes ok: "dns_ok X s" and a4: "addr_As4 (BlockIPv4 (srv_filter (sy_srv s))) \<noteq> None"
    and conn: "conn_documented (se_net X)" and qr: "qr_documented (se_qr X)"
  shows "sys_exec X ev s \<noteq> None"
proof -
  have so: "srv_ok (se_names X) (se_mdns X) (\<lambda>_. False) (sy_srv s)" using ok by (simp add: dns_ok_def)
  show ?thesis
  proof (cases ev)
    case (PlainQuery m t)
    then show ?thesis by (simp add: ServeDNS_def handle_returns [OF so a4 conn] del: not_None_eq split: option.split prod.split)
  next
    case (HttpsRequest req t)
    then show ?thesis by (simp add: https_serve_def Let_def handleDoH_returns [OF so a4 conn] del: not_None_eq)
  next
    case (AdminRequest r rnd t)
    then show ?thesis by (simp add: auth_returns del: not_None_eq split: option.split prod.split)
  next
    case (WgCommand args t)
    then show ?thesis by (simp add: cmdWG_returns [OF qr] del: not_None_eq split: option.split prod.split)
  qed (auto split: option.split prod.split)
qed

lemma same_BlockIPv4: "sys_same s s' \<Longrightarrow> BlockIPv4 (srv_filter (sy_srv s')) = BlockIPv4 (srv_filter (sy_srv s))"
  by (simp add: sys_same_def same_inline_def BlockIPv4_def blockIPs_def)

interpretation live: live_steps "sys_exec X" "\<lambda>_. True"
  "\<lambda>s. dns_ok X s \<and> addr_As4 (BlockIPv4 (srv_filter (sy_srv s))) \<noteq> None \<and> conn_documented (se_net X) \<and> qr_documented (se_qr X)"
  sys_same for X
proof unfold_locales
  fix s s' ev
  assume inv: "dns_ok X s \<and> addr_As4 (BlockIPv4 (srv_filter (sy_srv s))) \<noteq> None \<and> conn_documented (se_net X) \<and> qr_documented (se_qr X)"
  show "sys_exec X ev s \<noteq> None" using sys_exec_returns inv by blast
  assume "sys_exec X ev s = Some s'"
  then have "dns_ok X s' \<and> sys_same s s'" using sys_exec_dns inv by blast
  with inv show "(dns_ok X s' \<and> addr_As4 (BlockIPv4 (srv_filter (sy_srv s'))) \<noteq> None \<and> conn_documented (se_net X) \<and>
      qr_documented (se_qr X)) \<and> sys_same s s'"
    using same_BlockIPv4 [of s s'] by simp
qed (simp, blast intro: sys_same_trans)

section \<open>The start\<close>

lemma runServer_store:
  assumes "runServer L env E H bt now v c f os = Inr r" and "bt_rows bt = Some rows"
  shows "srv_store (rn_Server r) = rows\<lparr>st_logQueries := log_Queries (c_Log c), st_retention := log_Retention (c_Log c)\<rparr>"
proof -
  let ?st = "rows\<lparr>st_logQueries := log_Queries (c_Log c), st_retention := log_Retention (c_Log c)\<rparr>"
  obtain mp certs e b where "NewServer L E now (boot_config mp c certs e ?st b) = Inr (rn_Server r)"
    using assms by (auto simp: runServer_def Let_def split: if_splits option.splits sum.splits prod.splits)
  from NewServer_fields(2) [OF this] show ?thesis by (simp add: boot_config_def)
qed

lemma wf_store_flags: "wf_store (st\<lparr>st_logQueries := q, st_retention := t\<rparr>) = wf_store st"
  by (simp add: wf_store_def wf_clients_def wf_peers_def wf_counters_def)

lemma NewServer_counters:
  assumes "NewServer L E now cfg = Inr s"
  shows "counters (srv_pool s)"
proof -
  obtain urls ws bs timeout opts b where n: "NewPool L E urls ws bs timeout opts = Inr (srv_pool s)"
    and o: "opts = [] \<or> opts = [WithBrowserUpstream b]"
    using assms by (auto simp: NewServer_def Let_def split: option.splits sum.splits if_splits)
  from pool_reach_counters [OF created [OF n o]] show ?thesis by simp
qed

lemma boot_engine_inline:
  "inline_ok L (fst (boot_engine L env now c f)) \<and> eng_deny (fst (boot_engine L env now c f)) = bl_Denylist (c_Block c) \<and>
   eng_allow (fst (boot_engine L env now c f)) = bl_Allowlist (c_Block c)"
proof -
  let ?e = "SetResponseIP (NewEngine L (sv_DataDir (c_Server c)) (list_specs c) (bl_Allowlist (c_Block c))
    (bl_Denylist (c_Block c)) (bl_Refresh (c_Block c))) (bl_ResponseIP (c_Block c)) ''::''"
  have e: "inline_ok L ?e" "eng_deny ?e = bl_Denylist (c_Block c)" "eng_allow ?e = bl_Allowlist (c_Block c)"
    by (auto simp: inline_ok_def NewEngine_def has_add_all)
  with Refresh_inline [OF e(1), of env now f] show ?thesis
    by (auto simp: boot_engine_def Let_def same_inline_def split: prod.splits)
qed

lemma boot_dns_ok:
  assumes "runServer (se_names X) env (se_net X) H bt now v c f os = Inr r"
  shows "dns_ok X (boot_system r)"
proof -
  obtain now' cfg' where eng: "srv_filter (rn_Server r) = fst (boot_engine (se_names X) env now c f)"
    and n: "NewServer (se_names X) (se_net X) now' cfg' = Inr (rn_Server r)"
    using runServer_filter [OF assms] by blast
  show ?thesis
    using NewServer_ok [OF n, of "\<lambda>_. False"] NewServer_counters [OF n] boot_engine_inline [of "se_names X" env now c f]
    by (simp add: dns_ok_def boot_system_def eng)
qed

lemma boot_vpn_ok:
  assumes "runServer L env E H' bt now v c f os = Inr r" and "bt_rows bt = Some rows" and "vpn_ok H rows"
  shows "vpn_ok H (sy_store (boot_system r))"
  using assms(3) runServer_store [OF assms(1,2)]
  by (intro vpn_ok_other [OF assms(3)]) (simp_all add: wf_store_flags vpn_ok_def boot_system_def)

end
