(* ===== verification/Spec2Isabelle.thy ===== *)
theory Spec2Isabelle
  imports Supp_System
begin

text \<open>
  A verification development of Supp, the self-hosted DNS server with network-wide blocking, a
  WireGuard VPN module, a dashboard and a command line, written in Go under \<^verbatim>\<open>src/\<close>.

  \<^bold>\<open>The program.\<close> \<^verbatim>\<open>supp server\<close> loads a TOML configuration, opens the SQLite store, builds the
  filter engine from block lists and inline lists, a pool of upstream resolvers and the DNS
  server, brings the VPN up when it is enabled and starts the dashboard. A query is checked against
  the filter, then against the reply cache, then sent to the upstreams; the reply is searched for
  aliases of blocked names, its TTLs are clamped and it is cached. Every query is counted in the
  live metrics and in the store. The dashboard reads both, manages devices and, through the VPN
  service, the peers; the service keeps the kernel's peers in line with the store.

  \<^bold>\<open>Theories and sources.\<close>
  \<^item> \<^verbatim>\<open>Supp_Prelude\<close>, \<^verbatim>\<open>Netip\<close>, \<^verbatim>\<open>Go_Duration\<close>, \<^verbatim>\<open>Go_Tls\<close>: what the
    sources use of Go's standard library (\<^verbatim>\<open>strings\<close>, \<^verbatim>\<open>strconv\<close>, \<^verbatim>\<open>filepath\<close>,
    \<^verbatim>\<open>net/netip\<close>, \<^verbatim>\<open>net\<close>, the text of durations in \<^verbatim>\<open>time\<close> with its 64-bit
    floating point, the data of \<^verbatim>\<open>crypto/tls\<close>), select loops over a ticker and a stop channel,
    named collections and shared lemmas. \<^verbatim>\<open>Go_Duration\<close> also has the two text methods of
    \<^verbatim>\<open>config.Duration\<close>.
  \<^item> \<^verbatim>\<open>Matcher\<close> (\<^verbatim>\<open>filter/matcher.go\<close>): the trie of domains, refined to sets of
    label rules; the contract \<open>suffix_set\<close>.
  \<^item> \<^verbatim>\<open>List_Parse\<close> (\<^verbatim>\<open>filter/parse.go\<close>): the three list formats and their detection.
  \<^item> \<^verbatim>\<open>Filter_Engine\<close> (\<^verbatim>\<open>filter/engine.go\<close>): verdicts, downloads, refresh; the contract
    \<open>blocker\<close> of the server.
  \<^item> \<^verbatim>\<open>Dns_Msg\<close>: messages of the third-party DNS library, whose functions are the record
    \<open>mdns_lib\<close>.
  \<^item> \<^verbatim>\<open>Reply_Cache\<close> (\<^verbatim>\<open>dns/cache.go\<close>): the cache, refined to a recency list; the
    contract \<open>answer_cache\<close>.
  \<^item> \<^verbatim>\<open>Dns_Metrics\<close> (\<^verbatim>\<open>dns/metrics.go\<close>): live counters and the window of recent
    queries.
  \<^item> \<^verbatim>\<open>Upstream_Pool\<close> (\<^verbatim>\<open>dns/pool.go\<close>, \<^verbatim>\<open>dns/browser.go\<close>): exchanges,
    health, selection, failover, probes; the network is the record \<open>net_env\<close>; the atomic steps of
    concurrent exchanges are the relation \<open>exch_step\<close>.
  \<^item> \<^verbatim>\<open>Query_Store\<close> (\<^verbatim>\<open>store/store.go\<close>): the tables and every statement on them; the
    contract \<open>peer_store\<close>.
  \<^item> \<^verbatim>\<open>Dns_Server\<close> (\<^verbatim>\<open>dns/server.go\<close>): the request pipeline for plain DNS, DoT and
    DoH; runs of requests are the relation \<open>srv_reach\<close>.
  \<^item> \<^verbatim>\<open>Dns_Listen\<close> (\<^verbatim>\<open>dns/server.go\<close>): \<^verbatim>\<open>Run\<close>, which opens the plain, TLS and
    HTTPS listeners, the HTTPS routes, and \<^verbatim>\<open>Close\<close>.
  \<^item> \<^verbatim>\<open>Supp_Config\<close> (\<^verbatim>\<open>config/config.go\<close>): the file's sections as records, defaults,
    validation, loading, saving; the TOML codec is the record \<open>toml_lib\<close>.
  \<^item> \<^verbatim>\<open>Wg_Conf\<close> (\<^verbatim>\<open>wg/conf.go\<close>, \<^verbatim>\<open>wg/util.go\<close>, \<^verbatim>\<open>wg/qr.go\<close>):
    peer files, tunnel addresses, QR pictures.
  \<^item> \<^verbatim>\<open>Wg_Manager\<close> (\<^verbatim>\<open>wg/manager*.go\<close>, \<^verbatim>\<open>wg/keys.go\<close>,
    \<^verbatim>\<open>wg/fs.go\<close>): the kernel manager on both platforms over the record \<open>host\<close>; the contract
    \<open>peer_manager\<close>.
  \<^item> \<^verbatim>\<open>Wg_Service\<close> (\<^verbatim>\<open>wg/service.go\<close>): the VPN service; the stores it can reach are
    the relation \<open>vpn_reach\<close>.
  \<^item> \<^verbatim>\<open>Admin_Api\<close> (\<^verbatim>\<open>admin/server.go\<close>, \<^verbatim>\<open>admin/render.go\<close>): the token
    gate, the routes and every handler.
  \<^item> \<^verbatim>\<open>Supp_Init\<close> (\<^verbatim>\<open>ops/init.go\<close>), \<^verbatim>\<open>Supp_Tls\<close> (\<^verbatim>\<open>ops/tls.go\<close>),
    \<^verbatim>\<open>Supp_Cli\<close> (\<^verbatim>\<open>cmd/supp/main.go\<close>): generating the configuration, the certificates
    of the listeners, starting the server, \<^verbatim>\<open>main\<close> and every subcommand.
  \<^item> \<^verbatim>\<open>Supp_System\<close>: the started program as one transition system, \<open>sys_exec\<close>, whose events
    are DNS and HTTPS requests, dashboard requests, ticks of the loops of lists, pool, store and
    VPN, and commands of other processes on the same database; the contract \<open>kept_by_steps\<close> of its
    invariants, interpreted for the DNS side, the VPN rows and what strangers can do, and its
    extension \<open>live_steps\<close> for progress.

  \<^bold>\<open>Conventions.\<close> A struct is a record, an operation a function from the old state to its result
  and the new state. An error is \<open>Inl\<close> or \<open>Some\<close> of an error; a run-time panic, and a loop that
  would not end, is \<open>None\<close> of an outermost option. Counters of type \<^verbatim>\<open>uint64\<close> and addresses
  are words and wrap. A method under a mutex, and a statement on the single database connection,
  is one step. Code that is not in the repository is a field of a record that the definitions take
  as an argument; what a theorem needs of it is a named hypothesis (\<open>mdns_documented\<close>,
  \<open>wgctrl_documented\<close>, \<open>conn_documented\<close>, \<open>qr_documented\<close>, \<open>toml_carries\<close>) with an instance for the
  witness.

  \<^bold>\<open>What is shown.\<close> For the server: blocked names never reach cache or upstreams, no reply carries
  an alias of a blocked name, replies belong to their requests, stale data only replaces failed
  upstreams, requests do not panic, and the DoH paths need the token of an active device. For its
  parts: the trie, the parsers, the refresh (also in outages), the cache as an LRU with stale
  window, counters, failover, health and in-flight counts under interleaving, table integrity and
  exact statistics. For the VPN: the address search ends and gives the first free host, the byte
  loop for broadcast addresses is equivalent to its definition, new peers get fresh addresses, and
  the kernel has exactly the active peers after every successful change. For the outer layers:
  loading yields well-formed configurations and nothing else, saving and loading is a round trip,
  also for the text of durations, \<^verbatim>\<open>supp init\<close> leaves a configuration whose token opens the
  dashboard, a started server opens exactly the configured sockets and closes them, and the
  dashboard changes nothing without its token. The theorems of this theory are about the whole
  program after any sequence of events: the denylist holds from the configuration to the wire, one
  invariant covers all parts, no event makes the program panic or hang, and nobody without the
  token or a shell changes devices, peers or the VPN.

  \<^bold>\<open>Bounds and termination.\<close> All recursive definitions are total. The address search is a partial
  function, since the source bounds it only by the prefix; \<open>AllocIP_returns\<close> and its
  specification show that it returns always. The infinite loops of the source run once per event
  of a finite sequence. The only fuel is in \<open>read_all\<close> of \<^verbatim>\<open>Wg_Conf\<close>, a
  specification that needs one step more than there are bytes.

  \<^bold>\<open>Not modelled.\<close> What is inside the sockets, the TLS, uTLS and ACME libraries, SQLite, TOML, the
  DNS wire format and the WireGuard kernel (parameters); releasing idle connections
  (\<^verbatim>\<open>BrowserPool.Close\<close>) and the responder for HTTP challenges, which have no result; HTML
  templates, the text of JSON, log lines, usage and column padding; data races of goroutines
  beyond the exchanges of the pool, since a method under a mutex is one step; disk failures of the
  database; IDNA and Unicode case tables, which are parameters.
\<close>

section \<open>A concrete system\<close>

definition demo_sys :: "string list sys_env" where
  "demo_sys =
     \<lparr>se_names = ascii_lib, se_mdns = ok_mdns, se_net = tiny_net [], se_host = tiny_host ''k'',
      se_json = \<lparr>jsonName = (\<lambda>_. None), jsonPeer = (\<lambda>_. None), jsonActive = (\<lambda>_. None)\<rparr>, se_png = (\<lambda>_ _. None),
      se_qr = (\<lambda>_. Some [[True, False], [False, True]]), se_toml = demo_toml, se_config = ''''\<rparr>"

text \<open>
  A query for a denylisted name, an attempt to delete a device with a guessed token, a refresh of
  the lists and a query for another name.
\<close>

definition demo_events :: "sys_event list" where
  "demo_events =
     [PlainQuery (ask 7 ''x.ads.com.'' TypeA) 1,
      AdminRequest \<lparr>arq_Method = ''DELETE'', arq_Path = ''/api/clients/0'', arq_XAdminToken = ''guess'', arq_Cookie = None,
        arq_Query = [], arq_Body = []\<rparr> None 2,
      ListTick offline_env 9, PlainQuery (ask 8 ''a.com.'' TypeA) 20]"

abbreviation demo_start :: "boot_error + string list running" where
  "demo_start \<equiv> runServer ascii_lib offline_env (tiny_net []) (tiny_host ''k'') demo_boot 0 ''v'' demo_config Map.empty []"

lemma demo_sys_sel [simp]:
  "se_names demo_sys = ascii_lib" "se_net demo_sys = tiny_net []" "se_host demo_sys = tiny_host ''k''" "se_mdns demo_sys = ok_mdns"
  by (simp_all add: demo_sys_def)

text \<open>The events of a run one after another, for evaluation.\<close>

fun exec_all :: "'os sys_env \<Rightarrow> sys_event list \<Rightarrow> 'os system \<Rightarrow> 'os system option" where
  "exec_all X [] s = Some s"
| "exec_all X (ev # evs) s = (case sys_exec X ev s of None \<Rightarrow> None | Some s' \<Rightarrow> exec_all X evs s')"

lemma exec_all_run:
  assumes "sys_run X s0 evs0 s" and "exec_all X evs s = Some s'"
  shows "sys_run X s0 (evs0 @ evs) s'"
  using assms
proof (induction evs arbitrary: s evs0)
  case (Cons ev evs)
  then obtain s1 where "sys_exec X ev s = Some s1" "exec_all X evs s1 = Some s'" by (auto split: option.splits)
  with Cons.IH [OF runs_step [OF Cons.prems(1)]] show ?case by fastforce
qed simp

lemmas exec_all_sys_run = exec_all_run [OF runs_start, unfolded append_Nil]

lemma demo_run:
  obtains r s where "demo_start = Inr r" and "sys_run demo_sys (boot_system r) demo_events s"
    and "\<not> Has ascii_lib (eng_allowed (srv_filter (sy_srv s))) (query_name ascii_lib \<lparr>q_Name = ''x.ads.com.'', q_Qtype = TypeA, q_Qclass = ClassINET\<rparr>)"
    and "rn_Admin r \<noteq> None"
proof -
  have "case demo_start of Inl _ \<Rightarrow> False
    | Inr r \<Rightarrow> (case exec_all demo_sys demo_events (boot_system r) of None \<Rightarrow> False
        | Some s \<Rightarrow> \<not> Has ascii_lib (eng_allowed (srv_filter (sy_srv s)))
              (query_name ascii_lib \<lparr>q_Name = ''x.ads.com.'', q_Qtype = TypeA, q_Qclass = ClassINET\<rparr>) \<and> rn_Admin r \<noteq> None)"
    by code_simp
  then show thesis using that by (auto split: sum.splits option.splits dest: exec_all_sys_run)
qed

section \<open>From the configuration to the answer\<close>

lemma run_inline:
  assumes run: "runServer (se_names X) env (se_net X) H bt now v c f os = Inr r" and sys: "sys_run X (boot_system r) evs s"
  shows "dns_ok X s \<and> eng_deny (srv_filter (sy_srv s)) = bl_Denylist (c_Block c) \<and>
    eng_allow (srv_filter (sy_srv s)) = bl_Allowlist (c_Block c) \<and> sys_same (boot_system r) s"
proof -
  have eng: "srv_filter (rn_Server r) = fst (boot_engine (se_names X) env now c f)"
    using runServer_filter [OF run] by blast
  have "dns_ok X s \<and> sys_same (boot_system r) s" by (rule dns.run_keeps [OF sys boot_dns_ok [OF run]]) simp
  then show ?thesis
    using boot_engine_inline [of "se_names X" env now c f] by (simp add: sys_same_def same_inline_def boot_system_def eng)
qed

lemma run_block_ip4:
  assumes run: "runServer (se_names X) env (se_net X) H bt now v c f os = Inr r" and sys: "sys_run X (boot_system r) evs s"
    and ip: "ParseAddr (bl_ResponseIP (c_Block c)) = Some (Addr4 w)"
  shows "BlockIPv4 (srv_filter (sy_srv s)) = Addr4 w"
proof -
  have "BlockIPv4 (srv_filter (rn_Server r)) = Addr4 w"
    using boot_engine_ip4 [OF ip] runServer_filter [OF run] by metis
  then show ?thesis
    using run_inline [OF run sys] same_BlockIPv4 by (metis boot_system_def system.select_convs(1))
qed



section \<open>The running program\<close>

text \<open>
  C8: The invariant of the running program. Start the server on a sound database; then, after any
  sequence of DNS and HTTPS requests, dashboard requests, ticks of the four background loops and
  management commands from other processes, the tables are consistent and the keys of all peers
  canonical, nothing is left in flight and unhealthy upstreams have failed twice, the cache is
  well-formed and holds replies under their own keys, and the denylist and allowlist of the
  configuration are in the sets that the filter uses.
\<close>
theorem system_invariant:
  assumes run: "runServer (se_names X) env (se_net X) (se_host X) bt now v c f os = Inr r"
    and rows: "bt_rows bt = Some rows" "vpn_ok (se_host X) rows" and doc: "wgctrl_documented (se_host X)"
    and sys: "sys_run X (boot_system r) evs s"
  shows "sys_ok X s \<and> eng_deny (srv_filter (sy_srv s)) = bl_Denylist (c_Block c) \<and>
    eng_allow (srv_filter (sy_srv s)) = bl_Allowlist (c_Block c) \<and> sy_wg s = rn_WG r"
proof -
  have "vpn_ok (se_host X) (sy_store s)"
    using vpn.run_keeps [OF sys] boot_vpn_ok [OF run rows] doc by simp
  then show ?thesis using run_inline [OF run sys] by (simp add: sys_ok_def sys_same_def boot_system_def)
qed

theorem system_invariant_witness:
  "\<exists>r s. demo_start = Inr r \<and> sys_run demo_sys (boot_system r) demo_events s \<and> sys_ok demo_sys s \<and>
     eng_deny (srv_filter (sy_srv s)) = [''ads.com'']"
proof -
  obtain r s where r: "demo_start = Inr r" and s: "sys_run demo_sys (boot_system r) demo_events s" by (rule demo_run)
  have rows: "bt_rows demo_boot = Some (Open True 0)" by (simp add: demo_boot_def)
  have "vpn_ok (tiny_host ''k'') (Open True 0)" by (simp add: vpn_ok_def wf_Open) (simp add: Open_def ListWgPeers_def)
  from system_invariant [where X = demo_sys, unfolded demo_sys_sel, OF r rows this tiny_host_documented s] r s
  show ?thesis by (auto simp: demo_config_def)
qed



text \<open>
  C9: Strangers manage nothing. In a run in which nobody uses the command line and no dashboard
  request presents the token of the configuration (and none can, when the token is empty), all
  devices with their tokens and all peers with their keys and addresses stay what they were at the
  start, nobody is activated or revoked, and the kernel's VPN and the key files of the VPN service
  are untouched, however many DNS requests, refused dashboard requests and ticks there are.
\<close>
theorem devices_need_authority:
  assumes run: "runServer L env E H bt now v c f os = Inr r" and sys: "sys_run X (boot_system r) evs s"
    and out: "\<forall>ev \<in> set evs. outsider (ad_Token (c_Admin c)) ev"
  shows "devices (sy_store s) = devices (srv_store (rn_Server r)) \<and> peers (sy_store s) = peers (srv_store (rn_Server r)) \<and>
    sy_os s = rn_os r \<and> sy_visits s = 0"
proof -
  have "guarded_by (ad_Token (c_Admin c)) (boot_system r)"
    using runServer_admin [OF run] by (auto simp: guarded_by_def boot_system_def)
  from stranger.run_keeps [OF sys this out] show ?thesis
    by (simp add: unmanaged_def same_identities_def boot_system_def)
qed

theorem devices_need_authority_witness:
  "\<exists>r s. demo_start = Inr r \<and> sys_run demo_sys (boot_system r) demo_events s \<and> rn_Admin r \<noteq> None \<and>
     devices (sy_store s) = devices (srv_store (rn_Server r)) \<and> sy_os s = []"
proof -
  obtain r s where r: "demo_start = Inr r" "rn_Admin r \<noteq> None" and s: "sys_run demo_sys (boot_system r) demo_events s" by (rule demo_run)
  have "\<forall>ev \<in> set demo_events. outsider (ad_Token (c_Admin demo_config)) ev" by code_simp
  moreover have "case demo_start of Inl _ \<Rightarrow> False | Inr r \<Rightarrow> rn_os r = []" by code_simp
  ultimately show ?thesis using devices_need_authority [OF r(1) s] r s by auto
qed

end
